(* ===== verification/Prelude.thy ===== *)
theory Prelude
  imports Main "HOL-Library.Word" "HOL-Library.AList"
begin

text \<open>
  Shared vocabulary of the development: the types that stand for Go's values, the outcome of a
  Go call that may panic, the pieces of the standard library that several components use, and
  the generic list facts their proofs rest on.

  A Go \<^verbatim>\<open>string\<close> is a sequence of bytes, so it is modelled by \<^typ>\<open>string\<close> (a list of 8-bit
  characters); a \<^verbatim>\<open>[]byte\<close> is a list of \<open>8 word\<close>. \<open>string_of\<close> and \<open>bytes_of\<close> are the two
  conversions \<^verbatim>\<open>string(b)\<close> and \<^verbatim>\<open>[]byte(s)\<close>.
\<close>

named_theorems go_defs "definitions of the Go library functions used by the program"
named_theorems inv_defs "definitions of the representation invariants"

type_synonym byte = "8 word"
type_synonym bytes = "8 word list"

text \<open>A call either returns or panics (an index out of range, a nil map, a nil pointer).\<close>

datatype 'a outcome = Panic | Ret 'a

fun bind_outcome :: "'a outcome \<Rightarrow> ('a \<Rightarrow> 'b outcome) \<Rightarrow> 'b outcome" where
  "bind_outcome Panic f = Panic"
| "bind_outcome (Ret x) f = f x"

definition string_of :: "bytes \<Rightarrow> string" where
  "string_of bs = map (\<lambda>b. char_of (unat b)) bs"

definition bytes_of :: "string \<Rightarrow> bytes" where
  "bytes_of s = map (\<lambda>c. of_nat (of_char c)) s"

text \<open>Decimal printing of a non-negative integer (\<^verbatim>\<open>strconv.Itoa\<close>, \<^verbatim>\<open>%d\<close>).\<close>

fun itoa :: "nat \<Rightarrow> string" where
  "itoa n = (if n < 10 then [char_of (48 + n)] else itoa (n div 10) @ [char_of (48 + n mod 10)])"

declare itoa.simps [simp del]

definition itoa_int :: "int \<Rightarrow> string" where
  "itoa_int i = (if i < 0 then ''-'' @ itoa (nat (- i)) else itoa (nat i))"

text \<open>\<^verbatim>\<open>strings.Split(s, sep)\<close> for a one-character separator: never the empty list.\<close>

fun split_on :: "char \<Rightarrow> string \<Rightarrow> string list" where
  "split_on c [] = [[]]"
| "split_on c (x # xs) =
     (if x = c then [] # split_on c xs
      else (case split_on c xs of [] \<Rightarrow> [[x]] | p # ps \<Rightarrow> (x # p) # ps))"

text \<open>\<^verbatim>\<open>strings.Contains(s, sub)\<close>: some suffix of \<open>s\<close> starts with \<open>sub\<close>.\<close>

fun is_prefix :: "'a list \<Rightarrow> 'a list \<Rightarrow> bool" where
  "is_prefix [] ys = True"
| "is_prefix (x # xs) [] = False"
| "is_prefix (x # xs) (y # ys) = (x = y \<and> is_prefix xs ys)"

fun contains_str :: "string \<Rightarrow> string \<Rightarrow> bool" where
  "contains_str [] sub = (sub = [])"
| "contains_str (x # xs) sub = (is_prefix sub (x # xs) \<or> contains_str xs sub)"

text \<open>Big-endian numbers: the value of a byte string, and the lowest \<open>n\<close> bytes of a number.\<close>

fun be :: "bytes \<Rightarrow> nat" where
  "be [] = 0"
| "be (b # bs) = unat b * 256 ^ length bs + be bs"

fun to_be :: "nat \<Rightarrow> nat \<Rightarrow> bytes" where
  "to_be 0 x = []"
| "to_be (Suc n) x = of_nat (x div 256 ^ n) # to_be n x"

subsection \<open>Generic facts\<close>

lemma bind_outcome_Ret: "bind_outcome m f = Ret y \<longleftrightarrow> (\<exists>x. m = Ret x \<and> f x = Ret y)"
  by (cases m) auto

lemma sint32_of_int: "0 \<le> i \<Longrightarrow> i < 2 ^ 31 \<Longrightarrow> sint (word_of_int i :: 32 word) = i"
  by (simp add: sint_sbintrunc' signed_take_bit_int_eq_self)

lemma sint64_of_int: "- (2 ^ 63) \<le> i \<Longrightarrow> i < 2 ^ 63 \<Longrightarrow> sint (word_of_int i :: 64 word) = i"
  by (simp add: sint_sbintrunc' signed_take_bit_int_eq_self)

lemma sint32_Suc: "0 \<le> sint n \<Longrightarrow> sint n < sint (m :: 32 word) \<Longrightarrow> sint (n + 1 :: 32 word) = sint n + 1"
  using sint_lt [of m] by (simp add: sint_word_ariths signed_take_bit_int_eq_self)

lemma unat_byte_mod [simp]: "unat (b :: byte) mod 256 = unat b"
proof -
  have "unat b < 256" using unsigned_less [of b] by simp
  then show ?thesis by simp
qed

lemma unat_byte_less [simp]: "unat (b :: byte) < 256"
  using unsigned_less [of b] by simp

lemma uint_byte_less [simp]: "uint (b :: byte) < 256"
  using uint_lt2p [of b] by simp

lemma unat_of_nat_byte: "n < 256 \<Longrightarrow> unat (of_nat n :: byte) = n"
  by (simp add: unat_of_nat take_bit_eq_mod)

lemma bytes_of_string_of [simp]: "bytes_of (string_of bs) = bs"
  by (induction bs) (auto simp: bytes_of_def string_of_def)

lemma string_of_bytes_of [simp]: "string_of (bytes_of s) = s"
proof (induction s)
  case (Cons c s)
  have "unat (of_nat (of_char c) :: byte) = (of_char c :: nat)"
    by (simp add: unat_of_nat take_bit_eq_mod)
  with Cons show ?case by (simp add: bytes_of_def string_of_def)
qed (simp add: bytes_of_def string_of_def)

lemma length_string_of [simp]: "length (string_of bs) = length bs"
  by (simp add: string_of_def)

lemma length_bytes_of [simp]: "length (bytes_of s) = length s"
  by (simp add: bytes_of_def)

lemma bytes_of_Nil_iff [simp]: "bytes_of s = [] \<longleftrightarrow> s = []"
  by (simp add: bytes_of_def)

lemma split_on_not_Nil [simp]: "split_on c s \<noteq> []"
  by (induction s) (auto split: list.splits)

lemma split_on_no_sep: "c \<notin> set s \<Longrightarrow> split_on c s = [s]"
  by (induction s) auto

lemma split_on_append: "c \<notin> set s \<Longrightarrow> split_on c (s @ c # t) = s # split_on c t"
  by (induction s) auto

lemma split_on_concat: "\<exists>p ps. split_on c s = p # ps \<and> c \<notin> set p"
  by (induction s) (auto split: list.splits)

lemma is_prefix_iff: "is_prefix xs ys \<longleftrightarrow> (\<exists>zs. ys = xs @ zs)"
  by (induction xs ys rule: is_prefix.induct) auto

lemma contains_str_iff: "contains_str s sub \<longleftrightarrow> (\<exists>a b. s = a @ sub @ b)"
proof (induction s)
  case (Cons x xs)
  have "(\<exists>a b. x # xs = a @ sub @ b) \<longleftrightarrow>
      (\<exists>b. x # xs = sub @ b) \<or> (\<exists>a b. xs = a @ sub @ b)" (is "?l \<longleftrightarrow> ?r")
  proof
    assume ?l
    then obtain a b where "x # xs = a @ sub @ b" by blast
    then show ?r by (cases a) auto
  next
    assume ?r
    then show ?l
    proof
      assume "\<exists>b. x # xs = sub @ b"
      then obtain b where "x # xs = sub @ b" by blast
      then show ?l by (intro exI [of _ "[]"] exI [of _ b]) simp
    next
      assume "\<exists>a b. xs = a @ sub @ b"
      then obtain a b where "xs = a @ sub @ b" by blast
      then show ?l by (intro exI [of _ "x # a"] exI [of _ b]) simp
    qed
  qed
  with Cons show ?case by (simp add: is_prefix_iff)
qed auto

text \<open>The number of elements with a property, and how updating a list changes it.\<close>

definition cnt :: "('a \<Rightarrow> bool) \<Rightarrow> 'a list \<Rightarrow> nat" where
  "cnt P xs = length (filter P xs)"

lemma cnt_simps [simp]: "cnt P [] = 0" "cnt P (x # xs) = of_bool (P x) + cnt P xs"
  "cnt P (xs @ ys) = cnt P xs + cnt P ys"
  by (simp_all add: cnt_def)

lemma cnt_update: "i < length xs \<Longrightarrow> cnt P (xs[i := y]) + of_bool (P (xs ! i)) = cnt P xs + of_bool (P y)"
proof (induction xs arbitrary: i)
  case (Cons x xs)
  then show ?case by (cases i) auto
qed simp

lemma cnt_pos: "i < length xs \<Longrightarrow> P (xs ! i) \<Longrightarrow> 0 < cnt P xs"
  by (auto simp: cnt_def filter_empty_conv)

lemma cnt_0_iff: "cnt P xs = 0 \<longleftrightarrow> (\<forall>x \<in> set xs. \<not> P x)"
  by (auto simp: cnt_def filter_empty_conv)

lemma nth_remove_distinct:
  assumes "distinct xs" and "i < length xs"
  shows "xs ! i \<notin> set (take i xs @ drop (Suc i) xs)"
  using assms by (metis id_take_nth_drop distinct.simps(2)
      distinct_append Un_iff disjoint_iff list.set_intros(1) set_append)

lemma set_remove_nth: "set (take i xs @ drop j xs) \<subseteq> set xs"
  by (auto dest: in_set_takeD in_set_dropD)

lemma distinct_concat_nth:
  assumes "\<And>i. i < length xs \<Longrightarrow> distinct (xs ! i)"
    and "\<And>i j a. i < length xs \<Longrightarrow> j < length xs \<Longrightarrow> a \<in> set (xs ! i) \<Longrightarrow> a \<in> set (xs ! j) \<Longrightarrow> i = j"
  shows "distinct (concat xs)"
  using assms
proof (induction xs)
  case (Cons x xs)
  have "distinct (concat xs)"
  proof (rule Cons.IH)
    fix i assume "i < length xs"
    then show "distinct (xs ! i)" using Cons.prems(1) [of "Suc i"] by simp
  next
    fix i j a assume "i < length xs" "j < length xs" "a \<in> set (xs ! i)" "a \<in> set (xs ! j)"
    then show "i = j" using Cons.prems(2) [of "Suc i" "Suc j" a] by simp
  qed
  moreover have "set x \<inter> set (concat xs) = {}"
  proof -
    have False if "a \<in> set x" "a \<in> set (concat xs)" for a
    proof -
      from that(2) obtain y where "y \<in> set xs" "a \<in> set y" by auto
      then obtain j where "j < length xs" "a \<in> set (xs ! j)" by (auto simp: in_set_conv_nth [of y])
      with that(1) Cons.prems(2) [of 0 "Suc j" a] show False by simp
    qed
    then show ?thesis by blast
  qed
  ultimately show ?case using Cons.prems(1) [of 0] by simp
qed simp

lemma length_to_be [simp]: "length (to_be n x) = n"
  by (induction n) auto

lemma be_less: "be bs < 256 ^ length bs"
proof (induction bs)
  case (Cons b bs)
  have "unat b * 256 ^ length bs + be bs < (unat b + 1) * 256 ^ length bs"
    using Cons by (simp add: algebra_simps)
  also have "\<dots> \<le> 256 * 256 ^ length bs"
    using unat_byte_less [of b] by (intro mult_right_mono) linarith+
  finally show ?case by simp
qed simp

lemma be_to_be: "be (to_be n x) = x mod 256 ^ n"
proof (induction n)
  case (Suc n)
  have "x mod 256 ^ Suc n = x div 256 ^ n mod 256 * 256 ^ n + x mod 256 ^ n"
    by (metis add.commute mod_mult2_eq mult.commute power_Suc)
  with Suc show ?case by (simp add: unat_of_nat take_bit_eq_mod)
qed simp

lemma to_be_add: "to_be n (y * 256 ^ n + x) = to_be n x"
proof -
  have "m \<le> n \<Longrightarrow> to_be m (y * 256 ^ n + x) = to_be m x" for m
  proof (induction m)
    case (Suc m)
    then obtain k where k: "n = Suc m + k" using le_Suc_ex by blast
    have "(y * 256 ^ n + x) div 256 ^ m = y * 256 ^ k * 256 + x div 256 ^ m"
    proof -
      have "y * 256 ^ n + x = x + y * 256 ^ k * 256 * 256 ^ m"
        unfolding k by (simp add: power_add algebra_simps)
      moreover have "(x + y * 256 ^ k * 256 * 256 ^ m) div 256 ^ m = y * 256 ^ k * 256 + x div 256 ^ m"
        by (rule div_mult_self1) simp
      ultimately show ?thesis by metis
    qed
    then have "(of_nat ((y * 256 ^ n + x) div 256 ^ m) :: byte) = of_nat (x div 256 ^ m)"
      unfolding word_of_nat_eq_iff take_bit_eq_mod by simp
    with Suc show ?case by simp
  qed simp
  then show ?thesis by simp
qed

lemma to_be_be: "to_be (length bs) (be bs) = bs"
proof (induction bs)
  case (Cons b bs)
  have "(unat b * 256 ^ length bs + be bs) div 256 ^ length bs = unat b"
    using be_less [of bs] by simp
  with Cons show ?case by (simp add: to_be_add)
qed simp

lemma be_append_exact:
  assumes "0 < n" and "x < 256 ^ n"
  shows "be (take n s) = x \<and> n \<le> length s \<and> drop n s = r \<longleftrightarrow> s = to_be n x @ r"
proof
  assume "be (take n s) = x \<and> n \<le> length s \<and> drop n s = r"
  then show "s = to_be n x @ r"
    using to_be_be [of "take n s"] by (metis append_take_drop_id length_take min.absorb2)
next
  assume "s = to_be n x @ r"
  then show "be (take n s) = x \<and> n \<le> length s \<and> drop n s = r"
    using assms by (simp add: be_to_be)
qed

subsection \<open>Updating lists\<close>

lemma list_all_update: "list_all P xs \<Longrightarrow> P y \<Longrightarrow> list_all P (xs[i := y])"
  by (auto simp: list_all_iff dest: set_update_subset_insert [THEN subsetD])


lemma sum_list_map_update:
  fixes f :: "'a \<Rightarrow> nat"
  shows "i < length xs \<Longrightarrow> sum_list (map f (xs[i := y])) + f (xs ! i) = sum_list (map f xs) + f y"
proof (induction xs arbitrary: i)
  case (Cons x xs)
  then show ?case by (cases i) (auto simp: add.assoc)
qed simp

end
