(* ===== verification/FifoQueue.thy ===== *)
theory FifoQueue
  imports Prelude
begin

text \<open>
  The contract of the program's queues (\<^verbatim>\<open>utils/Queue/queue.go\<close>): a first-in first-out
  sequence, \<open>items\<close>, that accepts values only while it is open. \<open>fifo_base\<close> is the part that
  both linked-list queues of the program implement; \<open>closable_fifo\<close> adds \<^verbatim>\<open>Close\<close>. The
  clients' facts are proved once here: whatever sequence of calls is made, the values taken out
  followed by the values still inside are the values inside at the start followed by the values
  accepted since, in that order.
\<close>

text \<open>
  Both queues of the program are singly linked lists of two-field nodes (\<^verbatim>\<open>node\<close> in
  \<^verbatim>\<open>mqueue.go\<close>, \<^verbatim>\<open>Node\<close> in \<^verbatim>\<open>rabbitQueue.go\<close>), kept in a store indexed by address. \<open>chain h p as\<close>:
  from \<open>p\<close> the next pointers lead through the addresses \<open>as\<close> to nil. \<open>walk\<close> follows them.
\<close>

record 'a node =
  n_value :: 'a
  n_next :: "nat option"

fun chain :: "(nat \<Rightarrow> 'a node) \<Rightarrow> nat option \<Rightarrow> nat list \<Rightarrow> bool" where
  "chain h p [] = (p = None)"
| "chain h p (a # as) = (p = Some a \<and> chain h (n_next (h a)) as)"

fun walk :: "(nat \<Rightarrow> 'a node) \<Rightarrow> nat \<Rightarrow> nat option \<Rightarrow> nat list" where
  "walk h (Suc n) (Some a) = a # walk h n (n_next (h a))"
| "walk h n p = []"

lemma chain_walk: "chain h p as \<Longrightarrow> walk h (length as) p = as"
  by (induction as arbitrary: p) auto

lemma chain_upd [simp]: "a \<notin> set as \<Longrightarrow> chain (h(a := n)) p as = chain h p as"
  by (induction as arbitrary: p) auto

lemma chain_snoc:
  "chain h p (as @ [t]) \<Longrightarrow> distinct (as @ [t]) \<Longrightarrow> n \<notin> set (as @ [t]) \<Longrightarrow> n_next (h n) = None \<Longrightarrow>
   chain (h(t := (h t)\<lparr>n_next := Some n\<rparr>)) p (as @ [t, n])"
  by (induction as arbitrary: p) auto

datatype 'a queue_op = Enq 'a | Deq | Cls

text \<open>
  A run of a list of calls: the values accepted by \<open>enq\<close>, the values returned by \<open>deq\<close> and the
  final queue.
\<close>

fun run_queue :: "('a \<Rightarrow> 'q \<Rightarrow> bool \<times> 'q) \<Rightarrow> ('q \<Rightarrow> 'a option \<times> 'q) \<Rightarrow> ('q \<Rightarrow> 'q) \<Rightarrow>
    'a queue_op list \<Rightarrow> 'q \<Rightarrow> 'a list \<times> 'a list \<times> 'q" where
  "run_queue enq deq cls [] q = ([], [], q)"
| "run_queue enq deq cls (Enq v # ops) q =
     (let (ok, q1) = enq v q; (acc, out, q2) = run_queue enq deq cls ops q1
      in (if ok then v # acc else acc, out, q2))"
| "run_queue enq deq cls (Deq # ops) q =
     (let (r, q1) = deq q; (acc, out, q2) = run_queue enq deq cls ops q1
      in (acc, case r of None \<Rightarrow> out | Some x \<Rightarrow> x # out, q2))"
| "run_queue enq deq cls (Cls # ops) q = run_queue enq deq cls ops (cls q)"

locale fifo_base =
  fixes enq :: "'a \<Rightarrow> 'q \<Rightarrow> bool \<times> 'q"
    and deq :: "'q \<Rightarrow> 'a option \<times> 'q"
    and items :: "'q \<Rightarrow> 'a list"
    and opened :: "'q \<Rightarrow> bool"
    and inv :: "'q \<Rightarrow> bool"
  assumes enq_open: "inv q \<Longrightarrow> opened q \<Longrightarrow> fst (enq v q)"
    and enq_items: "inv q \<Longrightarrow> opened q \<Longrightarrow> items (snd (enq v q)) = items q @ [v]"
    and enq_opened: "inv q \<Longrightarrow> opened q \<Longrightarrow> opened (snd (enq v q))"
    and enq_inv: "inv q \<Longrightarrow> opened q \<Longrightarrow> inv (snd (enq v q))"
    and enq_closed: "inv q \<Longrightarrow> \<not> opened q \<Longrightarrow> enq v q = (False, q)"
    and deq_empty: "inv q \<Longrightarrow> items q = [] \<Longrightarrow> deq q = (None, q)"
    and deq_first: "inv q \<Longrightarrow> items q = x # xs \<Longrightarrow> fst (deq q) = Some x"
    and deq_items: "inv q \<Longrightarrow> items q = x # xs \<Longrightarrow> items (snd (deq q)) = xs"
    and deq_opened: "inv q \<Longrightarrow> items q = x # xs \<Longrightarrow> opened (snd (deq q)) = opened q"
    and deq_inv: "inv q \<Longrightarrow> items q = x # xs \<Longrightarrow> inv (snd (deq q))"
begin

lemma enq_cases:
  assumes "inv q"
  shows "enq v q = (False, q) \<and> \<not> opened q \<or>
    (\<exists>q'. enq v q = (True, q') \<and> inv q' \<and> opened q \<and> opened q' \<and> items q' = items q @ [v])"
proof (cases "opened q")
  case True
  obtain ok q' where e: "enq v q = (ok, q')" by fastforce
  show ?thesis
    using enq_open [OF assms True, of v] enq_items [OF assms True, of v]
      enq_opened [OF assms True, of v] enq_inv [OF assms True, of v] True e by simp
next
  case False
  with enq_closed [OF assms this] show ?thesis by simp
qed

lemma deq_cases:
  assumes "inv q"
  shows "deq q = (None, q) \<and> items q = [] \<or>
    (\<exists>x q'. deq q = (Some x, q') \<and> inv q' \<and> opened q' = opened q \<and> items q = x # items q')"
proof (cases "items q")
  case Nil
  with deq_empty [OF assms this] show ?thesis by simp
next
  case (Cons x xs)
  obtain r q' where "deq q = (r, q')" by fastforce
  with deq_first [OF assms Cons] deq_items [OF assms Cons] deq_opened [OF assms Cons]
    deq_inv [OF assms Cons] Cons show ?thesis by simp
qed

end

locale closable_fifo = fifo_base enq deq items opened inv
  for enq :: "'a \<Rightarrow> 'q \<Rightarrow> bool \<times> 'q" and deq :: "'q \<Rightarrow> 'a option \<times> 'q"
    and items :: "'q \<Rightarrow> 'a list" and opened :: "'q \<Rightarrow> bool" and inv :: "'q \<Rightarrow> bool" +
  fixes cls :: "'q \<Rightarrow> 'q"
  assumes cls_items: "inv q \<Longrightarrow> items (cls q) = items q"
    and cls_opened: "inv q \<Longrightarrow> \<not> opened (cls q)"
    and cls_inv: "inv q \<Longrightarrow> inv (cls q)"
begin

lemma run_fifo:
  assumes "inv q" and "run_queue enq deq cls ops q = (acc, out, q')"
  shows "inv q' \<and> items q @ acc = out @ items q' \<and> (\<not> opened q \<longrightarrow> acc = [] \<and> \<not> opened q')"
  using assms
proof (induction ops arbitrary: q acc out)
  case Nil
  then show ?case by simp
next
  case (Cons op ops)
  note inv = Cons.prems(1) and run = Cons.prems(2)
  show ?case
  proof (cases op)
    case (Enq v)
    obtain ok q1 where e: "enq v q = (ok, q1)" by fastforce
    obtain a o1 q2 where r: "run_queue enq deq cls ops q1 = (a, o1, q2)" by (metis prod_cases3)
    from run Enq e r have eqs: "acc = (if ok then v # a else a)" "out = o1" "q2 = q'" by auto
    from enq_cases [OF inv, of v] e inv have "inv q1" by auto
    from Cons.IH [OF this] r eqs enq_cases [OF inv, of v] e show ?thesis by auto
  next
    case Deq
    obtain d q1 where e: "deq q = (d, q1)" by fastforce
    obtain a o1 q2 where r: "run_queue enq deq cls ops q1 = (a, o1, q2)" by (metis prod_cases3)
    from run Deq e r have eqs: "acc = a" "out = (case d of None \<Rightarrow> o1 | Some x \<Rightarrow> x # o1)" "q2 = q'"
      by auto
    from deq_cases [OF inv] e inv have "inv q1" by auto
    from Cons.IH [OF this] r eqs deq_cases [OF inv] e show ?thesis by auto
  next
    case Cls
    with run have "run_queue enq deq cls ops (cls q) = (acc, out, q')" by simp
    from Cons.IH [OF cls_inv [OF inv] this] cls_items [OF inv] cls_opened [OF inv]
    show ?thesis by auto
  qed
qed

end

end
