(* ===== verification/MQueue.thy ===== *)
theory MQueue
  imports FifoQueue
begin

text \<open>
  \<^verbatim>\<open>utils/Queue/mqueue.go\<close>: the blocking queue of the program, a singly linked list of nodes
  with a node pool. The nodes live in an explicit store (\<open>nodes\<close>, indexed by address), so that
  the pointer code is modelled as it is written: \<open>q_tail\<close> is nil for a queue of at most one
  element, and a node that leaves the queue goes back to the pool and may be handed out again.

  \<^verbatim>\<open>sync.Pool.Get\<close> returns an arbitrary pooled node or a new one; its choice is the argument
  \<open>pick\<close> of \<open>MQueue_Enqueue\<close>, and every theorem holds for every choice.

  Each method runs under \<^verbatim>\<open>recvLock\<close>, so each is one atomic step. The loops \<^verbatim>\<open>DequeueWait\<close> and
  \<^verbatim>\<open>DequeueFunc\<close> release the lock between their dequeue and their wait; they are step functions
  over the atomic sections, and \<open>mq_step\<close> interleaves any number of such consumers with
  producers and \<^verbatim>\<open>Close\<close>.
\<close>

record 'a mqueue =
  q_head :: "nat option"
  q_tail :: "nat option"
  q_status :: bool
  q_count :: int
  q_zero :: 'a
  q_pool :: "nat list"
  q_nodes :: "nat \<Rightarrow> 'a node"
  q_fresh :: nat

datatype queue_error = QueueIsClose | QueueCloseAndEmpty

definition NewMQueue :: "'a \<Rightarrow> 'a mqueue" where
  "NewMQueue z = \<lparr>q_head = None, q_tail = None, q_status = True, q_count = 0, q_zero = z,
     q_pool = [], q_nodes = (\<lambda>_. \<lparr>n_value = z, n_next = None\<rparr>), q_fresh = 0\<rparr>"

definition pool_New :: "'a mqueue \<Rightarrow> nat \<times> 'a mqueue" where
  "pool_New q = (q_fresh q, q\<lparr>q_fresh := Suc (q_fresh q),
     q_nodes := (q_nodes q)(q_fresh q := \<lparr>n_value = q_zero q, n_next = None\<rparr>)\<rparr>)"

definition pool_Get :: "nat option \<Rightarrow> 'a mqueue \<Rightarrow> nat \<times> 'a mqueue" where
  "pool_Get pick q = (case pick of
     None \<Rightarrow> pool_New q
   | Some i \<Rightarrow> (if i < length (q_pool q)
       then (q_pool q ! i, q\<lparr>q_pool := take i (q_pool q) @ drop (Suc i) (q_pool q)\<rparr>)
       else pool_New q))"

definition MQueue_Close :: "'a mqueue \<Rightarrow> 'a mqueue" where
  "MQueue_Close q = q\<lparr>q_status := False\<rparr>"

definition MQueue_link :: "nat \<Rightarrow> 'a mqueue \<Rightarrow> 'a mqueue" where
  "MQueue_link n q = (case q_head q of
     None \<Rightarrow> q\<lparr>q_head := Some n\<rparr>
   | Some h \<Rightarrow> (case q_tail q of
       None \<Rightarrow> q\<lparr>q_tail := Some n, q_nodes := (q_nodes q)(h := (q_nodes q h)\<lparr>n_next := Some n\<rparr>)\<rparr>
     | Some t \<Rightarrow>
         q\<lparr>q_nodes := (q_nodes q)(t := (q_nodes q t)\<lparr>n_next := Some n\<rparr>), q_tail := Some n\<rparr>))"

definition MQueue_Enqueue ::
    "nat option \<Rightarrow> 'a \<Rightarrow> 'a mqueue \<Rightarrow> queue_error option \<times> 'a mqueue" where
  "MQueue_Enqueue pick v q = (if \<not> q_status q then (Some QueueIsClose, q) else
     (let (n, q1) = pool_Get pick q;
          q2 = q1\<lparr>q_nodes := (q_nodes q1)(n := \<lparr>n_value = v, n_next = None\<rparr>)\<rparr>;
          q3 = MQueue_link n q2
      in (None, q3\<lparr>q_count := q_count q3 + 1\<rparr>)))"

definition MQueue_dequeue :: "'a mqueue \<Rightarrow> ('a \<times> bool \<times> bool) \<times> 'a mqueue" where
  "MQueue_dequeue q = (let isClose = (\<not> q_status q) in
     (case q_head q of
       None \<Rightarrow> ((q_zero q, False, isClose), q)
     | Some oldHead \<Rightarrow>
         (let q1 = (case n_next (q_nodes q oldHead) of
                None \<Rightarrow> q\<lparr>q_head := None\<rparr>
              | Some nx \<Rightarrow> (let q' = q\<lparr>q_head := Some nx\<rparr> in
                  if q_head q' = q_tail q' then q'\<lparr>q_tail := None\<rparr> else q'));
              t = n_value (q_nodes q1 oldHead)
          in ((t, True, isClose),
              q1\<lparr>q_count := q_count q1 - 1,
                 q_nodes := (q_nodes q1)(oldHead := \<lparr>n_value = q_zero q1, n_next = None\<rparr>),
                 q_pool := q_pool q1 @ [oldHead]\<rparr>))))"

definition MQueue_Dequeue :: "'a mqueue \<Rightarrow> ('a \<times> bool \<times> bool) \<times> 'a mqueue" where
  "MQueue_Dequeue q = MQueue_dequeue q"

definition MQueue_Count :: "'a mqueue \<Rightarrow> int" where
  "MQueue_Count q = q_count q"

definition MQueue_Status :: "'a mqueue \<Rightarrow> bool" where
  "MQueue_Status q = q_status q"

subsection \<open>The blocking consumers, one atomic section at a time\<close>

text \<open>
  \<open>WTry\<close>: about to call \<^verbatim>\<open>dequeue\<close>; \<open>WCheck\<close>: about to take the lock and test
  \<^verbatim>\<open>q.status && q.count == 0\<close>; \<open>WParked\<close>: inside \<^verbatim>\<open>recvCond.Wait\<close>; \<open>WRet\<close>: returned.
\<close>

datatype 'a wait_state = WTry | WCheck | WParked | WRet "'a \<times> bool \<times> bool"

definition MQueue_check :: "'a mqueue \<Rightarrow> bool" where
  "MQueue_check q \<longleftrightarrow> q_status q \<and> q_count q = 0"

fun DequeueWait_step :: "'a mqueue \<Rightarrow> 'a wait_state \<Rightarrow> 'a wait_state \<times> 'a mqueue" where
  "DequeueWait_step q WTry =
     (let ((t, ok, isClose), q1) = MQueue_dequeue q
      in if ok then (WRet (t, ok, isClose), q1)
         else if isClose then (WRet (t, ok, isClose), q1) else (WCheck, q1))"
| "DequeueWait_step q WCheck = (if MQueue_check q then (WParked, q) else (WTry, q))"
| "DequeueWait_step q s = (s, q)"

datatype func_state = FTry | FCheck | FParked | FRet "queue_error option"

text \<open>
  \<^verbatim>\<open>DequeueFunc\<close>, with the values handed to \<open>fn\<close> as a log.
\<close>

fun DequeueFunc_step :: "('a \<Rightarrow> bool \<Rightarrow> bool) \<Rightarrow> 'a list \<times> func_state \<times> 'a mqueue \<Rightarrow>
    'a list \<times> func_state \<times> 'a mqueue" where
  "DequeueFunc_step fn (hist, FTry, q) =
     (let ((t, ok, isClose), q1) = MQueue_dequeue q
      in if ok then (hist @ [t], if fn t isClose then FCheck else FRet None, q1)
         else if isClose then (hist, FRet (Some QueueCloseAndEmpty), q1) else (hist, FCheck, q1))"
| "DequeueFunc_step fn (hist, FCheck, q) = (hist, if MQueue_check q then FParked else FTry, q)"
| "DequeueFunc_step fn (hist, s, q) = (hist, s, q)"

subsection \<open>The representation\<close>

definition q_addrs :: "'a mqueue \<Rightarrow> nat list" where
  "q_addrs q = walk (q_nodes q) (nat (q_count q)) (q_head q)"

definition q_items :: "'a mqueue \<Rightarrow> 'a list" where
  "q_items q = map (\<lambda>a. n_value (q_nodes q a)) (q_addrs q)"

definition rep :: "'a mqueue \<Rightarrow> nat list \<Rightarrow> bool" where
  "rep q as \<longleftrightarrow> chain (q_nodes q) (q_head q) as \<and> distinct (as @ q_pool q) \<and>
     q_tail q = (if length as < 2 then None else Some (last as)) \<and>
     q_count q = int (length as) \<and> (\<forall>a \<in> set (as @ q_pool q). a < q_fresh q)"

definition mq_inv :: "'a mqueue \<Rightarrow> bool" where
  "mq_inv q \<longleftrightarrow> rep q (q_addrs q)"

subsection \<open>The pointer code implements the FIFO contract\<close>

lemma rep_addrs: "rep q as \<Longrightarrow> q_addrs q = as"
  by (simp add: rep_def q_addrs_def chain_walk)

lemma mq_invI: "rep q as \<Longrightarrow> mq_inv q"
  by (simp add: mq_inv_def rep_addrs)

lemma rep_items: "rep q as \<Longrightarrow> q_items q = map (\<lambda>a. n_value (q_nodes q a)) as"
  by (simp add: q_items_def rep_addrs)

lemma pool_Get_rep:
  assumes "rep q as" and "pool_Get pick q = (n, q1)"
  shows "rep q1 as" and "n \<notin> set as \<union> set (q_pool q1)" and "n < q_fresh q1"
    and "\<forall>a \<in> set as. q_nodes q1 a = q_nodes q a"
    and "q_status q1 = q_status q \<and> q_zero q1 = q_zero q"
proof -
  have new: "rep (snd (pool_New q)) as \<and> q_fresh q \<notin> set as \<union> set (q_pool q)"
    using assms(1) by (fastforce simp: rep_def pool_New_def less_Suc_eq)
  have "rep q1 as \<and> n \<notin> set as \<union> set (q_pool q1) \<and> n < q_fresh q1 \<and>
      (\<forall>a \<in> set as. q_nodes q1 a = q_nodes q a) \<and>
      q_status q1 = q_status q \<and> q_zero q1 = q_zero q"
  proof (cases "\<exists>i. pick = Some i \<and> i < length (q_pool q)")
    case True
    then obtain i where i: "pick = Some i" "i < length (q_pool q)" by blast
    with assms(2) have eqs: "n = q_pool q ! i"
        "q1 = q\<lparr>q_pool := take i (q_pool q) @ drop (Suc i) (q_pool q)\<rparr>"
      by (auto simp: pool_Get_def)
    have d: "distinct (q_pool q)" "set as \<inter> set (q_pool q) = {}"
      using assms(1) by (auto simp: rep_def)
    have "distinct (take i (q_pool q) @ drop (Suc i) (q_pool q))"
      using d(1) by (metis distinct_take distinct_drop distinct_append Suc_n_not_le_n
          set_take_disj_set_drop_if_distinct nat_le_linear)
    moreover have "n \<notin> set (take i (q_pool q) @ drop (Suc i) (q_pool q))"
      using nth_remove_distinct [OF d(1) i(2)] eqs(1) by simp
    moreover have "n \<in> set (q_pool q)" using i(2) eqs(1) by simp
    ultimately show ?thesis
      using assms(1) d set_remove_nth [of i "q_pool q" "Suc i"] eqs(2)
      by (auto simp: rep_def)
  next
    case False
    with assms(2) have "(n, q1) = pool_New q"
      by (auto simp: pool_Get_def split: option.splits if_splits)
    with new show ?thesis by (auto simp: pool_New_def)
  qed
  then show "rep q1 as" and "n \<notin> set as \<union> set (q_pool q1)" and "n < q_fresh q1"
    and "\<forall>a \<in> set as. q_nodes q1 a = q_nodes q a"
    and "q_status q1 = q_status q \<and> q_zero q1 = q_zero q" by auto
qed

lemma MQueue_link_rep:
  assumes "rep q as" and "n \<notin> set as \<union> set (q_pool q)" and "n < q_fresh q"
    and "q_nodes q n = \<lparr>n_value = v, n_next = None\<rparr>"
  shows "rep ((MQueue_link n q)\<lparr>q_count := q_count (MQueue_link n q) + 1\<rparr>) (as @ [n])"
    and "\<forall>a \<in> set (as @ [n]). n_value (q_nodes (MQueue_link n q) a) = n_value (q_nodes q a)"
    and "q_status (MQueue_link n q) = q_status q \<and> q_zero (MQueue_link n q) = q_zero q"
proof -
  show "rep ((MQueue_link n q)\<lparr>q_count := q_count (MQueue_link n q) + 1\<rparr>) (as @ [n])"
  proof (cases as rule: rev_cases)
    case Nil
    with assms show ?thesis by (simp add: rep_def MQueue_link_def)
  next
    case (snoc bs t)
    show ?thesis
    proof (cases bs)
      case Nil
      with assms snoc show ?thesis by (auto simp: rep_def MQueue_link_def)
    next
      case (Cons b cs)
      from assms(1) snoc Cons have "q_head q = Some b" "q_tail q = Some t"
        by (auto simp: rep_def)
      moreover have "chain ((q_nodes q)(t := (q_nodes q t)\<lparr>n_next := Some n\<rparr>)) (q_head q) (bs @ [t, n])"
        using assms snoc by (intro chain_snoc) (auto simp: rep_def)
      ultimately show ?thesis
        using assms snoc Cons by (auto simp: rep_def MQueue_link_def)
    qed
  qed
qed (auto simp: MQueue_link_def split: option.splits)

lemma MQueue_Enqueue_rep:
  assumes "rep q as" and "q_status q"
  obtains n q' where "MQueue_Enqueue pick v q = (None, q')" and "rep q' (as @ [n])"
    and "q_items q' = q_items q @ [v]" and "q_status q'" and "q_zero q' = q_zero q"
proof -
  obtain n q1 where g: "pool_Get pick q = (n, q1)" by fastforce
  note p = pool_Get_rep [OF assms(1) g]
  define q2 where "q2 = q1\<lparr>q_nodes := (q_nodes q1)(n := \<lparr>n_value = v, n_next = None\<rparr>)\<rparr>"
  have r2: "rep q2 as" using p(1,2) by (auto simp: rep_def q2_def)
  have n2: "n \<notin> set as \<union> set (q_pool q2)" "n < q_fresh q2"
      "q_nodes q2 n = \<lparr>n_value = v, n_next = None\<rparr>"
    using p(2,3) by (auto simp: q2_def)
  let ?q3 = "MQueue_link n q2"
  let ?q = "?q3\<lparr>q_count := q_count ?q3 + 1\<rparr>"
  note l = MQueue_link_rep [OF r2 n2]
  have "map (\<lambda>a. n_value (q_nodes ?q a)) (as @ [n]) = q_items q @ [v]"
    using l(2) n2 p(2,4) by (auto simp: rep_items [OF assms(1)] q2_def)
  then have "q_items ?q = q_items q @ [v]" by (simp only: rep_items [OF l(1)])
  moreover have "MQueue_Enqueue pick v q = (None, ?q)"
    using assms(2) g by (simp add: MQueue_Enqueue_def q2_def Let_def)
  ultimately show ?thesis
    using l(1,3) p(5) assms(2) by (intro that [of ?q n]) (auto simp: q2_def)
qed

lemma MQueue_dequeue_empty:
  assumes "rep q []"
  shows "MQueue_dequeue q = ((q_zero q, False, \<not> q_status q), q)"
  using assms by (simp add: rep_def MQueue_dequeue_def)

lemma MQueue_dequeue_rep:
  assumes "rep q (a # as)"
  obtains q' where "MQueue_dequeue q = ((n_value (q_nodes q a), True, \<not> q_status q), q')"
    and "rep q' as" and "q_items q' = tl (q_items q)" and "q_status q' = q_status q"
    and "q_zero q' = q_zero q"
proof -
  let ?q = "snd (MQueue_dequeue q)"
  have hd: "q_head q = Some a" and ch: "chain (q_nodes q) (n_next (q_nodes q a)) as"
    and d: "a \<notin> set as" using assms by (auto simp: rep_def)
  have e: "MQueue_dequeue q = ((n_value (q_nodes q a), True, \<not> q_status q), ?q)"
    using hd by (auto simp: MQueue_dequeue_def Let_def split: option.splits)
  have r: "rep ?q as"
  proof (cases as)
    case Nil
    with assms show ?thesis by (auto simp: rep_def MQueue_dequeue_def)
  next
    case (Cons b bs)
    then have "(Some b = q_tail q) = (bs = [])"
      using assms by (cases bs rule: rev_cases) (auto simp: rep_def)
    with Cons assms show ?thesis
      by (cases bs) (auto simp: rep_def MQueue_dequeue_def Let_def)
  qed
  have "\<forall>x \<in> set as. q_nodes ?q x = q_nodes q x"
    using hd d by (auto simp: MQueue_dequeue_def Let_def split: option.splits)
  then have "q_items ?q = tl (q_items q)"
    by (simp add: rep_items [OF r] rep_items [OF assms])
  with e r show ?thesis
    by (intro that [of ?q]) (auto simp: MQueue_dequeue_def Let_def split: option.splits)
qed

lemmas mq_inv_rep = mq_inv_def [THEN iffD1]

text \<open>The interface as the contract's clients see it.\<close>

definition mq_enq :: "nat option \<Rightarrow> 'a \<Rightarrow> 'a mqueue \<Rightarrow> bool \<times> 'a mqueue" where
  "mq_enq pick v q = (case MQueue_Enqueue pick v q of (e, q') \<Rightarrow> (e = None, q'))"

definition mq_deq :: "'a mqueue \<Rightarrow> 'a option \<times> 'a mqueue" where
  "mq_deq q = (case MQueue_Dequeue q of ((t, ok, _), q') \<Rightarrow> (if ok then Some t else None, q'))"

lemma mq_enq_open:
  assumes "mq_inv q" and "q_status q"
  shows "fst (mq_enq pick v q) \<and> q_items (snd (mq_enq pick v q)) = q_items q @ [v] \<and>
    q_status (snd (mq_enq pick v q)) \<and> mq_inv (snd (mq_enq pick v q))"
  by (rule MQueue_Enqueue_rep [OF mq_inv_rep [OF assms(1)] assms(2), of pick v])
     (auto simp: mq_enq_def intro: mq_invI)

lemma mq_deq_nonempty:
  assumes "mq_inv q" and "q_items q = x # xs"
  shows "fst (mq_deq q) = Some x \<and> q_items (snd (mq_deq q)) = xs \<and>
    q_status (snd (mq_deq q)) = q_status q \<and> mq_inv (snd (mq_deq q))"
proof -
  from assms obtain a as where r: "rep q (a # as)" and a: "n_value (q_nodes q a) = x"
    by (auto simp: q_items_def dest: mq_inv_rep)
  from r show ?thesis
    by (rule MQueue_dequeue_rep)
       (auto simp: mq_deq_def MQueue_Dequeue_def a assms(2) intro: mq_invI)
qed

lemma mq_close:
  "q_items (MQueue_Close q) = q_items q \<and> \<not> q_status (MQueue_Close q) \<and>
   mq_inv (MQueue_Close q) = mq_inv q"
  by (simp add: MQueue_Close_def mq_inv_def rep_def q_items_def q_addrs_def)

interpretation mq: closable_fifo "mq_enq pick" mq_deq q_items q_status mq_inv MQueue_Close for pick
proof unfold_locales
  fix q :: "'a mqueue" and v
  assume "mq_inv q" and "\<not> q_status q"
  then show "mq_enq pick v q = (False, q)" by (simp add: mq_enq_def MQueue_Enqueue_def)
next
  fix q :: "'a mqueue"
  assume "mq_inv q" and "q_items q = []"
  then have "rep q []" by (auto simp: q_items_def dest: mq_inv_rep)
  then show "mq_deq q = (None, q)"
    by (simp add: mq_deq_def MQueue_Dequeue_def MQueue_dequeue_empty)
qed (simp_all add: mq_enq_open mq_deq_nonempty mq_close)

lemma NewMQueue_inv: "mq_inv (NewMQueue z) \<and> q_items (NewMQueue z) = []"
  by (simp add: NewMQueue_def mq_inv_def rep_def q_addrs_def q_items_def)

subsection \<open>Any number of consumers and producers\<close>

text \<open>
  The state of a running queue: the queue, the local state of every goroutine inside
  \<^verbatim>\<open>DequeueWait\<close>, and the two ghost logs of values accepted and values returned. A \<^verbatim>\<open>Broadcast\<close>
  moves every parked goroutine back to the head of its loop.
\<close>

record 'a mq_sys =
  s_queue :: "'a mqueue"
  s_wait :: "nat \<Rightarrow> 'a wait_state"
  s_in :: "'a list"
  s_out :: "'a list"

definition Broadcast :: "(nat \<Rightarrow> 'a wait_state) \<Rightarrow> nat \<Rightarrow> 'a wait_state" where
  "Broadcast w = (\<lambda>i. case w i of WParked \<Rightarrow> WTry | s \<Rightarrow> s)"

definition taken :: "'a wait_state \<Rightarrow> 'a list" where
  "taken s = (case s of WRet (t, ok, _) \<Rightarrow> if ok then [t] else [] | _ \<Rightarrow> [])"

inductive mq_step :: "'a mq_sys \<Rightarrow> 'a mq_sys \<Rightarrow> bool" where
  produce: "MQueue_Enqueue pick v (s_queue s) = (None, q) \<Longrightarrow>
    mq_step s (s\<lparr>s_queue := q, s_wait := Broadcast (s_wait s), s_in := s_in s @ [v]\<rparr>)"
| refuse: "MQueue_Enqueue pick v (s_queue s) = (Some e, q) \<Longrightarrow> mq_step s (s\<lparr>s_queue := q\<rparr>)"
| close: "mq_step s (s\<lparr>s_queue := MQueue_Close (s_queue s), s_wait := Broadcast (s_wait s)\<rparr>)"
| poll: "MQueue_Dequeue (s_queue s) = ((t, ok, c), q) \<Longrightarrow>
    mq_step s (s\<lparr>s_queue := q, s_out := s_out s @ (if ok then [t] else [])\<rparr>)"
| consume: "DequeueWait_step (s_queue s) (s_wait s i) = (w, q) \<Longrightarrow> s_wait s i = WTry \<Longrightarrow>
    mq_step s (s\<lparr>s_queue := q, s_wait := (s_wait s)(i := w), s_out := s_out s @ taken w\<rparr>)"
| check: "DequeueWait_step (s_queue s) WCheck = (w, q) \<Longrightarrow> s_wait s i = WCheck \<Longrightarrow>
    mq_step s (s\<lparr>s_queue := q, s_wait := (s_wait s)(i := w)\<rparr>)"

inductive mq_reach :: "'a \<Rightarrow> 'a mq_sys \<Rightarrow> bool" for z :: 'a where
  init: "mq_reach z \<lparr>s_queue = NewMQueue z, s_wait = (\<lambda>_. WTry), s_in = [], s_out = []\<rparr>"
| step: "mq_reach z s \<Longrightarrow> mq_step s s' \<Longrightarrow> mq_reach z s'"

inductive_cases mq_stepE: "mq_step s s'"

text \<open>
  A consumer parks only when the queue is open and empty, and every call that could change that
  wakes all of them; the logs account for every accepted value exactly once, in order.
\<close>

definition mq_sys_inv :: "'a mq_sys \<Rightarrow> bool" where
  "mq_sys_inv s \<longleftrightarrow> mq_inv (s_queue s) \<and> s_in s = s_out s @ q_items (s_queue s) \<and>
     ((\<exists>i. s_wait s i = WParked) \<longrightarrow> q_status (s_queue s) \<and> q_items (s_queue s) = [])"

lemma Broadcast_not_parked [simp]: "Broadcast w i \<noteq> WParked"
  by (simp add: Broadcast_def split: wait_state.splits)

lemma MQueue_check_iff: "mq_inv q \<Longrightarrow> MQueue_check q \<longleftrightarrow> q_status q \<and> q_items q = []"
  by (auto simp: MQueue_check_def mq_inv_def q_items_def rep_def)

lemma MQueue_Dequeue_cases:
  assumes "mq_inv q" and "MQueue_Dequeue q = ((t, ok, c), q')"
  shows "mq_inv q' \<and> q_status q' = q_status q \<and> c = (\<not> q_status q) \<and>
    q_items q = (if ok then [t] else []) @ q_items q' \<and> (\<not> ok \<longrightarrow> q' = q \<and> q_items q = [])"
proof (cases "q_addrs q")
  case Nil
  with assms show ?thesis
    using MQueue_dequeue_empty [of q]
    by (auto simp: MQueue_Dequeue_def mq_inv_def q_items_def)
next
  case (Cons a as)
  then have r: "rep q (a # as)" using assms(1) by (simp add: mq_inv_def)
  from r show ?thesis
    by (rule MQueue_dequeue_rep)
       (use assms(2) rep_items [OF r] in \<open>auto simp: MQueue_Dequeue_def intro: mq_invI\<close>)
qed

lemma MQueue_Enqueue_cases:
  assumes "mq_inv q" and "MQueue_Enqueue pick v q = (e, q')"
  shows "(case e of None \<Rightarrow> q_status q \<and> q_status q' \<and> mq_inv q' \<and> q_items q' = q_items q @ [v]
    | Some x \<Rightarrow> \<not> q_status q \<and> q' = q \<and> x = QueueIsClose)"
proof (cases "q_status q")
  case True
  with mq_enq_open [OF assms(1) True, of pick v] assms(2) show ?thesis
    by (auto simp: mq_enq_def split: option.splits)
next
  case False
  with assms(2) show ?thesis by (auto simp: MQueue_Enqueue_def)
qed

lemma DequeueWait_try:
  assumes "mq_inv q" and "DequeueWait_step q WTry = (w, q')"
  shows "mq_inv q' \<and> q_status q' = q_status q \<and> q_items q = taken w @ q_items q' \<and> w \<noteq> WParked"
proof -
  obtain t ok c q1 where d: "MQueue_dequeue q = ((t, ok, c), q1)"
    by (cases "MQueue_dequeue q") auto
  from assms(2) d have "q1 = q'"
      "w = (if ok \<or> c then WRet (t, ok, c) else WCheck)" by (auto split: if_splits)
  with MQueue_Dequeue_cases [OF assms(1)] d show ?thesis
    by (auto simp: MQueue_Dequeue_def taken_def)
qed

lemma mq_step_inv: "mq_step s s' \<Longrightarrow> mq_sys_inv s \<Longrightarrow> mq_sys_inv s'"
proof (induction rule: mq_step.induct)
  case (produce pick v s q)
  with MQueue_Enqueue_cases [of "s_queue s" pick v None q] show ?case
    by (auto simp: mq_sys_inv_def)
next
  case (refuse pick v s e q)
  with MQueue_Enqueue_cases [of "s_queue s" pick v "Some e" q] show ?case
    by (auto simp: mq_sys_inv_def)
next
  case (close s)
  then show ?case using mq_close [of "s_queue s"] by (auto simp: mq_sys_inv_def)
next
  case (poll s t ok c q)
  with MQueue_Dequeue_cases [of "s_queue s" t ok c q] show ?case
    by (auto simp: mq_sys_inv_def split: if_splits)
next
  case (consume s i w q)
  with DequeueWait_try [of "s_queue s" w q] show ?case
    by (auto simp: mq_sys_inv_def split: if_splits)
next
  case (check s w q i)
  then have "mq_inv (s_queue s)" by (simp add: mq_sys_inv_def)
  with check MQueue_check_iff [of "s_queue s"] show ?case
    by (auto simp: mq_sys_inv_def split: if_splits)
qed

lemma mq_reach_inv: "mq_reach z s \<Longrightarrow> mq_sys_inv s"
proof (induction rule: mq_reach.induct)
  case init
  then show ?case using NewMQueue_inv [of z] by (simp add: mq_sys_inv_def)
qed (rule mq_step_inv)

subsection \<open>Draining a closed queue\<close>

text \<open>
  What \<^verbatim>\<open>DequeueFunc\<close> hands to \<open>fn\<close> once the queue is closed: the queued values in order, up to
  and including the first one for which \<open>fn\<close> returns false.
\<close>

fun fed :: "('a \<Rightarrow> bool \<Rightarrow> bool) \<Rightarrow> 'a list \<Rightarrow> 'a list" where
  "fed fn [] = []"
| "fed fn (x # xs) = x # (if fn x True then fed fn xs else [])"

lemma fed_all: "(\<And>x. fn x True) \<Longrightarrow> fed fn xs = xs"
  by (induction xs) auto

lemma DequeueFunc_closed_try:
  assumes "mq_inv q" and "\<not> q_status q" and "q_items q = x # xs"
  shows "\<exists>q'. DequeueFunc_step fn (hist, FTry, q) =
      (hist @ [x], if fn x True then FCheck else FRet None, q') \<and>
    mq_inv q' \<and> \<not> q_status q' \<and> q_items q' = xs"
proof -
  obtain t ok c q1 where d: "MQueue_dequeue q = ((t, ok, c), q1)"
    by (cases "MQueue_dequeue q") auto
  with MQueue_Dequeue_cases [OF assms(1), of t ok c q1] assms(2,3) show ?thesis
    by (auto simp: MQueue_Dequeue_def split: if_splits)
qed

lemma DequeueFunc_drain:
  assumes "mq_inv q" and "\<not> q_status q"
  shows "\<exists>n q'. ((DequeueFunc_step fn) ^^ n) (hist, FTry, q) =
      (hist @ fed fn (q_items q),
       FRet (if \<forall>x \<in> set (q_items q). fn x True then Some QueueCloseAndEmpty else None), q') \<and>
    q_items q = fed fn (q_items q) @ q_items q'"
  using assms
proof (induction "q_items q" arbitrary: q hist)
  case Nil
  then have "rep q []" by (auto simp: q_items_def dest: mq_inv_rep)
  then have "DequeueFunc_step fn (hist, FTry, q) = (hist, FRet (Some QueueCloseAndEmpty), q)"
    using Nil.prems(2) by (simp add: MQueue_dequeue_empty)
  with Nil.hyps [symmetric] show ?case by (intro exI [of _ 1]) simp
next
  case (Cons x xs)
  obtain q1 where s: "DequeueFunc_step fn (hist, FTry, q) =
      (hist @ [x], if fn x True then FCheck else FRet None, q1)"
    and q1: "mq_inv q1" "\<not> q_status q1" "q_items q1 = xs"
    using DequeueFunc_closed_try [OF Cons.prems Cons.hyps(2) [symmetric]] by blast
  show ?case
  proof (cases "fn x True")
    case False
    with s Cons.hyps(2) [symmetric] q1(3) show ?thesis by (intro exI [of _ 1]) simp
  next
    case True
    have "DequeueFunc_step fn (hist @ [x], FCheck, q1) = (hist @ [x], FTry, q1)"
      using q1(2) by (simp add: MQueue_check_def)
    with s True have two: "((DequeueFunc_step fn) ^^ 2) (hist, FTry, q) = (hist @ [x], FTry, q1)"
      by (simp add: numeral_2_eq_2)
    from Cons.hyps(1) [OF q1(3) [symmetric] q1(1,2), of "hist @ [x]"] obtain n q' where
      n: "((DequeueFunc_step fn) ^^ n) (hist @ [x], FTry, q1) = (hist @ [x] @ fed fn xs,
         FRet (if \<forall>x \<in> set xs. fn x True then Some QueueCloseAndEmpty else None), q')"
      and it: "xs = fed fn xs @ q_items q'"
      unfolding q1(3) by auto
    have "((DequeueFunc_step fn) ^^ (n + 2)) (hist, FTry, q) =
        ((DequeueFunc_step fn) ^^ n) (hist @ [x], FTry, q1)"
      using two by (simp only: funpow_add o_apply)
    with n it True Cons.hyps(2) [symmetric] show ?thesis
      by (intro exI [of _ "n + 2"] exI [of _ q']) simp
  qed
qed

subsection \<open>Properties\<close>



text \<open>
  C25. No lost wake-up: in every interleaving of producers, pollers, Close and any number of
  goroutines inside DequeueWait, a goroutine is parked on the condition variable only while the
  queue is open and empty, and every accepted value was returned once or is still queued, in
  order.
\<close>

theorem DequeueWait_no_lost_wakeup:
  assumes "mq_reach z s"
  shows "(s_wait s i = WParked \<longrightarrow> MQueue_Status (s_queue s) \<and> q_items (s_queue s) = []) \<and>
    s_in s = s_out s @ q_items (s_queue s)"
  using mq_reach_inv [OF assms] by (auto simp: mq_sys_inv_def MQueue_Status_def)

theorem DequeueWait_no_lost_wakeup_witness:
  "\<exists>s. mq_reach (0::int) s \<and> s_wait s 7 = WParked \<and> q_items (s_queue s) = []"
proof -
  define s0 where "s0 = \<lparr>s_queue = NewMQueue (0::int), s_wait = (\<lambda>_. WTry), s_in = [], s_out = []\<rparr>"
  define s1 where "s1 = s0\<lparr>s_queue := NewMQueue 0, s_wait := (s_wait s0)(7 := WCheck),
    s_out := s_out s0 @ taken (WCheck :: int wait_state)\<rparr>"
  define s2 where "s2 = s1\<lparr>s_queue := NewMQueue 0, s_wait := (s_wait s1)(7 := WParked)\<rparr>"
  have "mq_reach 0 s0" unfolding s0_def by (rule mq_reach.init)
  moreover have "mq_step s0 s1" unfolding s1_def
    by (rule mq_step.consume) (simp_all add: s0_def NewMQueue_def MQueue_dequeue_def)
  moreover have "mq_step s1 s2" unfolding s2_def
    by (rule mq_step.check) (simp_all add: s1_def s0_def NewMQueue_def MQueue_check_def)
  ultimately have "mq_reach 0 s2" by (blast intro: mq_reach.step)
  moreover have "s_wait s2 7 = WParked" by (simp add: s2_def)
  ultimately show ?thesis using DequeueWait_no_lost_wakeup [of 0 s2 7] by blast
qed

text \<open>
  Close loses nothing: on a closed queue DequeueFunc returns after finitely many iterations,
  having handed the queued values to its callback in order; it reports the closed queue only when
  the callback accepted every one of them, and stops early only at a value the callback refused.
\<close>

theorem DequeueFunc_drains:
  assumes "mq_inv q" and "\<not> MQueue_Status q"
  shows "\<exists>n q'. ((DequeueFunc_step fn) ^^ n) ([], FTry, q) =
      (fed fn (q_items q),
       FRet (if \<forall>x \<in> set (q_items q). fn x True then Some QueueCloseAndEmpty else None), q') \<and>
    q_items q = fed fn (q_items q) @ q_items q'"
  using DequeueFunc_drain [of q fn "[]"] assms by (simp add: MQueue_Status_def)

theorem DequeueFunc_drains_witness:
  "\<exists>n q'. ((DequeueFunc_step (\<lambda>x _. x < 3)) ^^ n) ([], FTry, MQueue_Close
       (snd (MQueue_Enqueue None 2 (snd (MQueue_Enqueue None 1 (NewMQueue (0::int))))))) =
     ([1, 2], FRet (Some QueueCloseAndEmpty), q')"
proof -
  let ?q = "MQueue_Close (snd (MQueue_Enqueue None 2 (snd (MQueue_Enqueue None 1 (NewMQueue (0::int))))))"
  have e: "MQueue_Enqueue None 1 (NewMQueue (0::int)) =
      (None, snd (MQueue_Enqueue None 1 (NewMQueue (0::int))))"
    by (simp add: MQueue_Enqueue_def NewMQueue_def Let_def pool_Get_def pool_New_def)
  note q1 = MQueue_Enqueue_cases [OF _ e]
  have e2: "MQueue_Enqueue None 2 (snd (MQueue_Enqueue None 1 (NewMQueue (0::int)))) =
      (None, snd (MQueue_Enqueue None 2 (snd (MQueue_Enqueue None 1 (NewMQueue (0::int))))))"
    using q1 NewMQueue_inv [of "0::int"] by (auto simp: MQueue_Enqueue_def Let_def split: prod.splits)
  have "mq_inv ?q" and "\<not> MQueue_Status ?q" and "q_items ?q = [1, 2]"
    using q1 MQueue_Enqueue_cases [OF _ e2] NewMQueue_inv [of "0::int"]
    by (simp_all add: mq_close MQueue_Status_def)
  with DequeueFunc_drains [of ?q "\<lambda>x _. x < 3"] show ?thesis by auto
qed

end
