(* ===== verification/ChannelQueue.thy ===== *)
theory ChannelQueue
  imports FifoQueue
begin

text \<open>
  \<^verbatim>\<open>utils/rabbitMQ/rabbitQueue.go\<close>: the channel queue of the RabbitMQ pool, a linked list with a
  head and an end pointer and a 32-bit length. It has no \<^verbatim>\<open>Close\<close>, so it implements the base
  contract only. \<^verbatim>\<open>&Node{...}\<close> always allocates a new node, the one at \<open>c_fresh\<close>.
\<close>

record 'a channel_queue =
  c_head :: "nat option"
  c_end :: "nat option"
  c_len :: "32 word"
  c_nodes :: "nat \<Rightarrow> 'a node"
  c_fresh :: nat

definition NewChannelQueue :: "'a \<Rightarrow> 'a channel_queue" where
  "NewChannelQueue z = \<lparr>c_head = None, c_end = None, c_len = 0,
     c_nodes = (\<lambda>_. \<lparr>n_value = z, n_next = None\<rparr>), c_fresh = 0\<rparr>"

definition ChannelQueue_Add :: "'a \<Rightarrow> 'a channel_queue \<Rightarrow> 'a channel_queue" where
  "ChannelQueue_Add x q =
     (let n = c_fresh q;
          q1 = q\<lparr>c_nodes := (c_nodes q)(n := \<lparr>n_value = x, n_next = None\<rparr>), c_fresh := Suc n,
                 c_len := c_len q + 1\<rparr>
      in case c_end q1 of
           None \<Rightarrow> q1\<lparr>c_head := Some n, c_end := Some n\<rparr>
         | Some e \<Rightarrow> q1\<lparr>c_nodes := (c_nodes q1)(e := (c_nodes q1 e)\<lparr>n_next := Some n\<rparr>),
                        c_end := Some n\<rparr>)"

definition ChannelQueue_Pop :: "'a channel_queue \<Rightarrow> 'a option \<times> 'a channel_queue" where
  "ChannelQueue_Pop q = (case c_head q of
     None \<Rightarrow> (None, q)
   | Some h \<Rightarrow>
       (let q1 = q\<lparr>c_len := c_len q - 1\<rparr>;
            d = n_value (c_nodes q1 h);
            q2 = q1\<lparr>c_head := n_next (c_nodes q1 h)\<rparr>
        in (Some d, if c_head q2 = None then q2\<lparr>c_end := None\<rparr> else q2)))"

definition ChannelQueue_Count :: "'a channel_queue \<Rightarrow> 32 word" where
  "ChannelQueue_Count q = c_len q"

subsection \<open>Representation\<close>

text \<open>The chain of the queue, read by following at most \<open>c_fresh\<close> pointers.\<close>

definition c_addrs :: "'a channel_queue \<Rightarrow> nat list" where
  "c_addrs q = walk (c_nodes q) (c_fresh q) (c_head q)"

definition c_items :: "'a channel_queue \<Rightarrow> 'a list" where
  "c_items q = map (\<lambda>a. n_value (c_nodes q a)) (c_addrs q)"

definition c_rep :: "'a channel_queue \<Rightarrow> nat list \<Rightarrow> bool" where
  "c_rep q as \<longleftrightarrow> chain (c_nodes q) (c_head q) as \<and> distinct as \<and>
     c_end q = (if as = [] then None else Some (last as)) \<and>
     c_len q = of_nat (length as) \<and> (\<forall>a \<in> set as. a < c_fresh q)"

definition c_inv :: "'a channel_queue \<Rightarrow> bool" where
  "c_inv q \<longleftrightarrow> c_rep q (c_addrs q)"

lemma walk_enough: "chain h p as \<Longrightarrow> length as \<le> n \<Longrightarrow> walk h n p = as"
proof (induction as arbitrary: p n)
  case Nil
  then show ?case by (cases n) auto
next
  case (Cons a as)
  then show ?case by (cases n) auto
qed

lemma c_rep_addrs:
  assumes "c_rep q as"
  shows "c_addrs q = as"
proof -
  have "set as \<subseteq> {..<c_fresh q}" and "distinct as" using assms by (auto simp: c_rep_def)
  then have "length as \<le> c_fresh q"
    by (metis card_lessThan card_mono distinct_card finite_lessThan)
  with assms show ?thesis by (auto simp: c_addrs_def c_rep_def intro: walk_enough)
qed

lemma c_invI: "c_rep q as \<Longrightarrow> c_inv q"
  by (simp add: c_inv_def c_rep_addrs)

lemma c_rep_items: "c_rep q as \<Longrightarrow> c_items q = map (\<lambda>a. n_value (c_nodes q a)) as"
  by (simp add: c_items_def c_rep_addrs)

lemma ChannelQueue_Add_rep:
  assumes "c_rep q as"
  shows "c_rep (ChannelQueue_Add x q) (as @ [c_fresh q])"
    and "c_items (ChannelQueue_Add x q) = c_items q @ [x]"
proof -
  let ?n = "c_fresh q"
  let ?h = "(c_nodes q)(?n := \<lparr>n_value = x, n_next = None\<rparr>)"
  have n: "?n \<notin> set as" using assms by (auto simp: c_rep_def)
  show r: "c_rep (ChannelQueue_Add x q) (as @ [?n])"
  proof (cases as rule: rev_cases)
    case Nil
    with assms show ?thesis by (simp add: c_rep_def ChannelQueue_Add_def Let_def)
  next
    case (snoc bs e)
    have "chain (?h(e := (?h e)\<lparr>n_next := Some ?n\<rparr>)) (c_head q) (bs @ [e, ?n])"
      using assms n snoc by (intro chain_snoc) (auto simp: c_rep_def)
    with assms n snoc show ?thesis by (auto simp: c_rep_def ChannelQueue_Add_def Let_def)
  qed
  have "\<forall>a \<in> set as. n_value (c_nodes (ChannelQueue_Add x q) a) = n_value (c_nodes q a)"
    and "n_value (c_nodes (ChannelQueue_Add x q) ?n) = x"
    using n by (auto simp: ChannelQueue_Add_def Let_def split: option.splits)
  then show "c_items (ChannelQueue_Add x q) = c_items q @ [x]"
    by (simp add: c_rep_items [OF r] c_rep_items [OF assms])
qed

lemma ChannelQueue_Pop_rep:
  assumes "c_rep q (a # as)"
  shows "fst (ChannelQueue_Pop q) = Some (n_value (c_nodes q a))"
    and "c_rep (snd (ChannelQueue_Pop q)) as"
    and "c_items (snd (ChannelQueue_Pop q)) = tl (c_items q)"
proof -
  show "fst (ChannelQueue_Pop q) = Some (n_value (c_nodes q a))"
    using assms by (simp add: c_rep_def ChannelQueue_Pop_def Let_def)
  show r: "c_rep (snd (ChannelQueue_Pop q)) as"
    using assms by (cases as) (auto simp: c_rep_def ChannelQueue_Pop_def Let_def)
  have "c_nodes (snd (ChannelQueue_Pop q)) = c_nodes q"
    by (simp add: ChannelQueue_Pop_def Let_def split: option.splits)
  then show "c_items (snd (ChannelQueue_Pop q)) = tl (c_items q)"
    by (simp add: c_rep_items [OF r] c_rep_items [OF assms])
qed

definition cq_enq :: "'a \<Rightarrow> 'a channel_queue \<Rightarrow> bool \<times> 'a channel_queue" where
  "cq_enq x q = (True, ChannelQueue_Add x q)"

lemma c_pop_nonempty:
  assumes "c_inv q" and "c_items q = x # xs"
  shows "fst (ChannelQueue_Pop q) = Some x \<and> c_items (snd (ChannelQueue_Pop q)) = xs \<and>
    c_inv (snd (ChannelQueue_Pop q))"
proof -
  from assms obtain a as where r: "c_rep q (a # as)" and "n_value (c_nodes q a) = x"
    by (auto simp: c_items_def c_inv_def)
  with ChannelQueue_Pop_rep [OF r] assms(2) show ?thesis by (auto intro: c_invI)
qed

lemma c_add_inv:
  assumes "c_inv q"
  shows "c_items (ChannelQueue_Add x q) = c_items q @ [x] \<and> c_inv (ChannelQueue_Add x q)"
  using ChannelQueue_Add_rep [OF assms [unfolded c_inv_def], of x] by (auto intro: c_invI)

lemma c_pop_empty: "c_inv q \<Longrightarrow> c_items q = [] \<Longrightarrow> ChannelQueue_Pop q = (None, q)"
  by (auto simp: c_inv_def c_items_def c_rep_def ChannelQueue_Pop_def)

interpretation cq: fifo_base cq_enq ChannelQueue_Pop c_items "\<lambda>_. True" c_inv
  by unfold_locales (simp_all add: cq_enq_def c_add_inv c_pop_nonempty c_pop_empty)

lemma NewChannelQueue_inv: "c_inv (NewChannelQueue z) \<and> c_items (NewChannelQueue z) = []"
  by (simp add: NewChannelQueue_def c_inv_def c_rep_def c_addrs_def c_items_def)

subsection \<open>Properties\<close>

text \<open>
  The channel queue refines a list: Add appends, Pop removes the head and reports an empty
  queue as such, and the count is the length modulo 2 to the 32; all of it keeps the
  representation invariant, which a new queue satisfies.
\<close>

theorem ChannelQueue_refines_list:
  assumes "c_inv q"
  shows "c_inv (ChannelQueue_Add x q) \<and> c_items (ChannelQueue_Add x q) = c_items q @ [x] \<and>
    fst (ChannelQueue_Pop q) = (case c_items q of [] \<Rightarrow> None | y # _ \<Rightarrow> Some y) \<and>
    c_inv (snd (ChannelQueue_Pop q)) \<and> c_items (snd (ChannelQueue_Pop q)) = tl (c_items q) \<and>
    ChannelQueue_Count q = of_nat (length (c_items q))"
  using cq.deq_cases [OF assms] c_add_inv [OF assms, of x] assms
  by (auto simp: ChannelQueue_Count_def c_inv_def c_rep_def c_items_def)

theorem ChannelQueue_refines_list_witness:
  "c_inv (NewChannelQueue (0::int)) \<and>
   fst (ChannelQueue_Pop (ChannelQueue_Add 6 (ChannelQueue_Add 5 (NewChannelQueue (0::int))))) = Some 5"
proof -
  have i: "c_inv (NewChannelQueue (0::int))" by (simp add: NewChannelQueue_inv)
  note a = ChannelQueue_refines_list [OF i, of 5]
  then have j: "c_inv (ChannelQueue_Add 5 (NewChannelQueue (0::int)))" by blast
  note b = ChannelQueue_refines_list [OF j, of 6]
  then have k: "c_inv (ChannelQueue_Add 6 (ChannelQueue_Add 5 (NewChannelQueue (0::int))))" by blast
  from ChannelQueue_refines_list [OF k] a b i show ?thesis by (simp add: NewChannelQueue_inv)
qed

end
