(* ===== verification/ConcurrentMap.thy ===== *)
theory ConcurrentMap
  imports Prelude
begin

unbundle bit_operations_syntax

text \<open>
  \<^verbatim>\<open>utils/Map/concurrentMap/map.go\<close>: the sharded map. A Go map is modelled by an association list
  with distinct keys; its order stands for the unspecified iteration order. Every method holds
  the lock of one shard, so it is one atomic step on that shard. A callback may have effects; it
  is a function on a state \<open>'s\<close> that is threaded through.

  The locale \<open>concurrent_map\<close> is what the rest of the program relies on (the manager uses the
  same interface through the \<^verbatim>\<open>cmap\<close> package); the sharded map is an interpretation of it.
\<close>

definition SHARD_COUNT :: nat where
  "SHARD_COUNT = 4"

type_synonym ('k, 'v) shard = "('k \<times> 'v) list"

record ('k, 'v) cmap =
  shards :: "('k, 'v) shard list"
  sharding :: "'k \<Rightarrow> 32 word"

definition create :: "('k \<Rightarrow> 32 word) \<Rightarrow> ('k, 'v) cmap" where
  "create f = \<lparr>shards = replicate SHARD_COUNT [], sharding = f\<rparr>"

definition fnv32_step :: "32 word \<Rightarrow> char \<Rightarrow> 32 word" where
  "fnv32_step hash c = (hash * 16777619) XOR of_nat (of_char c)"

definition fnv32 :: "string \<Rightarrow> 32 word" where
  "fnv32 key = fold (\<lambda>c hash. fnv32_step hash c) key 2166136261"

definition New_cmap :: "(string, 'v) cmap" where
  "New_cmap = create fnv32"

definition NewStringer :: "('k \<Rightarrow> string) \<Rightarrow> ('k, 'v) cmap" where
  "NewStringer str = create (\<lambda>k. fnv32 (str k))"

definition NewWithCustomShardingFunction :: "('k \<Rightarrow> 32 word) \<Rightarrow> ('k, 'v) cmap" where
  "NewWithCustomShardingFunction f = create f"

definition shard_ix :: "('k, 'v) cmap \<Rightarrow> 'k \<Rightarrow> nat" where
  "shard_ix m key = unat (sharding m key) mod SHARD_COUNT"

definition GetShard :: "('k, 'v) cmap \<Rightarrow> 'k \<Rightarrow> ('k, 'v) shard" where
  "GetShard m key = shards m ! shard_ix m key"

definition put_shard :: "'k \<Rightarrow> ('k, 'v) shard \<Rightarrow> ('k, 'v) cmap \<Rightarrow> ('k, 'v) cmap" where
  "put_shard key sh m = m\<lparr>shards := (shards m)[shard_ix m key := sh]\<rparr>"

definition cmap_Set :: "'k \<Rightarrow> 'v \<Rightarrow> ('k, 'v) cmap \<Rightarrow> ('k, 'v) cmap" where
  "cmap_Set key v m = put_shard key (AList.update key v (GetShard m key)) m"

fun cmap_MSet :: "('k \<times> 'v) list \<Rightarrow> ('k, 'v) cmap \<Rightarrow> ('k, 'v) cmap" where
  "cmap_MSet [] m = m"
| "cmap_MSet ((key, v) # data) m = cmap_MSet data (cmap_Set key v m)"

definition cmap_Upsert :: "'k \<Rightarrow> ('v option \<Rightarrow> 's \<Rightarrow> 'v \<times> 's) \<Rightarrow> ('k, 'v) cmap \<Rightarrow> 's \<Rightarrow>
    'v \<times> ('k, 'v) cmap \<times> 's" where
  "cmap_Upsert key cb m s =
     (let shard = GetShard m key;
          (res, s1) = cb (map_of shard key) s
      in (res, put_shard key (AList.update key res shard) m, s1))"

definition cmap_SetIfAbsent :: "'k \<Rightarrow> 'v \<Rightarrow> ('k, 'v) cmap \<Rightarrow> bool \<times> ('k, 'v) cmap" where
  "cmap_SetIfAbsent key v m =
     (let shard = GetShard m key in
      if map_of shard key = None then (True, put_shard key (AList.update key v shard) m)
      else (False, m))"

definition cmap_Get :: "('k, 'v) cmap \<Rightarrow> 'k \<Rightarrow> 'v option" where
  "cmap_Get m key = map_of (GetShard m key) key"

definition cmap_Count :: "('k, 'v) cmap \<Rightarrow> nat" where
  "cmap_Count m = sum_list (map length (shards m))"

definition cmap_Has :: "('k, 'v) cmap \<Rightarrow> 'k \<Rightarrow> bool" where
  "cmap_Has m key = (map_of (GetShard m key) key \<noteq> None)"

definition cmap_Remove :: "'k \<Rightarrow> ('k, 'v) cmap \<Rightarrow> ('k, 'v) cmap" where
  "cmap_Remove key m = put_shard key (AList.delete key (GetShard m key)) m"

definition cmap_RemoveCb :: "'k \<Rightarrow> ('v option \<Rightarrow> 's \<Rightarrow> bool \<times> 's) \<Rightarrow> ('k, 'v) cmap \<Rightarrow> 's \<Rightarrow>
    bool \<times> ('k, 'v) cmap \<times> 's" where
  "cmap_RemoveCb key cb m s =
     (let shard = GetShard m key;
          v = map_of shard key;
          (remove, s1) = cb v s
      in (remove,
          if remove \<and> v \<noteq> None then put_shard key (AList.delete key shard) m else m, s1))"

definition cmap_Pop :: "'k \<Rightarrow> ('k, 'v) cmap \<Rightarrow> 'v option \<times> ('k, 'v) cmap" where
  "cmap_Pop key m =
     (let shard = GetShard m key
      in (map_of shard key, put_shard key (AList.delete key shard) m))"

definition cmap_IsEmpty :: "('k, 'v) cmap \<Rightarrow> bool" where
  "cmap_IsEmpty m = (cmap_Count m = 0)"

text \<open>
  \<^verbatim>\<open>snapshot\<close> fills one channel per shard and \<^verbatim>\<open>fanIn\<close> merges them in some order; the merge is
  modelled as the concatenation, and no theorem depends on the order.
\<close>

definition snapshot :: "('k, 'v) cmap \<Rightarrow> ('k, 'v) shard list" where
  "snapshot m = map (\<lambda>sh. sh) (shards m)"

definition cmap_IterBuffered :: "('k, 'v) cmap \<Rightarrow> ('k \<times> 'v) list" where
  "cmap_IterBuffered m = concat (snapshot m)"

definition cmap_Iter :: "('k, 'v) cmap \<Rightarrow> ('k \<times> 'v) list" where
  "cmap_Iter m = concat (snapshot m)"

definition cmap_Clear :: "('k, 'v) cmap \<Rightarrow> ('k, 'v) cmap" where
  "cmap_Clear m = fold (\<lambda>item m. cmap_Remove (fst item) m) (cmap_IterBuffered m) m"

definition cmap_Items :: "('k, 'v) cmap \<Rightarrow> ('k \<times> 'v) list" where
  "cmap_Items m = fold (\<lambda>(k, v) tmp. AList.update k v tmp) (cmap_IterBuffered m) []"

definition cmap_IterCb :: "('k \<Rightarrow> 'v \<Rightarrow> 's \<Rightarrow> 's) \<Rightarrow> ('k, 'v) cmap \<Rightarrow> 's \<Rightarrow> 's" where
  "cmap_IterCb fn m s = fold (\<lambda>sh s. fold (\<lambda>(k, v) s. fn k v s) sh s) (shards m) s"

definition cmap_Keys :: "('k, 'v) cmap \<Rightarrow> 'k list" where
  "cmap_Keys m = concat (map (map fst) (shards m))"

text \<open>
  Every key sits in the shard its hash selects, and no shard holds a key twice.
\<close>

definition cmap_inv :: "('k, 'v) cmap \<Rightarrow> bool" where
  "cmap_inv m \<longleftrightarrow> length (shards m) = SHARD_COUNT \<and>
     (\<forall>i < SHARD_COUNT. distinct (map fst (shards m ! i)) \<and>
        (\<forall>k \<in> fst ` set (shards m ! i). shard_ix m k = i))"

subsection \<open>The contract\<close>

locale concurrent_map =
  fixes lookup :: "'m \<Rightarrow> 'k \<Rightarrow> 'v option"
    and inv :: "'m \<Rightarrow> bool"
    and upsert :: "'k \<Rightarrow> ('v option \<Rightarrow> 's \<Rightarrow> 'v \<times> 's) \<Rightarrow> 'm \<Rightarrow> 's \<Rightarrow> 'v \<times> 'm \<times> 's"
    and removecb :: "'k \<Rightarrow> ('v option \<Rightarrow> 's \<Rightarrow> bool \<times> 's) \<Rightarrow> 'm \<Rightarrow> 's \<Rightarrow> bool \<times> 'm \<times> 's"
    and pop :: "'k \<Rightarrow> 'm \<Rightarrow> 'v option \<times> 'm"
    and iter :: "'m \<Rightarrow> ('k \<times> 'v) list"
  assumes upsert_res: "inv m \<Longrightarrow> fst (upsert k cb m s) = fst (cb (lookup m k) s)"
    and upsert_state: "inv m \<Longrightarrow> snd (snd (upsert k cb m s)) = snd (cb (lookup m k) s)"
    and upsert_lookup: "inv m \<Longrightarrow> lookup (fst (snd (upsert k cb m s))) =
      (lookup m)(k \<mapsto> fst (cb (lookup m k) s))"
    and upsert_inv: "inv m \<Longrightarrow> inv (fst (snd (upsert k cb m s)))"
    and removecb_res: "inv m \<Longrightarrow> fst (removecb k rcb m s) = fst (rcb (lookup m k) s)"
    and removecb_state: "inv m \<Longrightarrow> snd (snd (removecb k rcb m s)) = snd (rcb (lookup m k) s)"
    and removecb_lookup: "inv m \<Longrightarrow> lookup (fst (snd (removecb k rcb m s))) =
      (if fst (rcb (lookup m k) s) then (lookup m)(k := None) else lookup m)"
    and removecb_inv: "inv m \<Longrightarrow> inv (fst (snd (removecb k rcb m s)))"
    and pop_res: "inv m \<Longrightarrow> fst (pop k m) = lookup m k"
    and pop_lookup: "inv m \<Longrightarrow> lookup (snd (pop k m)) = (lookup m)(k := None)"
    and pop_inv: "inv m \<Longrightarrow> inv (snd (pop k m))"
    and iter_lookup: "inv m \<Longrightarrow> map_of (iter m) = lookup m"
    and iter_distinct: "inv m \<Longrightarrow> distinct (map fst (iter m))"

subsection \<open>The sharded map implements it\<close>

lemma shard_ix_less [simp]: "shard_ix m k < SHARD_COUNT"
  by (simp add: shard_ix_def SHARD_COUNT_def)

lemma sharding_put [simp]: "sharding (put_shard k sh m) = sharding m"
  by (simp add: put_shard_def)

lemma shard_ix_put [simp]: "shard_ix (put_shard k sh m) k' = shard_ix m k'"
  by (simp add: shard_ix_def)

lemma shards_put:
  "shards (put_shard k sh m) = (shards m)[shard_ix m k := sh]"
  by (simp add: put_shard_def)

lemma GetShard_put:
  "cmap_inv m \<Longrightarrow> GetShard (put_shard k sh m) k' =
     (if shard_ix m k' = shard_ix m k then sh else GetShard m k')"
  by (auto simp: GetShard_def shards_put cmap_inv_def)

lemma cmap_inv_ix:
  "cmap_inv m \<Longrightarrow> i < SHARD_COUNT \<Longrightarrow> k \<in> fst ` set (shards m ! i) \<Longrightarrow> shard_ix m k = i"
  unfolding cmap_inv_def by blast

lemma cmap_inv_put:
  assumes "cmap_inv m" and "distinct (map fst sh)"
    and "\<And>k'. k' \<in> fst ` set sh \<Longrightarrow> k' \<in> fst ` set (GetShard m k) \<or> k' = k"
  shows "cmap_inv (put_shard k sh m)"
  unfolding cmap_inv_def
proof (intro conjI allI impI ballI)
  fix i assume i: "i < SHARD_COUNT"
  show "distinct (map fst (shards (put_shard k sh m) ! i))"
    using assms(1,2) i by (simp add: cmap_inv_def shards_put nth_list_update)
  fix k' assume k': "k' \<in> fst ` set (shards (put_shard k sh m) ! i)"
  show "shard_ix (put_shard k sh m) k' = i"
  proof (cases "i = shard_ix m k")
    case True
    then have "k' \<in> fst ` set sh" using k' assms(1) i by (simp add: shards_put cmap_inv_def)
    with assms(3) have "k' \<in> fst ` set (shards m ! i) \<or> k' = k" by (simp add: GetShard_def True)
    with cmap_inv_ix [OF assms(1) i, of k'] True show ?thesis by auto
  next
    case False
    with k' assms(1) i show ?thesis by (auto simp: cmap_inv_def shards_put)
  qed
qed (use assms(1) in \<open>simp add: cmap_inv_def shards_put\<close>)

lemma distinct_GetShard: "cmap_inv m \<Longrightarrow> distinct (map fst (GetShard m k))"
  by (simp add: cmap_inv_def GetShard_def)

lemma cmap_inv_update: "cmap_inv m \<Longrightarrow> cmap_inv (put_shard k (AList.update k v (GetShard m k)) m)"
  by (rule cmap_inv_put)
     (auto simp: distinct_GetShard dom_update intro: distinct_update)

lemma cmap_inv_delete: "cmap_inv m \<Longrightarrow> cmap_inv (put_shard k (AList.delete k (GetShard m k)) m)"
  by (rule cmap_inv_put)
     (auto simp: distinct_GetShard AList.delete_eq intro!: distinct_map_filter)

lemma GetShard_cong: "shard_ix m k = shard_ix m k' \<Longrightarrow> GetShard m k = GetShard m k'"
  by (simp add: GetShard_def)

lemma cmap_Get_update:
  "cmap_inv m \<Longrightarrow> cmap_Get (put_shard k (AList.update k v (GetShard m k)) m) = (cmap_Get m)(k \<mapsto> v)"
  by (rule ext) (auto simp: cmap_Get_def GetShard_put update_conv' cong: GetShard_cong)

lemma cmap_Get_delete:
  "cmap_inv m \<Longrightarrow> cmap_Get (put_shard k (AList.delete k (GetShard m k)) m) = (cmap_Get m)(k := None)"
  by (rule ext) (auto simp: cmap_Get_def GetShard_put delete_conv' cong: GetShard_cong)

lemma set_shard_Get:
  assumes "cmap_inv m"
  shows "(k, v) \<in> set (concat (shards m)) \<longleftrightarrow> cmap_Get m k = Some v"
proof
  assume "(k, v) \<in> set (concat (shards m))"
  then obtain sh where "sh \<in> set (shards m)" and kv: "(k, v) \<in> set sh" by auto
  then obtain i where i: "i < SHARD_COUNT" "sh = shards m ! i"
    using assms by (auto simp: in_set_conv_nth [of sh] cmap_inv_def)
  then have i: "i < SHARD_COUNT" "(k, v) \<in> set (shards m ! i)" using kv by auto
  then have "shard_ix m k = i" using cmap_inv_ix [OF assms] by (metis fst_conv imageI)
  with i assms show "cmap_Get m k = Some v"
    by (auto simp: cmap_Get_def GetShard_def cmap_inv_def)
next
  assume "cmap_Get m k = Some v"
  then have "(k, v) \<in> set (shards m ! shard_ix m k)"
    by (auto simp: cmap_Get_def GetShard_def dest: map_of_SomeD)
  moreover have "shards m ! shard_ix m k \<in> set (shards m)"
    using assms by (intro nth_mem) (simp add: cmap_inv_def)
  ultimately show "(k, v) \<in> set (concat (shards m))" by auto
qed

lemma distinct_all_keys:
  assumes "cmap_inv m"
  shows "distinct (map fst (concat (shards m)))"
proof -
  have "distinct (concat (map (map fst) (shards m)))"
  proof (rule distinct_concat_nth)
    fix i j k assume "i < length (map (map fst) (shards m))" "j < length (map (map fst) (shards m))"
      "k \<in> set (map (map fst) (shards m) ! i)" "k \<in> set (map (map fst) (shards m) ! j)"
    then show "i = j"
      using cmap_inv_ix [OF assms, of i k] cmap_inv_ix [OF assms, of j k] assms
      by (simp add: cmap_inv_def [of m])
  qed (use assms in \<open>simp add: cmap_inv_def\<close>)
  then show ?thesis by (simp add: map_concat)
qed

lemma map_of_all: "cmap_inv m \<Longrightarrow> map_of (concat (shards m)) = cmap_Get m"
  using distinct_all_keys [of m] set_shard_Get [of m]
  by (intro ext) (metis map_of_eq_None_iff not_None_eq map_of_eq_Some_iff)

lemma snapshot_eq [simp]: "snapshot m = shards m"
  by (simp add: snapshot_def)

lemma cmap_RemoveCb_Get:
  assumes "cmap_inv m"
  shows "cmap_Get (fst (snd (cmap_RemoveCb k rcb m s))) =
    (if fst (rcb (cmap_Get m k) s) then (cmap_Get m)(k := None) else cmap_Get m)"
proof (cases "cmap_Get m k")
  case None
  then have "(cmap_Get m)(k := None) = cmap_Get m" by auto
  with None show ?thesis
    by (simp add: cmap_RemoveCb_def Let_def cmap_Get_def [symmetric] split: prod.splits)
next
  case (Some v)
  with assms show ?thesis
    by (simp add: cmap_RemoveCb_def Let_def cmap_Get_delete cmap_Get_def [symmetric]
        split: prod.splits)
qed

interpretation cm: concurrent_map cmap_Get cmap_inv cmap_Upsert cmap_RemoveCb cmap_Pop cmap_Iter
  by unfold_locales (simp_all add: cmap_Upsert_def cmap_Pop_def cmap_Iter_def Let_def
      cmap_RemoveCb_def cmap_RemoveCb_Get [unfolded cmap_RemoveCb_def Let_def]
      cmap_Get_update cmap_Get_delete cmap_inv_update cmap_inv_delete cmap_Get_def [symmetric]
      distinct_all_keys map_of_all fun_upd_idem split: prod.splits)

lemma cmap_Set_Get: "cmap_inv m \<Longrightarrow> cmap_Get (cmap_Set k v m) = (cmap_Get m)(k \<mapsto> v)"
  by (simp add: cmap_Set_def cmap_Get_update)

lemma cmap_Set_inv: "cmap_inv m \<Longrightarrow> cmap_inv (cmap_Set k v m)"
  by (simp add: cmap_Set_def cmap_inv_update)

lemma cmap_Remove_Get: "cmap_inv m \<Longrightarrow> cmap_Get (cmap_Remove k m) = (cmap_Get m)(k := None)"
  by (simp add: cmap_Remove_def cmap_Get_delete)

lemma cmap_Remove_inv: "cmap_inv m \<Longrightarrow> cmap_inv (cmap_Remove k m)"
  by (simp add: cmap_Remove_def cmap_inv_delete)

lemma create_inv: "cmap_inv (create f) \<and> cmap_Get (create f) = Map.empty"
  by (auto simp: create_def cmap_inv_def cmap_Get_def GetShard_def)

lemma cmap_MSet_Get:
  "cmap_inv m \<Longrightarrow> cmap_inv (cmap_MSet data m) \<and>
     cmap_Get (cmap_MSet data m) = cmap_Get m ++ map_of (rev data)"
  by (induction data m rule: cmap_MSet.induct)
     (auto simp: cmap_Set_inv cmap_Set_Get map_add_def fun_eq_iff split: option.splits)

lemma fold_Remove:
  "cmap_inv m \<Longrightarrow> cmap_inv (fold (\<lambda>item m. cmap_Remove (fst item) m) xs m) \<and>
     cmap_Get (fold (\<lambda>item m. cmap_Remove (fst item) m) xs m) =
       (\<lambda>k. if k \<in> fst ` set xs then None else cmap_Get m k)"
  by (induction xs arbitrary: m) (auto simp: cmap_Remove_inv cmap_Remove_Get fun_eq_iff)

lemma fold_update:
  "map_of (fold (\<lambda>(k, v) tmp. AList.update k v tmp) xs al) = map_of al ++ map_of (rev xs)"
  by (induction xs arbitrary: al)
     (auto simp: update_conv' map_add_def fun_eq_iff split: option.splits)

lemma cmap_keys_eq: "cmap_Keys m = map fst (concat (shards m))"
  by (simp add: cmap_Keys_def map_concat)

lemma keys_dom: "cmap_inv m \<Longrightarrow> fst ` set (concat (shards m)) = dom (cmap_Get m)"
  using map_of_all [of m] dom_map_of_conv_image_fst [of "concat (shards m)"] by simp

lemma cmap_Count_card: "cmap_inv m \<Longrightarrow> cmap_Count m = card (dom (cmap_Get m))"
  using distinct_card [OF distinct_all_keys, of m] keys_dom [of m]
  by (simp add: cmap_Count_def length_concat)

lemma fold_shards: "fold (\<lambda>sh s. fold f sh s) xss s = fold f (concat xss) s"
  by (induction xss arbitrary: s) auto

lemma cmap_IterCb_fold: "cmap_IterCb fn m s = fold (\<lambda>(k, v) s. fn k v s) (cmap_Iter m) s"
  by (simp add: cmap_IterCb_def cmap_Iter_def fold_shards)

subsection \<open>Properties\<close>



text \<open>
  The enumerations agree with the map: Count is the number of keys, Keys lists every key once,
  Items and the snapshot iterators hold exactly the entries, and Clear empties the map.
\<close>

theorem cmap_enumerates:
  assumes "cmap_inv m"
  shows "cmap_Count m = card (dom (cmap_Get m)) \<and>
    (cmap_IsEmpty m \<longleftrightarrow> cmap_Get m = Map.empty) \<and>
    distinct (cmap_Keys m) \<and> set (cmap_Keys m) = dom (cmap_Get m) \<and>
    map_of (cmap_Items m) = cmap_Get m \<and>
    distinct (map fst (cmap_IterBuffered m)) \<and> map_of (cmap_IterBuffered m) = cmap_Get m \<and>
    cmap_IterCb fn m s = fold (\<lambda>(k, v) s. fn k v s) (cmap_Iter m) s \<and>
    cmap_Get (cmap_Clear m) = Map.empty"
proof -
  have fin: "finite (dom (cmap_Get m))"
    by (simp add: map_of_all [OF assms, symmetric] finite_dom_map_of)
  have items: "map_of (rev (concat (shards m))) = cmap_Get m"
    using distinct_all_keys [OF assms] map_of_all [OF assms]
    by (metis distinct_map map_of_inject_set set_rev distinct_rev rev_map)
  have clear: "cmap_Get (cmap_Clear m) = Map.empty"
    using fold_Remove [OF assms, of "cmap_IterBuffered m"] keys_dom [OF assms]
    by (auto simp: cmap_Clear_def cmap_IterBuffered_def fun_eq_iff dom_def)
  show ?thesis
    using fin items clear keys_dom [OF assms] distinct_all_keys [OF assms] map_of_all [OF assms]
    by (auto simp: cmap_Count_card [OF assms] cmap_IsEmpty_def cmap_keys_eq cmap_Items_def cmap_IterCb_fold
        fold_update cmap_IterBuffered_def)
qed

theorem cmap_enumerates_witness:
  "cmap_inv (cmap_Set ''a'' (5::int) (cmap_Set ''b'' 6 New_cmap)) \<and>
   cmap_Count (cmap_Set ''a'' (5::int) (cmap_Set ''b'' 6 New_cmap)) = 2"
proof -
  have i: "cmap_inv (cmap_Set ''a'' (5::int) (cmap_Set ''b'' 6 New_cmap))"
    by (simp add: New_cmap_def create_inv cmap_Set_inv)
  have "cmap_Get (cmap_Set ''a'' (5::int) (cmap_Set ''b'' 6 New_cmap)) = [''b'' \<mapsto> 6, ''a'' \<mapsto> 5]"
    by (simp add: New_cmap_def create_inv cmap_Set_inv cmap_Set_Get)
  with cmap_enumerates [OF i, of "\<lambda>_ _ s. s" "()"] i show ?thesis by (simp add: card_insert_if)
qed

subsection \<open>JSON\<close>

text \<open>
  \<^verbatim>\<open>MarshalJSON\<close> and \<^verbatim>\<open>UnmarshalJSON\<close>; \<open>marshal\<close> and \<open>unmarshal\<close> stand for \<^verbatim>\<open>encoding/json\<close> on a Go map with these entries.
\<close>

definition cmap_MarshalJSON :: "(('k \<times> 'v) list \<Rightarrow> string + bytes) \<Rightarrow> ('k, 'v) cmap \<Rightarrow> string + bytes" where
  "cmap_MarshalJSON marshal m =
     marshal (fold (\<lambda>item tmp. AList.update (fst item) (snd item) tmp) (cmap_IterBuffered m) [])"

definition cmap_UnmarshalJSON :: "(bytes \<Rightarrow> string + ('k \<times> 'v) list) \<Rightarrow> bytes \<Rightarrow> ('k, 'v) cmap \<Rightarrow>
    string option \<times> ('k, 'v) cmap" where
  "cmap_UnmarshalJSON unmarshal b m = (case unmarshal b of
     Inl err \<Rightarrow> (Some err, m)
   | Inr tmp \<Rightarrow> (None, fold (\<lambda>item m. cmap_Set (fst item) (snd item) m) tmp m))"

definition json_map :: "(('k \<times> 'v) list \<Rightarrow> string + bytes) \<Rightarrow> (bytes \<Rightarrow> string + ('k \<times> 'v) list) \<Rightarrow> bool" where
  "json_map marshal unmarshal \<longleftrightarrow> (\<forall>kvs b. marshal kvs = Inr b \<longrightarrow>
     (\<exists>kvs'. unmarshal b = Inr kvs' \<and> distinct (map fst kvs') \<and> map_of kvs' = map_of kvs))"

lemma fold_Set_MSet: "fold (\<lambda>item m. cmap_Set (fst item) (snd item) m) kvs m = cmap_MSet kvs m"
  by (induction kvs m rule: cmap_MSet.induct) auto

lemma map_of_rev_distinct: "distinct (map fst xs) \<Longrightarrow> map_of (rev xs) = map_of xs"
  using map_of_inject_set [of "rev xs" xs] by (simp add: rev_map [symmetric])

lemma map_of_fold_update:
  "map_of (fold (\<lambda>item tmp. AList.update (fst item) (snd item) tmp) xs acc) = map_of acc ++ map_of (rev xs)"
  by (induction xs arbitrary: acc) (auto simp: update_conv' map_add_def fun_eq_iff split: option.splits)

lemma fold_update_all:
  "cmap_inv m \<Longrightarrow> map_of (fold (\<lambda>item tmp. AList.update (fst item) (snd item) tmp) (cmap_IterBuffered m) []) = cmap_Get m"
proof -
  assume i: "cmap_inv m"
  have "map_of (rev (concat (shards m))) = map_of (concat (shards m))"
    using distinct_all_keys [OF i] by (simp add: map_of_rev_distinct)
  with map_of_all [OF i] show ?thesis
    by (simp add: cmap_IterBuffered_def map_of_fold_update)
qed

text \<open>
  A map survives JSON: decoding what \<^verbatim>\<open>MarshalJSON\<close> produced into any well-formed map succeeds, keeps it
  well-formed, and overlays it with the entries of the original.
\<close>

theorem cmap_json_roundtrip:
  assumes "json_map marshal unmarshal" and "cmap_inv m" and "cmap_inv m0" and "cmap_MarshalJSON marshal m = Inr b"
  shows "\<exists>m1. cmap_UnmarshalJSON unmarshal b m0 = (None, m1) \<and> cmap_inv m1 \<and> cmap_Get m1 = cmap_Get m0 ++ cmap_Get m"
proof -
  obtain kvs where k: "unmarshal b = Inr kvs" "distinct (map fst kvs)" "map_of kvs = cmap_Get m"
    using assms(1,4) fold_update_all [OF assms(2)] unfolding json_map_def cmap_MarshalJSON_def by metis
  have "map_of (rev kvs) = cmap_Get m" using k(2,3) by (simp add: map_of_rev_distinct)
  with cmap_MSet_Get [OF assms(3), of kvs] k(1) show ?thesis
    by (simp add: cmap_UnmarshalJSON_def fold_Set_MSet)
qed

fun small_marshal :: "(byte \<times> byte) list \<Rightarrow> string + bytes" where
  "small_marshal [] = Inr []"
| "small_marshal [(k, v)] = Inr [k, v]"
| "small_marshal _ = Inl ''too large''"

fun small_unmarshal :: "bytes \<Rightarrow> string + (byte \<times> byte) list" where
  "small_unmarshal [] = Inr []"
| "small_unmarshal [k, v] = Inr [(k, v)]"
| "small_unmarshal _ = Inl ''syntax''"

theorem cmap_json_roundtrip_witness:
  "\<exists>m1. cmap_UnmarshalJSON small_unmarshal [1, 2] (create (\<lambda>_. 0)) = (None, m1) \<and> cmap_Get m1 = [1 \<mapsto> 2]"
proof -
  let ?m = "cmap_Set 1 2 (create (\<lambda>_. 0)) :: (byte, byte) cmap"
  have c: "cmap_inv (create (\<lambda>_. 0) :: (byte, byte) cmap)" "cmap_Get (create (\<lambda>_. 0) :: (byte, byte) cmap) = Map.empty"
    using create_inv by auto
  have m: "cmap_inv ?m" "cmap_Get ?m = [1 \<mapsto> 2]" using c by (simp_all add: cmap_Set_inv cmap_Set_Get)
  have j: "json_map small_marshal small_unmarshal"
  proof -
    have "\<exists>kvs'. small_unmarshal b = Inr kvs' \<and> distinct (map fst kvs') \<and> map_of kvs' = map_of kvs"
      if "small_marshal kvs = Inr b" for kvs b
      using that by (cases kvs rule: small_marshal.cases) auto
    then show ?thesis by (simp add: json_map_def)
  qed
  have "cmap_MarshalJSON small_marshal ?m = Inr [1, 2]"
  proof -
    have "replicate 4 x = [x, x, x, x]" for x :: "(byte \<times> byte) list" by (simp add: eval_nat_numeral)
    then show ?thesis
      by (simp add: cmap_MarshalJSON_def cmap_IterBuffered_def cmap_Set_def put_shard_def GetShard_def shard_ix_def
          create_def SHARD_COUNT_def)
  qed
  from cmap_json_roundtrip [OF j m(1) c(1) this] m(2) c(2) show ?thesis by auto
qed

end
