(* ===== verification/FlowLimit.thy ===== *)
theory FlowLimit
  imports Prelude
begin

text \<open>
  \<^verbatim>\<open>server/flow_limit.go\<close>: the per-user bandwidth limiter. \<open>LimitedReaderAction\<close> is shared by all
  connections of a user: eight shards hold the bytes already allotted, and a shard that runs dry
  takes a share of the global burst, which is refilled when the clock second changes.
  \<open>LimitedReader\<close> wraps a connection's reader and asks it how much of its buffer it may hand out.

  Go's \<^verbatim>\<open>int\<close> and \<^verbatim>\<open>int64\<close> fields are modelled by \<^typ>\<open>int\<close>: all of them stay between 0 and the
  configured burst (theorem \<open>GetReadSize_bounds\<close>), so no operation overflows; the shard counter
  does wrap and is a \<open>64 word\<close>. The clock reading \<^verbatim>\<open>time.Now().Unix()\<close> is the argument \<open>now\<close>. One
  call is one atomic step.
\<close>

definition LimitshareSize :: nat where
  "LimitshareSize = 8"

record limited_reader_action =
  readRate :: int
  readBurst :: int
  nowTimeUnix :: int
  residReadueBurst :: int
  cc :: "64 word"
  slimitArray :: "int list"
  slimitMaxFlow :: int

definition default_rate :: "int \<Rightarrow> int" where
  "default_rate r = (if r \<le> 0 then 1024 * 30 else r)"

definition default_burst :: "int \<Rightarrow> int" where
  "default_burst b = (if b \<le> 0 then 1024 * 100000 else b)"

definition NewLimitedReaderAction :: "int \<Rightarrow> int \<Rightarrow> int \<Rightarrow> limited_reader_action" where
  "NewLimitedReaderAction now rate burst =
     (let r = default_rate rate; b = default_burst burst
      in \<lparr>readRate = r, readBurst = b, nowTimeUnix = now, residReadueBurst = b, cc = 0,
          slimitArray = replicate LimitshareSize (b div int LimitshareSize),
          slimitMaxFlow = b div int LimitshareSize\<rparr>)"

definition ReadBurst :: "limited_reader_action \<Rightarrow> int" where
  "ReadBurst l = readBurst l"

definition UpdateParameter :: "int \<Rightarrow> int \<Rightarrow> limited_reader_action \<Rightarrow> limited_reader_action" where
  "UpdateParameter rate burst l =
     (let r = default_rate rate; b = default_burst burst
      in l\<lparr>readRate := r, readBurst := b, residReadueBurst := b,
           slimitMaxFlow := b div int LimitshareSize\<rparr>)"

definition GetNowTimeUnix :: "limited_reader_action \<Rightarrow> int" where
  "GetNowTimeUnix l = nowTimeUnix l"

text \<open>The section of \<^verbatim>\<open>GetReadSize\<close> under \<^verbatim>\<open>wMutex\<close>: refill the global burst on a new second, then
  move a share of it into shard \<open>idx\<close>. False: nothing is left in this second.\<close>

definition refill :: "int \<Rightarrow> nat \<Rightarrow> limited_reader_action \<Rightarrow> bool \<times> limited_reader_action" where
  "refill now idx l =
     (let l1 = (if nowTimeUnix l \<noteq> now
                then l\<lparr>nowTimeUnix := now, residReadueBurst := readBurst l\<rparr> else l)
      in if residReadueBurst l1 = 0 then (False, l1)
         else if residReadueBurst l1 \<ge> slimitMaxFlow l1
         then (True, l1\<lparr>residReadueBurst := residReadueBurst l1 - slimitMaxFlow l1,
                        slimitArray := (slimitArray l1)[idx := slimitMaxFlow l1]\<rparr>)
         else (True, l1\<lparr>slimitArray := (slimitArray l1)[idx := residReadueBurst l1],
                        residReadueBurst := 0\<rparr>))"

definition grant :: "nat \<Rightarrow> int \<Rightarrow> limited_reader_action \<Rightarrow> int \<times> limited_reader_action" where
  "grant idx dataLen l =
     (let available = slimitArray l ! idx;
          take_off = (\<lambda>n. l\<lparr>slimitArray := (slimitArray l)[idx := available - n]\<rparr>)
      in if readRate l \<ge> available
         then if dataLen \<ge> available then (available, l\<lparr>slimitArray := (slimitArray l)[idx := 0]\<rparr>)
              else (dataLen, take_off dataLen)
         else if readRate l \<ge> dataLen then (dataLen, take_off dataLen)
         else (readRate l, take_off (readRate l)))"

definition GetReadSize ::
    "int \<Rightarrow> int \<Rightarrow> limited_reader_action \<Rightarrow> int \<times> limited_reader_action" where
  "GetReadSize now dataLen l =
     (let c = cc l + 1; idx = unat c mod LimitshareSize; l1 = l\<lparr>cc := c\<rparr>
      in if slimitArray l1 ! idx \<le> 0
         then (case refill now idx l1 of (False, l2) \<Rightarrow> (0, l2) | (True, l2) \<Rightarrow> grant idx dataLen l2)
         else grant idx dataLen l1)"

text \<open>A run of calls at the given clock readings and buffer sizes: total granted, final state.\<close>

fun run_limit :: "(int \<times> int) list \<Rightarrow> limited_reader_action \<Rightarrow> int \<times> limited_reader_action" where
  "run_limit [] l = (0, l)"
| "run_limit ((now, d) # calls) l =
     (let (n, l1) = GetReadSize now d l; (t, l2) = run_limit calls l1 in (n + t, l2))"

subsection \<open>The reader\<close>

datatype io_error = EOF | CtxErr | ReadErr string

text \<open>
  \<^verbatim>\<open>l.buf\<close> is the slice of the 2048-byte \<^verbatim>\<open>tempbuf\<close> that starts at \<open>lr_off\<close>; its first
  \<open>lr_llen\<close> bytes are unread data. The wrapped \<^verbatim>\<open>io.Reader\<close> is the function \<open>rd\<close>: from its state
  and the buffer size to the bytes read, the error and its next state.
\<close>

record 'r limited_reader =
  lr_src :: 'r
  lr_tempbuf :: bytes
  lr_off :: nat
  lr_llen :: int

type_synonym 'r io_reader = "'r \<Rightarrow> nat \<Rightarrow> bytes \<times> io_error option \<times> 'r"

text \<open>The \<^verbatim>\<open>io.Reader\<close> contract the code relies on: at most the buffer's size is read.\<close>

definition reader_ok :: "'r io_reader \<Rightarrow> bool" where
  "reader_ok rd \<longleftrightarrow> (\<forall>r n. length (fst (rd r n)) \<le> n)"

definition TEMPBUF :: nat where
  "TEMPBUF = 2048"

definition NewLimitedReader :: "'r \<Rightarrow> 'r limited_reader" where
  "NewLimitedReader r = \<lparr>lr_src = r, lr_tempbuf = replicate TEMPBUF 0, lr_off = 0, lr_llen = 0\<rparr>"

definition fill :: "'r io_reader \<Rightarrow> 'r limited_reader \<Rightarrow> io_error option \<times> 'r limited_reader" where
  "fill rd l = (if lr_llen l = 0
     then (case rd (lr_src l) TEMPBUF of (bs, err, r') \<Rightarrow>
       (err, l\<lparr>lr_src := r', lr_off := 0, lr_llen := int (length bs),
              lr_tempbuf := bs @ drop (length bs) (lr_tempbuf l)\<rparr>))
     else (None, l))"

definition LimitedReader_Read :: "'r io_reader \<Rightarrow> bool \<Rightarrow> int \<Rightarrow> nat \<Rightarrow>
    'r limited_reader \<times> limited_reader_action \<Rightarrow>
    ((bytes \<times> io_error option) \<times> 'r limited_reader \<times> limited_reader_action) outcome" where
  "LimitedReader_Read rd ctxDone now plen = (\<lambda>(l, a).
     if ctxDone then Ret (([], Some CtxErr), l, a)
     else case fill rd l of
       (Some e, l1) \<Rightarrow> Ret (([], Some e), l1, a)
     | (None, l1) \<Rightarrow>
         if lr_llen l1 \<le> 0 then Ret (([], Some EOF), l1, a)
         else
           (let (size0, a1) = GetReadSize now (lr_llen l1) a;
                size = (if size0 \<le> 0 then 1 else size0);
                k = (if int plen > size then nat size else plen)
            in if lr_off l1 + k > length (lr_tempbuf l1) then Panic
               else Ret ((take k (drop (lr_off l1) (lr_tempbuf l1)), None),
                    l1\<lparr>lr_llen := lr_llen l1 - int k, lr_off := lr_off l1 + k\<rparr>, a1)))"

subsection \<open>Invariant and budget of the limiter\<close>

definition fl_inv :: "limited_reader_action \<Rightarrow> bool" where
  "fl_inv l \<longleftrightarrow> 0 < readRate l \<and> 0 < readBurst l \<and>
     0 \<le> residReadueBurst l \<and> residReadueBurst l \<le> readBurst l \<and>
     slimitMaxFlow l = readBurst l div 8 \<and> length (slimitArray l) = 8 \<and>
     (\<forall>r \<in> set (slimitArray l). 0 \<le> r)"

definition budget :: "limited_reader_action \<Rightarrow> int" where
  "budget l = sum_list (slimitArray l) + residReadueBurst l"

text \<open>The bytes a call at \<open>now\<close> adds to the budget: the refill of a new second.\<close>

definition refilled :: "int \<Rightarrow> limited_reader_action \<Rightarrow> int" where
  "refilled now l =
     (if slimitArray l ! (unat (cc l + 1) mod 8) \<le> 0 \<and> nowTimeUnix l \<noteq> now
      then readBurst l - residReadueBurst l else 0)"

definition lr_inv :: "'r limited_reader \<Rightarrow> bool" where
  "lr_inv l \<longleftrightarrow> length (lr_tempbuf l) = TEMPBUF \<and> 0 \<le> lr_llen l \<and>
     lr_off l + nat (lr_llen l) \<le> TEMPBUF"

definition pending :: "'r limited_reader \<Rightarrow> bytes" where
  "pending l = take (nat (lr_llen l)) (drop (lr_off l) (lr_tempbuf l))"

definition fetched :: "'r io_reader \<Rightarrow> bool \<Rightarrow> 'r limited_reader \<Rightarrow> bytes" where
  "fetched rd ctxDone l = (if \<not> ctxDone \<and> lr_llen l = 0 then fst (rd (lr_src l) TEMPBUF) else [])"

lemma sum_list_update:
  "i < length xs \<Longrightarrow> sum_list (xs[i := x]) = sum_list xs - xs ! i + (x :: int)"
  by (induction xs arbitrary: i) (auto split: nat.splits)

lemma New_inv: "fl_inv (NewLimitedReaderAction now r b)"
  by (auto simp: fl_inv_def NewLimitedReaderAction_def Let_def default_rate_def default_burst_def
      LimitshareSize_def)

lemma Update_inv: "fl_inv l \<Longrightarrow> fl_inv (UpdateParameter r b l)"
  by (auto simp: fl_inv_def UpdateParameter_def Let_def default_rate_def default_burst_def
      LimitshareSize_def)

lemma fl_inv_upd:
  "fl_inv l \<Longrightarrow> 0 \<le> x \<Longrightarrow> fl_inv (l\<lparr>slimitArray := (slimitArray l)[i := x]\<rparr>)"
  by (auto simp: fl_inv_def dest: set_update_subset_insert [THEN subsetD])

lemma fl_inv_nth: "fl_inv l \<Longrightarrow> i < 8 \<Longrightarrow> 0 \<le> slimitArray l ! i"
  by (auto simp: fl_inv_def)

lemma grant_spec:
  assumes "fl_inv l" and "0 \<le> d" and "i < 8" and "grant i d l = (n, l')"
  shows "fl_inv l'" and "0 \<le> n \<and> n \<le> d \<and> n \<le> readRate l \<and> n \<le> slimitArray l ! i"
    and "l' = l\<lparr>slimitArray := (slimitArray l)[i := slimitArray l ! i - n]\<rparr>"
proof -
  have a: "0 \<le> slimitArray l ! i" using fl_inv_nth [OF assms(1,3)] .
  show eq: "l' = l\<lparr>slimitArray := (slimitArray l)[i := slimitArray l ! i - n]\<rparr>"
    using assms(4) by (auto simp: grant_def Let_def split: if_splits)
  show b: "0 \<le> n \<and> n \<le> d \<and> n \<le> readRate l \<and> n \<le> slimitArray l ! i"
    using assms a by (auto simp: grant_def Let_def fl_inv_def split: if_splits)
  show "fl_inv l'" unfolding eq using b by (intro fl_inv_upd [OF assms(1)]) simp
qed

lemma refill_spec:
  assumes "fl_inv l" and "i < 8" and "slimitArray l ! i \<le> 0" and "refill now i l = (b, l')"
  shows "fl_inv l'" and "budget l' = budget l +
      (if nowTimeUnix l \<noteq> now then readBurst l - residReadueBurst l else 0)"
    and "nowTimeUnix l' = now" and "readRate l' = readRate l \<and> readBurst l' = readBurst l"
    and "\<not> b \<Longrightarrow> residReadueBurst l' = 0"
    and "b \<Longrightarrow> slimitArray l' ! i = (if slimitMaxFlow l \<le> (if nowTimeUnix l \<noteq> now
        then readBurst l else residReadueBurst l) then slimitMaxFlow l
        else (if nowTimeUnix l \<noteq> now then readBurst l else residReadueBurst l))"
proof -
  define l1 where "l1 = (if nowTimeUnix l \<noteq> now
    then l\<lparr>nowTimeUnix := now, residReadueBurst := readBurst l\<rparr> else l)"
  have z: "slimitArray l ! i = 0" using fl_inv_nth [OF assms(1,2)] assms(3) by simp
  have i1: "fl_inv l1" and len: "i < length (slimitArray l)"
    using assms(1,2) by (auto simp: l1_def fl_inv_def)
  have r: "(b, l') = (if residReadueBurst l1 = 0 then (False, l1)
      else if residReadueBurst l1 \<ge> slimitMaxFlow l1
      then (True, l1\<lparr>residReadueBurst := residReadueBurst l1 - slimitMaxFlow l1,
                     slimitArray := (slimitArray l1)[i := slimitMaxFlow l1]\<rparr>)
      else (True, l1\<lparr>slimitArray := (slimitArray l1)[i := residReadueBurst l1],
                     residReadueBurst := 0\<rparr>))"
    using assms(4) [symmetric] by (simp only: refill_def l1_def Let_def)
  have m: "0 \<le> slimitMaxFlow l1" using i1 by (auto simp: fl_inv_def)
  show "fl_inv l'" using r i1 m
    by (auto simp: fl_inv_def split: if_splits dest: set_update_subset_insert [THEN subsetD])
  show "budget l' = budget l + (if nowTimeUnix l \<noteq> now then readBurst l - residReadueBurst l else 0)"
    using r len z by (auto simp: budget_def l1_def sum_list_update split: if_splits)
  show "nowTimeUnix l' = now" and "readRate l' = readRate l \<and> readBurst l' = readBurst l"
    and "\<not> b \<Longrightarrow> residReadueBurst l' = 0"
    and "b \<Longrightarrow> slimitArray l' ! i = (if slimitMaxFlow l \<le> (if nowTimeUnix l \<noteq> now
        then readBurst l else residReadueBurst l) then slimitMaxFlow l
        else (if nowTimeUnix l \<noteq> now then readBurst l else residReadueBurst l))"
    using r len by (auto simp: l1_def split: if_splits)
qed

lemma budget_grant:
  assumes "i < length (slimitArray l)"
  shows "budget (l\<lparr>slimitArray := (slimitArray l)[i := slimitArray l ! i - n]\<rparr>) = budget l - n"
  using assms by (simp add: budget_def sum_list_update)

lemma fl_inv_cc [simp]: "fl_inv (l\<lparr>cc := c\<rparr>) = fl_inv l"
  by (simp add: fl_inv_def)

lemma budget_cc [simp]: "budget (l\<lparr>cc := c\<rparr>) = budget l"
  by (simp add: budget_def)

lemma GetReadSize_spec:
  assumes "fl_inv l" and "0 \<le> d" and "GetReadSize now d l = (n, l')"
  shows "fl_inv l' \<and> 0 \<le> n \<and> n \<le> d \<and> n \<le> readRate l \<and>
    readRate l' = readRate l \<and> readBurst l' = readBurst l \<and>
    budget l' = budget l + refilled now l - n \<and>
    (refilled now l \<noteq> 0 \<longrightarrow> nowTimeUnix l' = now) \<and>
    (nowTimeUnix l = now \<longrightarrow> nowTimeUnix l' = now) \<and>
    (nowTimeUnix l' \<noteq> now \<longrightarrow> residReadueBurst l' = residReadueBurst l)"
proof -
  define c where "c = cc l + 1"
  define i where "i = unat c mod 8"
  define l1 where "l1 = l\<lparr>cc := c\<rparr>"
  have i: "i < 8" by (simp add: i_def)
  have inv1: "fl_inv l1" using assms(1) by (simp add: l1_def)
  have len: "i < length (slimitArray x)" if "fl_inv x" for x using that i by (simp add: fl_inv_def)
  show ?thesis
  proof (cases "slimitArray l1 ! i \<le> 0")
    case False
    with assms(3) have g: "grant i d l1 = (n, l')"
      by (simp add: GetReadSize_def Let_def c_def i_def l1_def LimitshareSize_def)
    note gs = grant_spec [OF inv1 assms(2) i g]
    with budget_grant [OF len [OF inv1], of n] False show ?thesis
      by (auto simp: refilled_def c_def i_def l1_def budget_def)
  next
    case True
    obtain b l2 where rf: "refill now i l1 = (b, l2)" by fastforce
    note rs = refill_spec [OF inv1 i True rf]
    have ref: "refilled now l = (if nowTimeUnix l1 \<noteq> now then readBurst l1 - residReadueBurst l1 else 0)"
      using True by (simp add: refilled_def c_def i_def l1_def)
    show ?thesis
    proof (cases b)
      case False
      with assms(3) rf True have "n = 0" "l' = l2"
        by (auto simp: GetReadSize_def Let_def c_def i_def l1_def LimitshareSize_def)
      with rs ref assms(1,2) show ?thesis by (simp add: l1_def fl_inv_def)
    next
      case b: True
      with assms(3) rf True have g: "grant i d l2 = (n, l')"
        by (simp add: GetReadSize_def Let_def c_def i_def l1_def LimitshareSize_def)
      note gs = grant_spec [OF rs(1) assms(2) i g]
      with rs ref budget_grant [OF len [OF rs(1)], of n] show ?thesis by (auto simp: l1_def)
    qed
  qed
qed

lemma budget_nonneg: "fl_inv l \<Longrightarrow> 0 \<le> budget l"
  by (auto simp: fl_inv_def budget_def intro!: add_nonneg_nonneg sum_list_nonneg)

lemma resid_le_budget: "fl_inv l \<Longrightarrow> residReadueBurst l \<le> budget l"
  by (auto simp: fl_inv_def budget_def intro!: sum_list_nonneg)

text \<open>
  Within one clock second the budget is refilled at most once, by what is missing to a full burst.
\<close>

lemma run_limit_same_second:
  assumes "fl_inv l" and "\<forall>(t, d) \<in> set calls. t = now \<and> 0 \<le> d"
    and "run_limit calls l = (tot, l')"
  shows "fl_inv l' \<and> readBurst l' = readBurst l \<and> 0 \<le> tot \<and> tot + budget l' \<le> budget l +
    (if nowTimeUnix l = now then 0 else readBurst l - residReadueBurst l)"
  using assms
proof (induction calls arbitrary: l tot)
  case Nil
  then show ?case by (auto simp: fl_inv_def)
next
  case (Cons call calls)
  obtain d where c: "call = (now, d)" and d: "0 \<le> d" using Cons.prems(2) by auto
  obtain n l1 where g: "GetReadSize now d l = (n, l1)" by fastforce
  obtain t l2 where r: "run_limit calls l1 = (t, l2)" by fastforce
  from Cons.prems(3) c g r have eqs: "tot = n + t" "l' = l2" by auto
  note gs = GetReadSize_spec [OF Cons.prems(1) d g]
  from Cons.IH [of l1 t] gs r Cons.prems(2) eqs
  have ih: "fl_inv l' \<and> readBurst l' = readBurst l1 \<and> 0 \<le> t \<and> t + budget l' \<le> budget l1 +
      (if nowTimeUnix l1 = now then 0 else readBurst l1 - residReadueBurst l1)" by auto
  show ?case
  proof (cases "nowTimeUnix l = now")
    case True
    with gs ih eqs show ?thesis by (auto simp: refilled_def)
  next
    case False
    show ?thesis
    proof (cases "refilled now l = 0 \<and> nowTimeUnix l1 \<noteq> now")
      case unref: True
      with False gs ih eqs show ?thesis by auto
    next
      case False
      with gs ih eqs Cons.prems(1) show ?thesis by (auto simp: refilled_def fl_inv_def split: if_splits)
    qed
  qed
qed

lemma GetReadSize_zero:
  assumes "fl_inv l" and "0 < d" and "8 \<le> readBurst l" and "GetReadSize now d l = (0, l')"
  shows "residReadueBurst l' = 0 \<and> nowTimeUnix l' = now"
proof -
  define i where "i = unat (cc l + 1) mod 8"
  define l1 where "l1 = l\<lparr>cc := cc l + 1\<rparr>"
  have i: "i < 8" and inv1: "fl_inv l1" using assms(1) by (simp_all add: i_def l1_def)
  have no_grant: "\<not> (grant i d x = (0, l') \<and> fl_inv x \<and> 0 < slimitArray x ! i)" for x
    using assms(2) by (auto simp: grant_def Let_def fl_inv_def split: if_splits)
  show ?thesis
  proof (cases "slimitArray l1 ! i \<le> 0")
    case False
    with assms(4) no_grant [of l1] inv1 show ?thesis
      by (simp add: GetReadSize_def Let_def i_def l1_def LimitshareSize_def)
  next
    case True
    obtain b l2 where rf: "refill now i l1 = (b, l2)" by fastforce
    note rs = refill_spec [OF inv1 i True rf]
    have m: "0 < slimitMaxFlow l1" using inv1 assms(3) by (auto simp: fl_inv_def l1_def)
    show ?thesis
    proof (cases b)
      case False
      with assms(4) rf True rs show ?thesis
        by (auto simp: GetReadSize_def Let_def i_def l1_def LimitshareSize_def)
    next
      case b: True
      have "residReadueBurst l1 \<noteq> 0 \<or> nowTimeUnix l1 \<noteq> now"
        using rf b by (auto simp: refill_def Let_def split: if_splits)
      then have "0 < slimitArray l2 ! i"
        using rs(6) [OF b] m inv1 by (auto simp: fl_inv_def split: if_splits)
      with assms(4) rf True b no_grant [of l2] rs(1) show ?thesis
        by (simp add: GetReadSize_def Let_def i_def l1_def LimitshareSize_def)
    qed
  qed
qed

subsection \<open>The reader\<close>

lemma lr_inv_New: "lr_inv (NewLimitedReader r) \<and> pending (NewLimitedReader r) = []"
  by (simp add: lr_inv_def pending_def NewLimitedReader_def)

lemma fill_spec:
  assumes "lr_inv l" and "reader_ok rd" and "fill rd l = (e, l1)"
  shows "lr_inv l1 \<and> pending l1 = pending l @ fetched rd False l"
proof (cases "lr_llen l = 0")
  case True
  obtain bs err r' where r: "rd (lr_src l) TEMPBUF = (bs, err, r')" by (metis prod_cases3)
  have "length bs \<le> TEMPBUF" using assms(2) r unfolding reader_ok_def by (metis fst_conv)
  with True r assms(1,3) show ?thesis
    by (auto simp: fill_def lr_inv_def pending_def fetched_def)
next
  case False
  with assms show ?thesis by (auto simp: fill_def fetched_def)
qed

lemma length_pending: "lr_inv l \<Longrightarrow> length (pending l) = nat (lr_llen l)"
  by (auto simp: lr_inv_def pending_def)

lemma LimitedReader_Read_spec:
  assumes "lr_inv l" and "fl_inv a" and "reader_ok rd"
  shows "\<exists>out err l' a'. LimitedReader_Read rd ctxDone now plen (l, a) = Ret ((out, err), l', a') \<and>
    lr_inv l' \<and> fl_inv a' \<and> out @ pending l' = pending l @ fetched rd ctxDone l \<and>
    length out \<le> plen \<and> (err \<noteq> None \<longrightarrow> out = []) \<and> (err = None \<and> 0 < plen \<longrightarrow> out \<noteq> [])"
proof (cases ctxDone)
  case True
  with assms show ?thesis by (simp add: LimitedReader_Read_def fetched_def)
next
  case ctx: False
  obtain e l1 where f: "fill rd l = (e, l1)" by fastforce
  note fs = fill_spec [OF assms(1,3) f]
  show ?thesis
  proof (cases "e = None \<and> 0 < lr_llen l1")
    case False
    have "out = []" if "lr_llen l1 \<le> 0" "out = pending l1" for out
      using that length_pending [of l1] fs by simp
    with False ctx f fs assms(2) show ?thesis
      by (auto simp: LimitedReader_Read_def split: option.splits)
  next
    case True
    obtain n a1 where g: "GetReadSize now (lr_llen l1) a = (n, a1)" by fastforce
    note gs = GetReadSize_spec [OF assms(2) _ g]
    define k where "k = (if int plen > (if n \<le> 0 then 1 else n) then nat (if n \<le> 0 then 1 else n) else plen)"
    have k: "int k \<le> lr_llen l1" "k \<le> plen" "0 < plen \<Longrightarrow> 0 < k"
      using True gs by (auto simp: k_def split: if_splits)
    define l' where "l' = l1\<lparr>lr_llen := lr_llen l1 - int k, lr_off := lr_off l1 + k\<rparr>"
    have room: "lr_off l1 + k \<le> length (lr_tempbuf l1)" using fs k True by (auto simp: lr_inv_def)
    have "take k (drop (lr_off l1) (lr_tempbuf l1)) @ pending l' = pending l1"
    proof -
      have "nat (lr_llen l1) = k + nat (lr_llen l1 - int k)" using k by simp
      then show ?thesis
        by (simp add: pending_def l'_def take_add add.commute)
    qed
    moreover have "LimitedReader_Read rd ctxDone now plen (l, a) =
        Ret ((take k (drop (lr_off l1) (lr_tempbuf l1)), None), l', a1)"
      using ctx f True g room by (auto simp: LimitedReader_Read_def k_def l'_def Let_def)
    moreover have "lr_inv l'" using fs k by (auto simp: lr_inv_def l'_def)
    ultimately show ?thesis using fs gs k True room ctx by (auto simp: min_def)
  qed
qed

text \<open>
  The reads a copy loop makes, up to the first error: the bytes handed out, the bytes taken from
  the wrapped reader, and the final state.
\<close>

fun run_reads :: "'r io_reader \<Rightarrow> (int \<times> nat) list \<Rightarrow> 'r limited_reader \<times> limited_reader_action \<Rightarrow>
    (bytes \<times> bytes \<times> 'r limited_reader \<times> limited_reader_action) outcome" where
  "run_reads rd [] s = Ret ([], [], s)"
| "run_reads rd ((now, plen) # calls) s =
     (case LimitedReader_Read rd False now plen s of
        Panic \<Rightarrow> Panic
      | Ret ((out, Some e), s') \<Rightarrow> Ret (out, fetched rd False (fst s), s')
      | Ret ((out, None), s') \<Rightarrow> bind_outcome (run_reads rd calls s')
          (\<lambda>(outs, ins, s''). Ret (out @ outs, fetched rd False (fst s) @ ins, s'')))"

lemma run_reads_spec:
  assumes "reader_ok rd" and "lr_inv l" and "fl_inv a"
  shows "\<exists>outs ins l' a'. run_reads rd calls (l, a) = Ret (outs, ins, l', a') \<and>
    lr_inv l' \<and> fl_inv a' \<and> outs @ pending l' = pending l @ ins"
  using assms(2,3)
proof (induction calls arbitrary: l a)
  case Nil
  then show ?case by simp
next
  case (Cons call calls)
  obtain now plen where c: "call = (now, plen)" by fastforce
  from LimitedReader_Read_spec [where ctxDone = False and now = now and plen = plen,
      OF Cons.prems assms(1)]
  obtain out err l1 a1 where
    r: "LimitedReader_Read rd False now plen (l, a) = Ret ((out, err), l1, a1)"
    and s1: "lr_inv l1" "fl_inv a1" "out @ pending l1 = pending l @ fetched rd False l"
    by blast
  show ?case
  proof (cases err)
    case (Some e)
    with c r s1 show ?thesis by simp
  next
    case None
    from Cons.IH [OF s1(1,2)] obtain outs ins l' a' where
      ih: "run_reads rd calls (l1, a1) = Ret (outs, ins, l', a')" "lr_inv l'" "fl_inv a'"
        "outs @ pending l' = pending l1 @ ins" by blast
    from ih(4) s1(3) have "(out @ outs) @ pending l' = pending l @ fetched rd False l @ ins"
      by (metis append.assoc)
    with c r None ih show ?thesis by simp
  qed
qed

subsection \<open>Properties\<close>

text \<open>
  The limiter's type invariant and bounds: a new limiter satisfies it, UpdateParameter and
  GetReadSize keep it, and GetReadSize grants between 0 and the requested bytes, never more than
  the configured rate, charging the budget (shards plus global burst) exactly what it grants.
\<close>

theorem GetReadSize_bounds:
  assumes "fl_inv l" and "0 \<le> d" and "GetReadSize now d l = (n, l')"
  shows "fl_inv (NewLimitedReaderAction now r b) \<and> fl_inv (UpdateParameter r b l) \<and> fl_inv l' \<and>
    0 \<le> n \<and> n \<le> d \<and> n \<le> readRate l \<and> budget l' = budget l + refilled now l - n"
  using GetReadSize_spec [OF assms] New_inv Update_inv [OF assms(1)] by blast

theorem GetReadSize_bounds_witness:
  "fl_inv (NewLimitedReaderAction 5 100 80) \<and>
   fst (GetReadSize 5 7 (NewLimitedReaderAction 5 100 80)) = 7 \<and>
   budget (snd (GetReadSize 5 7 (NewLimitedReaderAction 5 100 80))) = 153"
proof -
  let ?l = "NewLimitedReaderAction 5 100 80"
  have e: "GetReadSize 5 7 ?l = (7, snd (GetReadSize 5 7 ?l))" by code_simp
  have b: "budget ?l = 160" "refilled 5 ?l = 0" by code_simp+
  from GetReadSize_bounds [OF New_inv [of 5 100 80] _ e, of 0 0] b New_inv [of 5 100 80]
    arg_cong [OF e, of fst] show ?thesis by simp
qed

text \<open>
  C27. Rate limiting: in one clock second the calls on one limiter are granted at most what the
  shards held before plus one full burst, and for a new limiter at most twice the configured
  burst.
\<close>

theorem run_limit_per_second:
  assumes "fl_inv l" and "\<forall>(t, d) \<in> set calls. t = now \<and> 0 \<le> d"
  shows "fst (run_limit calls l) \<le> sum_list (slimitArray l) + readBurst l \<and>
    fst (run_limit calls (NewLimitedReaderAction now' r b)) \<le>
      2 * readBurst (NewLimitedReaderAction now' r b)"
proof -
  have one: "fst (run_limit calls x) \<le> sum_list (slimitArray x) + readBurst x" if "fl_inv x" for x
  proof -
    from run_limit_same_second [OF that assms(2), of "fst (run_limit calls x)" "snd (run_limit calls x)"]
    have "fst (run_limit calls x) + budget (snd (run_limit calls x)) \<le> sum_list (slimitArray x) + readBurst x"
      and "fl_inv (snd (run_limit calls x))"
      using that by (auto simp: budget_def fl_inv_def split: if_splits)
    with budget_nonneg show ?thesis by fastforce
  qed
  have "sum_list (slimitArray (NewLimitedReaderAction now' r b)) \<le>
      readBurst (NewLimitedReaderAction now' r b)"
    by (simp add: NewLimitedReaderAction_def Let_def LimitshareSize_def sum_list_replicate)
  with one [OF assms(1)] one [OF New_inv [of now' r b]] show ?thesis by simp
qed

theorem run_limit_per_second_witness:
  "fst (run_limit (replicate 16 (0, 10)) (NewLimitedReaderAction 0 100 80)) = 160 \<and>
   fst (run_limit (replicate 16 (0, 10)) (NewLimitedReaderAction 0 100 80)) \<le>
     2 * readBurst (NewLimitedReaderAction 0 100 80)"
proof -
  have "fst (run_limit (replicate 16 (0, 10)) (NewLimitedReaderAction 0 100 80)) = 160" by code_simp
  with run_limit_per_second [OF New_inv [of 0 100 80], of "replicate 16 (0, 10)" 0 0 100 80]
  show ?thesis by simp
qed

text \<open>
  The limiter makes progress: with a burst of at least eight bytes, a call for a positive
  number of bytes is granted none only when the global burst of the current second is used up.
\<close>

theorem GetReadSize_progress:
  assumes "fl_inv l" and "0 < d" and "8 \<le> readBurst l" and "GetReadSize now d l = (0, l')"
  shows "residReadueBurst l' = 0 \<and> GetNowTimeUnix l' = now"
  using GetReadSize_zero [OF assms] by (simp add: GetNowTimeUnix_def)

theorem GetReadSize_progress_witness:
  "GetReadSize 0 10 (snd (run_limit (replicate 16 (0, 10)) (NewLimitedReaderAction 0 100 80))) =
     (0, snd (GetReadSize 0 10 (snd (run_limit (replicate 16 (0, 10)) (NewLimitedReaderAction 0 100 80))))) \<and>
   residReadueBurst (snd (GetReadSize 0 10 (snd (run_limit (replicate 16 (0, 10))
     (NewLimitedReaderAction 0 100 80))))) = 0"
proof -
  let ?l = "snd (run_limit (replicate 16 (0, 10)) (NewLimitedReaderAction 0 100 80))"
  have i: "fl_inv ?l" and b: "8 \<le> readBurst ?l"
    and e: "GetReadSize 0 10 ?l = (0, snd (GetReadSize 0 10 ?l))" by code_simp+
  from GetReadSize_progress [OF i _ b e] e show ?thesis by simp
qed

text \<open>
  C28. The limited reader is transparent: for every reader that keeps the io.Reader contract (it
  never returns more bytes than the buffer holds), a sequence of Read calls never panics, and the
  bytes handed out followed by the bytes still buffered are the bytes buffered before followed by
  the bytes taken from the wrapped reader; nothing is lost, repeated or reordered.
\<close>

theorem LimitedReader_transparent:
  assumes "reader_ok rd" and "lr_inv l" and "fl_inv a"
  shows "\<exists>outs ins l' a'. run_reads rd calls (l, a) = Ret (outs, ins, l', a') \<and>
    outs @ pending l' = pending l @ ins \<and> lr_inv l' \<and> fl_inv a'"
  using run_reads_spec [where calls = calls, OF assms] by blast

theorem LimitedReader_transparent_witness:
  "\<exists>outs ins l' a'. run_reads (\<lambda>r n. (take n r, None, drop n r)) [(0, 3), (0, 4)]
      (NewLimitedReader [1, 2, 3, 4, 5], NewLimitedReaderAction 0 100 80) = Ret (outs, ins, l', a') \<and>
    outs @ pending l' = ins"
proof -
  have ok: "reader_ok (\<lambda>(r :: bytes) n. (take n r, None, drop n r))" by (simp add: reader_ok_def)
  have l: "lr_inv (NewLimitedReader [1, 2, 3, 4, 5 :: byte])"
    and p: "pending (NewLimitedReader [1, 2, 3, 4, 5 :: byte]) = []"
    by (simp_all add: lr_inv_New)
  from LimitedReader_transparent [OF ok l New_inv, of "[(0, 3), (0, 4)]" 0 100 80]
  show ?thesis unfolding p append_Nil by blast
qed

text \<open>
  A Read that reports no error on a non-empty buffer hands out at least one byte, even when
  the limiter grants nothing, and never more than the buffer holds; a Read that reports an error
  hands out nothing.
\<close>

theorem LimitedReader_Read_progress:
  assumes "reader_ok rd" and "lr_inv l" and "fl_inv a"
  shows "\<exists>out err l' a'. LimitedReader_Read rd ctxDone now plen (l, a) = Ret ((out, err), l', a') \<and>
    length out \<le> plen \<and> (err = None \<and> 0 < plen \<longrightarrow> out \<noteq> []) \<and> (err \<noteq> None \<longrightarrow> out = [])"
  using LimitedReader_Read_spec [where ctxDone = ctxDone and now = now and plen = plen, OF assms(2,3,1)]
  by blast

theorem LimitedReader_Read_progress_witness:
  "\<exists>out err l' a'. LimitedReader_Read (\<lambda>r n. (take n r, None, drop n r)) False 0 2
      (NewLimitedReader [7, 8, 9], NewLimitedReaderAction 0 100 80) = Ret ((out, err), l', a') \<and>
    length out \<le> 2"
proof -
  have ok: "reader_ok (\<lambda>(r :: bytes) n. (take n r, None, drop n r))" by (simp add: reader_ok_def)
  have l: "lr_inv (NewLimitedReader [7, 8, 9 :: byte])" by (simp add: lr_inv_New)
  from LimitedReader_Read_progress [OF ok l New_inv, of False 0 2 0 100 80] show ?thesis by blast
qed

end
