(* ===== verification/NetAddr.thy ===== *)
theory NetAddr
  imports Prelude
begin

text \<open>
  The parts of Go's \<^verbatim>\<open>net\<close> package that the program uses as pure functions: IP addresses as byte
  slices with their 4- and 16-byte forms, their text form, \<^verbatim>\<open>JoinHostPort\<close> and \<^verbatim>\<open>SplitHostPort\<close>;
  and a connection as a byte stream: the bytes still to come, the error that ends them (end of
  file, a passed deadline), the messages written, and which writes fail.
\<close>

subsection \<open>IP addresses\<close>

type_synonym ip = bytes

definition v4InV6Prefix :: bytes where
  "v4InV6Prefix = [0, 0, 0, 0, 0, 0, 0, 0, 0, 0, 255, 255]"

definition To4 :: "ip \<Rightarrow> ip option" where
  "To4 p = (if length p = 4 then Some p
     else if length p = 16 \<and> take 12 p = v4InV6Prefix then Some (drop 12 p) else None)"

definition To16 :: "ip \<Rightarrow> ip option" where
  "To16 p = (if length p = 4 then Some (v4InV6Prefix @ p)
     else if length p = 16 then Some p else None)"

fun join_with :: "string \<Rightarrow> string list \<Rightarrow> string" where
  "join_with sep [] = []"
| "join_with sep [x] = x"
| "join_with sep (x # y # ys) = x @ sep @ join_with sep (y # ys)"

definition hexdigit :: "nat \<Rightarrow> char" where
  "hexdigit n = (if n < 10 then char_of (48 + n) else char_of (87 + n))"

fun itohex :: "nat \<Rightarrow> string" where
  "itohex n = (if n < 16 then [hexdigit n] else itohex (n div 16) @ [hexdigit (n mod 16)])"

declare itohex.simps [simp del]

fun ip_groups :: "bytes \<Rightarrow> nat list" where
  "ip_groups (a # b # bs) = (unat a * 256 + unat b) # ip_groups bs"
| "ip_groups _ = []"

definition zero_run :: "nat list \<Rightarrow> nat \<Rightarrow> nat" where
  "zero_run gs i = length (takeWhile (\<lambda>g. g = 0) (drop i gs))"

text \<open>The first longest run of at least two zero groups, as (start, length); length 0 for none.\<close>

definition best_run :: "nat list \<Rightarrow> nat \<times> nat" where
  "best_run gs = fold (\<lambda>i (st, l). if 2 \<le> zero_run gs i \<and> l < zero_run gs i then (i, zero_run gs i) else (st, l))
     [0..<length gs] (0, 0)"

definition ip_String :: "ip \<Rightarrow> string" where
  "ip_String p =
     (if p = [] then ''<nil>''
      else if length p \<noteq> 4 \<and> length p \<noteq> 16
      then ''?'' @ concat (map (\<lambda>b. [hexdigit (unat b div 16), hexdigit (unat b mod 16)]) p)
      else case To4 p of
        Some q \<Rightarrow> join_with ''.'' (map (\<lambda>b. itoa (unat b)) q)
      | None \<Rightarrow>
          (let gs = ip_groups p; (st, l) = best_run gs; txt = (\<lambda>xs. join_with '':'' (map itohex xs))
           in if l = 0 then txt gs else txt (take st gs) @ ''::'' @ txt (drop (st + l) gs)))"

definition JoinHostPort :: "string \<Rightarrow> string \<Rightarrow> string" where
  "JoinHostPort host port =
     (if CHR '':'' \<in> set host then ''['' @ host @ '']:'' @ port else host @ '':'' @ port)"

text \<open>
  \<^verbatim>\<open>net.SplitHostPort\<close>: host and port around the last colon, with the bracketed form for a host
  that contains colons; \<open>None\<close> is any of its errors.
\<close>

fun last_index :: "char \<Rightarrow> string \<Rightarrow> nat option" where
  "last_index c [] = None"
| "last_index c (x # xs) = (case last_index c xs of
     Some i \<Rightarrow> Some (Suc i) | None \<Rightarrow> if x = c then Some 0 else None)"

fun first_index :: "char \<Rightarrow> string \<Rightarrow> nat option" where
  "first_index c [] = None"
| "first_index c (x # xs) = (if x = c then Some 0 else map_option Suc (first_index c xs))"

definition SplitHostPort :: "string \<Rightarrow> (string \<times> string) option" where
  "SplitHostPort hp = (case last_index CHR '':'' hp of
     None \<Rightarrow> None
   | Some i \<Rightarrow>
       (let port = drop (Suc i) hp in
        if hp \<noteq> [] \<and> hd hp = CHR ''['' then
          (case first_index CHR '']'' hp of
             None \<Rightarrow> None
           | Some e \<Rightarrow>
               if Suc e \<noteq> i then None
               else if CHR ''['' \<in> set (drop 1 hp) \<or> CHR '']'' \<in> set (drop (Suc e) hp) then None
               else Some (take (e - 1) (drop 1 hp), port))
        else if CHR '':'' \<in> set (take i hp) then None
        else if CHR ''['' \<in> set hp \<or> CHR '']'' \<in> set hp then None
        else Some (take i hp, port)))"

subsection \<open>Connections\<close>

datatype net_error = NetEOF | NetUnexpectedEOF | NetTimeout | NetOther string

record conn =
  in_bytes :: bytes
  in_err :: net_error
  out_msgs :: "bytes list"
  w_errs :: "nat \<Rightarrow> net_error option"

text \<open>\<^verbatim>\<open>conn.Read\<close> into a one-byte buffer.\<close>

definition Read1 :: "conn \<Rightarrow> (net_error + byte) \<times> conn" where
  "Read1 c = (case in_bytes c of
     [] \<Rightarrow> (Inl (in_err c), c)
   | b # bs \<Rightarrow> (Inr b, c\<lparr>in_bytes := bs\<rparr>))"

text \<open>\<^verbatim>\<open>io.ReadAtLeast\<close> into a buffer of exactly \<open>n\<close> bytes.\<close>

definition ReadFull :: "nat \<Rightarrow> conn \<Rightarrow> (net_error + bytes) \<times> conn" where
  "ReadFull n c =
     (if n \<le> length (in_bytes c)
      then (Inr (take n (in_bytes c)), c\<lparr>in_bytes := drop n (in_bytes c)\<rparr>)
      else (Inl (if in_err c = NetEOF \<and> in_bytes c \<noteq> [] then NetUnexpectedEOF else in_err c),
            c\<lparr>in_bytes := []\<rparr>))"

definition Write :: "bytes \<Rightarrow> conn \<Rightarrow> net_error option \<times> conn" where
  "Write msg c = (case w_errs c (length (out_msgs c)) of
     None \<Rightarrow> (None, c\<lparr>out_msgs := out_msgs c @ [msg]\<rparr>)
   | Some e \<Rightarrow> (Some e, c))"

lemma ReadFull_append [simp]:
  "in_bytes c = xs @ ys \<Longrightarrow> length xs = n \<Longrightarrow> ReadFull n c = (Inr xs, c\<lparr>in_bytes := ys\<rparr>)"
  by (simp add: ReadFull_def)

lemma ReadFull_Inr:
  "ReadFull n c = (Inr xs, c') \<longleftrightarrow>
     (\<exists>ys. in_bytes c = xs @ ys \<and> length xs = n \<and> c' = c\<lparr>in_bytes := ys\<rparr>)"
  by (auto simp: ReadFull_def split: if_splits intro!: exI [of _ "drop n (in_bytes c)"])

lemma Read1_Inr: "Read1 c = (Inr b, c') \<longleftrightarrow> (\<exists>bs. in_bytes c = b # bs \<and> c' = c\<lparr>in_bytes := bs\<rparr>)"
  by (auto simp: Read1_def split: list.splits)

lemma To4_length: "To4 p = Some q \<Longrightarrow> length q = 4"
  by (auto simp: To4_def split: if_splits)

lemma To16_length: "To16 p = Some q \<Longrightarrow> length q = 16"
  by (auto simp: To16_def v4InV6Prefix_def split: if_splits)

end
