(* ===== verification/Socks5.thy ===== *)
theory Socks5
  imports NetAddr
begin

text \<open>
  \<^verbatim>\<open>utils/socks5/func.go\<close>: the wire format of SOCKS5 (RFC 1928, RFC 1929). The readers consume
  bytes of a connection and return an error or a value together with the connection; the
  deadlines they set show as the error that ends the input.
\<close>

definition socks5Version :: byte where "socks5Version = 5"
definition NoAuth :: byte where "NoAuth = 0"
definition NoAcceptable :: byte where "NoAcceptable = 255"
definition UserPassAuth :: byte where "UserPassAuth = 2"
definition UserAuthVersion :: byte where "UserAuthVersion = 1"
definition AuthSuccess :: byte where "AuthSuccess = 0"
definition AuthFailure :: byte where "AuthFailure = 1"
definition ipv4Address :: byte where "ipv4Address = 1"
definition fqdnAddress :: byte where "fqdnAddress = 3"
definition ipv6Address :: byte where "ipv6Address = 4"
definition SuccessReply :: byte where "SuccessReply = 0"
definition NetworkUnreachable :: byte where "NetworkUnreachable = 3"
definition HostUnreachable :: byte where "HostUnreachable = 4"
definition ConnectionRefused :: byte where "ConnectionRefused = 5"
definition AddrTypeNotSupported :: byte where "AddrTypeNotSupported = 8"

lemmas socks5_consts = socks5Version_def NoAuth_def NoAcceptable_def UserPassAuth_def
  UserAuthVersion_def AuthSuccess_def AuthFailure_def ipv4Address_def fqdnAddress_def
  ipv6Address_def SuccessReply_def NetworkUnreachable_def HostUnreachable_def
  ConnectionRefused_def AddrTypeNotSupported_def

datatype socks_error = SNet net_error | NoCommandVersion net_error | BadCommandVersion byte
  | BadSocksVersion byte | BadAuthVersion byte | UnrecognizedAddrType | BadAddress

record addr_spec =
  FQDN :: string
  IP :: ip
  Port :: int

definition AddrSpec_String :: "addr_spec \<Rightarrow> string" where
  "AddrSpec_String a =
     (if FQDN a \<noteq> '''' then FQDN a @ '' ('' @ ip_String (IP a) @ ''):'' @ itoa_int (Port a)
      else ip_String (IP a) @ '':'' @ itoa_int (Port a))"

definition AddrSpec_Address :: "addr_spec \<Rightarrow> string" where
  "AddrSpec_Address a =
     (if 0 \<noteq> length (IP a) then JoinHostPort (ip_String (IP a)) (itoa_int (Port a))
      else JoinHostPort (FQDN a) (itoa_int (Port a)))"

definition ReadPort :: "addr_spec \<Rightarrow> conn \<Rightarrow> (socks_error + addr_spec) \<times> conn" where
  "ReadPort d c = (case ReadFull 2 c of
     (Inl e, c1) \<Rightarrow> (Inl (SNet e), c1)
   | (Inr p, c1) \<Rightarrow> (Inr (d\<lparr>Port := int (unat (p ! 0) * 256 + unat (p ! 1))\<rparr>), c1))"

definition ReadAddrSpec :: "conn \<Rightarrow> (socks_error + addr_spec) \<times> conn" where
  "ReadAddrSpec c =
     (let d = \<lparr>FQDN = '''', IP = [], Port = 0\<rparr> in
      case Read1 c of
        (Inl e, c1) \<Rightarrow> (Inl (SNet e), c1)
      | (Inr addrType, c1) \<Rightarrow>
          if addrType = ipv4Address then
            (case ReadFull 4 c1 of
               (Inl e, c2) \<Rightarrow> (Inl (SNet e), c2)
             | (Inr addr, c2) \<Rightarrow> ReadPort (d\<lparr>IP := addr\<rparr>) c2)
          else if addrType = ipv6Address then
            (case ReadFull 16 c1 of
               (Inl e, c2) \<Rightarrow> (Inl (SNet e), c2)
             | (Inr addr, c2) \<Rightarrow> ReadPort (d\<lparr>IP := addr\<rparr>) c2)
          else if addrType = fqdnAddress then
            (case Read1 c1 of
               (Inl e, c2) \<Rightarrow> (Inl (SNet e), c2)
             | (Inr addrLen, c2) \<Rightarrow>
                 (case ReadFull (unat addrLen) c2 of
                    (Inl e, c3) \<Rightarrow> (Inl (SNet e), c3)
                  | (Inr fqdn, c3) \<Rightarrow> ReadPort (d\<lparr>FQDN := string_of fqdn\<rparr>) c3))
          else (Inl UnrecognizedAddrType, c1))"

definition ReadDestAddr :: "conn \<Rightarrow> (socks_error + addr_spec) \<times> conn" where
  "ReadDestAddr c = (case ReadFull 3 c of
     (Inl e, c1) \<Rightarrow> (Inl (NoCommandVersion e), c1)
   | (Inr header, c1) \<Rightarrow>
       if header ! 0 \<noteq> socks5Version then (Inl (BadCommandVersion (header ! 0)), c1)
       else ReadAddrSpec c1)"

definition ReadVersion :: "conn \<Rightarrow> (byte \<times> socks_error option) \<times> conn" where
  "ReadVersion c = (case Read1 c of
     (Inl e, c1) \<Rightarrow> ((0, Some (SNet e)), c1)
   | (Inr v, c1) \<Rightarrow> ((v, if v \<noteq> socks5Version then Some (BadSocksVersion v) else None), c1))"

definition ReadMethods :: "conn \<Rightarrow> (socks_error + bytes) \<times> conn" where
  "ReadMethods c = (case Read1 c of
     (Inl e, c1) \<Rightarrow> (Inl (SNet e), c1)
   | (Inr n, c1) \<Rightarrow> (case ReadFull (unat n) c1 of
       (Inl e, c2) \<Rightarrow> (Inl (SNet e), c2)
     | (Inr ms, c2) \<Rightarrow> (Inr ms, c2)))"

definition reply_addr :: "addr_spec option \<Rightarrow> (byte \<times> bytes \<times> 16 word) option" where
  "reply_addr addr = (case addr of
     None \<Rightarrow> Some (ipv4Address, [0, 0, 0, 0], 0)
   | Some a \<Rightarrow>
       if FQDN a \<noteq> '''' then
         Some (fqdnAddress, of_nat (length (FQDN a)) # bytes_of (FQDN a), of_int (Port a))
       else case To4 (IP a) of
         Some q \<Rightarrow> Some (ipv4Address, q, of_int (Port a))
       | None \<Rightarrow> (case To16 (IP a) of
           Some q \<Rightarrow> Some (ipv6Address, q, of_int (Port a))
         | None \<Rightarrow> None))"

definition reply_msg :: "byte \<Rightarrow> byte \<times> bytes \<times> 16 word \<Rightarrow> bytes" where
  "reply_msg resp = (\<lambda>(addrType, addrBody, addrPort).
     [socks5Version, resp, 0, addrType] @ addrBody @
     [ucast (drop_bit 8 addrPort), ucast (and addrPort 255)])"

definition SendReply :: "byte \<Rightarrow> addr_spec option \<Rightarrow> conn \<Rightarrow> socks_error option \<times> conn" where
  "SendReply resp addr c = (case reply_addr addr of
     None \<Rightarrow> (Some BadAddress, c)
   | Some x \<Rightarrow> (case Write (reply_msg resp x) c of (e, c1) \<Rightarrow> (map_option SNet e, c1)))"

definition GetUserPassword :: "conn \<Rightarrow> (socks_error + string \<times> string) \<times> conn" where
  "GetUserPassword c = (case Write [socks5Version, UserPassAuth] c of
     (Some e, c1) \<Rightarrow> (Inl (SNet e), c1)
   | (None, c1) \<Rightarrow> (case ReadFull 2 c1 of
       (Inl e, c2) \<Rightarrow> (Inl (SNet e), c2)
     | (Inr header, c2) \<Rightarrow>
         if header ! 0 \<noteq> UserAuthVersion then (Inl (BadAuthVersion (header ! 0)), c2)
         else (case ReadFull (unat (header ! 1)) c2 of
             (Inl e, c3) \<Rightarrow> (Inl (SNet e), c3)
           | (Inr user, c3) \<Rightarrow> (case Read1 c3 of
               (Inl e, c4) \<Rightarrow> (Inl (SNet e), c4)
             | (Inr passLen, c4) \<Rightarrow> (case ReadFull (unat passLen) c4 of
                 (Inl e, c5) \<Rightarrow> (Inl (SNet e), c5)
               | (Inr pass, c5) \<Rightarrow> (Inr (string_of user, string_of pass), c5))))))"

subsection \<open>The wire format as a specification\<close>

text \<open>The address part of a request or reply: type, address, port in network byte order.\<close>

definition encode_addr :: "addr_spec \<Rightarrow> bytes" where
  "encode_addr a =
     (if length (IP a) = 4 then 1 # IP a
      else if length (IP a) = 16 then 4 # IP a
      else 3 # of_nat (length (FQDN a)) # bytes_of (FQDN a)) @
     [of_int (Port a div 256), of_int (Port a mod 256)]"

definition wire_addr :: "addr_spec \<Rightarrow> bool" where
  "wire_addr a \<longleftrightarrow> 0 \<le> Port a \<and> Port a < 65536 \<and>
     (FQDN a = '''' \<and> (length (IP a) = 4 \<or> length (IP a) = 16) \<or> IP a = [] \<and> length (FQDN a) < 256)"

definition encode_auth :: "string \<Rightarrow> string \<Rightarrow> bytes" where
  "encode_auth u p = [1, of_nat (length u)] @ bytes_of u @ [of_nat (length p)] @ bytes_of p"


definition canonical_addr :: "addr_spec \<Rightarrow> addr_spec" where
  "canonical_addr a = a\<lparr>IP := (case To4 (IP a) of Some q \<Rightarrow> q | None \<Rightarrow> IP a)\<rparr>"

subsection \<open>Lemmas\<close>

lemma ReadPort_Inr:
  "ReadPort d c = (Inr a, c') \<longleftrightarrow>
     (\<exists>p. 0 \<le> p \<and> p < 65536 \<and> a = d\<lparr>Port := p\<rparr> \<and>
        in_bytes c = [of_int (p div 256), of_int (p mod 256)] @ in_bytes c' \<and>
        c' = c\<lparr>in_bytes := in_bytes c'\<rparr>)" (is "?l \<longleftrightarrow> ?r")
proof
  assume ?l
  then obtain xs ys where x: "in_bytes c = xs @ ys" "length xs = 2" "c' = c\<lparr>in_bytes := ys\<rparr>"
    "a = d\<lparr>Port := int (unat (xs ! 0) * 256 + unat (xs ! 1))\<rparr>"
    by (auto simp: ReadPort_def ReadFull_Inr split: prod.splits sum.splits)
  then obtain b0 b1 where b: "xs = [b0, b1]" by (auto simp: length_Suc_conv numeral_2_eq_2)
  have "uint b0 * 256 + uint b1 < 65536" using uint_byte_less [of b0] uint_byte_less [of b1] by linarith
  moreover have "of_int (int (unat b0 * 256 + unat b1) div 256) = b0"
      "of_int (int (unat b0 * 256 + unat b1) mod 256) = b1"
    using uint_lt2p [of b1] by (simp_all add: div_pos_pos_trivial mod_pos_pos_trivial)
  ultimately show ?r using x b
    by (intro exI [of _ "int (unat b0 * 256 + unat b1)"]) auto
next
  assume ?r
  then obtain p where p: "0 \<le> p" "p < 65536" "a = d\<lparr>Port := p\<rparr>"
    "in_bytes c = [of_int (p div 256), of_int (p mod 256)] @ in_bytes c'"
    "c' = c\<lparr>in_bytes := in_bytes c'\<rparr>" by blast
  have u: "int (unat (of_int x :: byte)) = x" if "0 \<le> x" "x < 256" for x :: int
    using that by (simp add: unsigned_of_int take_bit_eq_mod)
  have "ReadFull 2 c = (Inr [of_int (p div 256), of_int (p mod 256)], c')"
    unfolding ReadFull_Inr using p(4,5) by auto
  moreover have "int (unat (of_int (p div 256) :: byte) * 256 + unat (of_int (p mod 256) :: byte)) = p"
    using u [of "p div 256"] u [of "p mod 256"] p(1,2) by simp
  ultimately show ?l using p(3) by (simp add: ReadPort_def)
qed

lemma ReadAddrSpec_Inr:
  "ReadAddrSpec c = (Inr a, c') \<longleftrightarrow>
     wire_addr a \<and> in_bytes c = encode_addr a @ in_bytes c' \<and> c' = c\<lparr>in_bytes := in_bytes c'\<rparr>"
    (is "?l \<longleftrightarrow> ?r")
proof
  assume ?l
  then obtain ty bs where t: "in_bytes c = ty # bs"
    by (auto simp: ReadAddrSpec_def Read1_def Let_def split: list.splits)
  from \<open>?l\<close> t show ?r
    by (auto simp: ReadAddrSpec_def Read1_def Let_def ReadFull_Inr ReadPort_Inr wire_addr_def
        encode_addr_def socks5_consts
        split: list.splits if_splits sum.splits prod.splits)
next
  assume r: ?r
  define d :: addr_spec where "d = \<lparr>FQDN = FQDN a, IP = IP a, Port = 0\<rparr>"
  have port: "in_bytes c1 = [of_int (Port a div 256), of_int (Port a mod 256)] @ in_bytes c' \<Longrightarrow>
      c' = c1\<lparr>in_bytes := in_bytes c'\<rparr> \<Longrightarrow> ReadPort d c1 = (Inr a, c')" for c1
    unfolding ReadPort_Inr using r by (intro exI [of _ "Port a"]) (auto simp: wire_addr_def d_def)
  let ?c = "\<lambda>xs. c\<lparr>in_bytes := xs @ [of_int (Port a div 256), of_int (Port a mod 256)] @ in_bytes c'\<rparr>"
  have c': "c' = c\<lparr>in_bytes := in_bytes c'\<rparr>" using r by blast
  have p: "ReadPort d (?c []) = (Inr a, c')" by (rule port) (use c' in auto)
  consider "length (IP a) = 4" "FQDN a = ''''" | "length (IP a) = 16" "FQDN a = ''''"
    | "IP a = []" "length (FQDN a) < 256"
    using r by (auto simp: wire_addr_def)
  then show ?l
  proof cases
    case 1
    then have "in_bytes c = 1 # IP a @ in_bytes (?c [])" using r by (simp add: encode_addr_def)
    with 1 p show ?thesis
      by (simp add: ReadAddrSpec_def Read1_def socks5_consts ReadFull_def d_def)
  next
    case 2
    then have "in_bytes c = 4 # IP a @ in_bytes (?c [])" using r by (simp add: encode_addr_def)
    with 2 p show ?thesis
      by (simp add: ReadAddrSpec_def Read1_def socks5_consts ReadFull_def d_def)
  next
    case 3
    then have "in_bytes c = 3 # of_nat (length (FQDN a)) # bytes_of (FQDN a) @ in_bytes (?c [])"
      using r by (simp add: encode_addr_def)
    moreover have "unat (of_nat (length (FQDN a)) :: byte) = length (FQDN a)"
      by (rule unat_of_nat_byte) (rule 3(2))
    ultimately show ?thesis using 3 p
      by (simp add: ReadAddrSpec_def Read1_def socks5_consts ReadFull_def d_def)
  qed
qed

lemma wire_port_word:
  assumes "0 \<le> p" and "p < 65536"
  shows "ucast (drop_bit 8 (of_int p :: 16 word)) = (of_int (p div 256) :: byte)"
    and "ucast (and (of_int p :: 16 word) 255) = (of_int (p mod 256) :: byte)"
proof -
  have u: "uint (of_int p :: 16 word) = p"
    using assms by (simp add: unsigned_of_int take_bit_eq_mod)
  have "uint (drop_bit 8 (of_int p :: 16 word)) = p div 256"
    using assms by (simp only: unsigned_drop_bit_eq u) (simp add: drop_bit_eq_div take_bit_eq_mod)
  then show "ucast (drop_bit 8 (of_int p :: 16 word)) = (of_int (p div 256) :: byte)"
    by (metis of_int_uint word_of_int_uint)
  have "and p 255 = p mod 256"
    using take_bit_eq_mask [of 8 p] by (simp add: mask_eq_exp_minus_1 take_bit_eq_mod)
  then have "uint (and (of_int p :: 16 word) 255) = p mod 256"
    by (simp only: unsigned_and_eq u) simp
  then show "ucast (and (of_int p :: 16 word) 255) = (of_int (p mod 256) :: byte)"
    by (metis of_int_uint word_of_int_uint)
qed

lemma reply_msg_encode:
  assumes "wire_addr a" and "FQDN a \<noteq> '''' \<or> IP a \<noteq> []"
  shows "map_option (reply_msg resp) (reply_addr (Some a)) =
     Some ([5, resp, 0] @ encode_addr (canonical_addr a))"
  using assms
  by (auto simp: wire_addr_def reply_addr_def reply_msg_def canonical_addr_def encode_addr_def
      To4_def To16_def socks5_consts wire_port_word)

subsection \<open>Properties\<close>

text \<open>
  C20. The parser of a SOCKS5 request accepts exactly the encodings of RFC 1928: it returns the
  address \<open>a\<close> and leaves the rest of the stream unread if and only if the input is the version
  byte 5, a command byte and a reserved byte of any value, and the encoding of the well-formed
  address \<open>a\<close>. In particular every truncated request ends in an error, and the command byte is
  ignored.
\<close>

theorem ReadDestAddr_iff:
  "ReadDestAddr c = (Inr a, c') \<longleftrightarrow>
     (\<exists>cmd rsv rest. in_bytes c = [5, cmd, rsv] @ encode_addr a @ rest \<and> wire_addr a \<and>
        c' = c\<lparr>in_bytes := rest\<rparr>)" (is "?l \<longleftrightarrow> ?r")
proof
  assume ?l
  then obtain h ys where h: "in_bytes c = h @ ys" "length h = 3" "h ! 0 = 5"
    "ReadAddrSpec (c\<lparr>in_bytes := ys\<rparr>) = (Inr a, c')"
    by (auto simp: ReadDestAddr_def ReadFull_Inr socks5_consts split: prod.splits sum.splits if_splits)
  then obtain b0 b1 b2 where "h = [b0, b1, b2]"
    by (auto simp: length_Suc_conv numeral_3_eq_3)
  with h show ?r unfolding ReadAddrSpec_Inr
    by (intro exI [of _ b1] exI [of _ b2] exI [of _ "in_bytes c'"]) auto
next
  assume ?r
  then obtain cmd rsv rest where r: "in_bytes c = [5, cmd, rsv] @ encode_addr a @ rest"
    "wire_addr a" "c' = c\<lparr>in_bytes := rest\<rparr>" by blast
  then have "ReadAddrSpec (c\<lparr>in_bytes := encode_addr a @ rest\<rparr>) = (Inr a, c')"
    unfolding ReadAddrSpec_Inr by simp
  then show ?l using r by (simp add: ReadDestAddr_def ReadFull_def socks5_consts)
qed

text \<open>
  C21. A reply round trip: a reply for a well-formed address is one message, whose first three
  bytes are version, code and reserved byte, and whose rest is read back by the address parser as
  the same address (an IPv4-mapped IPv6 address comes back in its four-byte form).
\<close>

theorem SendReply_roundtrip:
  assumes "wire_addr a" and "FQDN a \<noteq> '''' \<or> IP a \<noteq> []"
    and "w_errs c (length (out_msgs c)) = None"
    and "in_bytes d = drop 3 (last (out_msgs (snd (SendReply resp (Some a) c)))) @ rest"
  shows "fst (SendReply resp (Some a) c) = None \<and>
    take 3 (last (out_msgs (snd (SendReply resp (Some a) c)))) = [5, resp, 0] \<and>
    ReadAddrSpec d = (Inr (canonical_addr a), d\<lparr>in_bytes := rest\<rparr>)"
proof -
  obtain x where x: "reply_addr (Some a) = Some x"
    "reply_msg resp x = [5, resp, 0] @ encode_addr (canonical_addr a)"
    using reply_msg_encode [OF assms(1,2), of resp] by auto
  have send: "SendReply resp (Some a) c =
      (None, c\<lparr>out_msgs := out_msgs c @ [[5, resp, 0] @ encode_addr (canonical_addr a)]\<rparr>)"
    using x assms(3) by (simp add: SendReply_def Write_def)
  have "wire_addr (canonical_addr a)"
    using assms(1) by (auto simp: wire_addr_def canonical_addr_def To4_def)
  then have "ReadAddrSpec d = (Inr (canonical_addr a), d\<lparr>in_bytes := rest\<rparr>)"
    unfolding ReadAddrSpec_Inr using assms(4) by (simp add: send)
  then show ?thesis by (simp add: send)
qed

definition idle_conn :: conn where
  "idle_conn = \<lparr>in_bytes = [], in_err = NetEOF, out_msgs = [], w_errs = (\<lambda>_. None)\<rparr>"

theorem SendReply_roundtrip_witness:
  "fst (ReadAddrSpec (idle_conn\<lparr>in_bytes := [1, 127, 0, 0, 1, 31, 144]\<rparr>)) =
     Inr (canonical_addr \<lparr>FQDN = '''', IP = [127, 0, 0, 1], Port = 8080\<rparr>)"
proof -
  let ?a = "\<lparr>FQDN = '''', IP = [127, 0, 0, 1], Port = 8080\<rparr>"
  have "SendReply 0 (Some ?a) idle_conn =
      (None, idle_conn\<lparr>out_msgs := [[5, 0, 0, 1, 127, 0, 0, 1, 31, 144]]\<rparr>)"
    by (simp add: SendReply_def reply_addr_def reply_msg_def Write_def idle_conn_def To4_def
        socks5_consts)
  then show ?thesis
    using SendReply_roundtrip [of ?a idle_conn "idle_conn\<lparr>in_bytes := [1, 127, 0, 0, 1, 31, 144]\<rparr>" 0 "[]"]
    by (simp add: wire_addr_def idle_conn_def)
qed

text \<open>
  The username/password sub-negotiation accepts exactly the encoding of RFC 1929: after the
  method selection has been written, it returns \<open>u\<close> and \<open>p\<close> and leaves the rest of the stream
  unread if and only if the input is the encoding of a user name and a password of at most 255
  bytes each.
\<close>

theorem GetUserPassword_iff:
  "GetUserPassword c = (Inr (u, p), c') \<longleftrightarrow>
     w_errs c (length (out_msgs c)) = None \<and> length u < 256 \<and> length p < 256 \<and>
     (\<exists>rest. in_bytes c = encode_auth u p @ rest \<and>
        c' = c\<lparr>out_msgs := out_msgs c @ [[5, 2]], in_bytes := rest\<rparr>)" (is "?l \<longleftrightarrow> ?r")
proof
  assume ?l
  then obtain h ys us n bs where h: "w_errs c (length (out_msgs c)) = None"
    "in_bytes c = h @ us @ n # bs @ ys" "length h = 2" "h ! 0 = 1" "length us = unat (h ! 1)"
    "length bs = unat n" "u = string_of us" "p = string_of bs"
    "c' = c\<lparr>out_msgs := out_msgs c @ [[5, 2]], in_bytes := ys\<rparr>"
    by (auto simp: GetUserPassword_def Write_def ReadFull_Inr Read1_Inr socks5_consts
        split: prod.splits sum.splits if_splits option.splits)
  then obtain b0 b1 where "h = [b0, b1]" by (auto simp: length_Suc_conv numeral_2_eq_2)
  with h show ?r by (auto simp: encode_auth_def)
next
  assume ?r
  then obtain rest where r: "w_errs c (length (out_msgs c)) = None" "length u < 256" "length p < 256"
    "in_bytes c = encode_auth u p @ rest"
    "c' = c\<lparr>out_msgs := out_msgs c @ [[5, 2]], in_bytes := rest\<rparr>" by blast
  then show ?l
    by (simp add: GetUserPassword_def Write_def ReadFull_def Read1_def socks5_consts encode_auth_def
        unat_of_nat_byte)
qed

end
