(* ===== verification/Manager.thy ===== *)
theory Manager
  imports ConcurrentMap FlowLimit
begin

text \<open>
  \<^verbatim>\<open>server/manager.go\<close> (connection accounting and blacklist), the types of \<^verbatim>\<open>server/io.go\<close> and the
  configuration of \<^verbatim>\<open>server/nacos_config.go\<close>.

  The manager keeps two maps of \<^verbatim>\<open>orcaman/concurrent-map\<close>, a third-party package: its methods are a
  parameter, the record \<open>cmap_ops\<close>, and the locale \<open>concurrent_map\<close> states their documented
  behaviour (a method runs its callback once, under the lock of the key's shard). The maps hold
  pointers, and \<^verbatim>\<open>deleteUserConnection\<close> compares them, so counters and connection contexts live in
  explicit heaps indexed by addresses.

  \<^verbatim>\<open>count\<close> is an \<^verbatim>\<open>atomic.Int64\<close> modelled by \<^typ>\<open>int\<close>: it never exceeds the number of connections
  that hold it (theorem \<open>ip_accounting\<close>). \<^verbatim>\<open>c\<close> is a \<open>64 word\<close>, as the code increments and
  decrements an unsigned integer.
\<close>

record ('m, 'v, 's) cmap_ops =
  cm_upsert :: "string \<Rightarrow> ('v option \<Rightarrow> 's \<Rightarrow> 'v \<times> 's) \<Rightarrow> 'm \<Rightarrow> 's \<Rightarrow> 'v \<times> 'm \<times> 's"
  cm_removecb :: "string \<Rightarrow> ('v option \<Rightarrow> 's \<Rightarrow> bool \<times> 's) \<Rightarrow> 'm \<Rightarrow> 's \<Rightarrow> bool \<times> 'm \<times> 's"
  cm_pop :: "string \<Rightarrow> 'm \<Rightarrow> 'v option \<times> 'm"
  cm_iter :: "'m \<Rightarrow> (string \<times> 'v) list"

subsection \<open>Configuration\<close>

record nacos_config =
  Blacklist :: "string list"
  LR_ReadRate :: int
  LR_ReadBurst :: int
  OneIpMaxConn :: int
  AlarmOneIPMaxThreshold :: int
  WhiteList :: "string list"

text \<open>The configuration in force until the remote one is read.\<close>

definition default_nacos :: nacos_config where
  "default_nacos = \<lparr>Blacklist = [], LR_ReadRate = 1000000, LR_ReadBurst = 6000000,
     OneIpMaxConn = 10000, AlarmOneIPMaxThreshold = 0, WhiteList = []\<rparr>"

subsection \<open>Connections per exit address\<close>

type_synonym addr = nat

record ip_heap =
  counts :: "addr \<Rightarrow> int"
  next_count :: addr

text \<open>The callback of \<^verbatim>\<open>AddIpConnCount\<close> also assigns the named results \<^verbatim>\<open>ok\<close> and \<^verbatim>\<open>ipCount\<close>.\<close>

type_synonym ip_cb_state = "ip_heap \<times> bool \<times> int"

definition add_ip_cb :: "int \<Rightarrow> addr option \<Rightarrow> ip_cb_state \<Rightarrow> addr \<times> ip_cb_state" where
  "add_ip_cb maxConn valueInMap = (\<lambda>(h, ok, ipCount). case valueInMap of
     Some p \<Rightarrow>
       if maxConn \<noteq> 0 \<and> counts h p \<ge> maxConn then (p, h, ok, counts h p)
       else (p, h\<lparr>counts := (counts h)(p := counts h p + 1)\<rparr>, True, counts h p + 1)
   | None \<Rightarrow>
       (next_count h, h\<lparr>counts := (counts h)(next_count h := 1), next_count := Suc (next_count h)\<rparr>,
        True, 1))"

definition AddIpConnCount ::
    "('m, addr, ip_cb_state) cmap_ops \<Rightarrow> int \<Rightarrow> string \<Rightarrow> 'm \<times> ip_heap \<Rightarrow> (bool \<times> int) \<times> 'm \<times> ip_heap" where
  "AddIpConnCount ops maxConn ip = (\<lambda>(m, h).
     case cm_upsert ops ip (add_ip_cb maxConn) m (h, False, 0) of
       (_, m', h', ok, ipCount) \<Rightarrow> ((ok, ipCount), m', h'))"

definition reduce_ip_cb :: "addr option \<Rightarrow> ip_cb_state \<Rightarrow> bool \<times> ip_cb_state" where
  "reduce_ip_cb valueInMap = (\<lambda>(h, r). case valueInMap of
     Some p \<Rightarrow> (counts h p - 1 = 0, h\<lparr>counts := (counts h)(p := counts h p - 1)\<rparr>, r)
   | None \<Rightarrow> (False, h, r))"

definition ReduceIpConnCount ::
    "('m, addr, ip_cb_state) cmap_ops \<Rightarrow> string \<Rightarrow> 'm \<times> ip_heap \<Rightarrow> 'm \<times> ip_heap" where
  "ReduceIpConnCount ops ip = (\<lambda>(m, h).
     case cm_removecb ops ip reduce_ip_cb m (h, False, 0) of (_, m', h', _) \<Rightarrow> (m', h'))"

subsection \<open>Connections per user\<close>

text \<open>A connection context: \<open>ctx_cancelled\<close> records that its \<^verbatim>\<open>cancel\<close> function was called.\<close>

record connContext =
  ctx_cancelled :: bool
  cx_a :: limited_reader_action
  cx_c :: "64 word"

record ctx_heap =
  ctxs :: "addr \<Rightarrow> connContext"
  next_ctx :: addr

definition add_user_cb ::
    "nacos_config \<Rightarrow> int \<Rightarrow> addr option \<Rightarrow> ctx_heap \<Rightarrow> addr \<times> ctx_heap" where
  "add_user_cb conf now valueInMap h = (case valueInMap of
     Some p \<Rightarrow> (p, h\<lparr>ctxs := (ctxs h)(p := (ctxs h p)\<lparr>cx_c := cx_c (ctxs h p) + 1\<rparr>)\<rparr>)
   | None \<Rightarrow> (next_ctx h, h\<lparr>ctxs := (ctxs h)(next_ctx h :=
         \<lparr>ctx_cancelled = False,
          cx_a = NewLimitedReaderAction now (LR_ReadRate conf) (LR_ReadBurst conf), cx_c = 1\<rparr>),
       next_ctx := Suc (next_ctx h)\<rparr>))"

definition addUserConnection ::
    "('m, addr, ctx_heap) cmap_ops \<Rightarrow> nacos_config \<Rightarrow> int \<Rightarrow> string \<Rightarrow> 'm \<times> ctx_heap \<Rightarrow>
       addr \<times> 'm \<times> ctx_heap" where
  "addUserConnection ops conf now k = (\<lambda>(m, h). cm_upsert ops k (add_user_cb conf now) m h)"

definition cancel_ctx :: "addr \<Rightarrow> ctx_heap \<Rightarrow> ctx_heap" where
  "cancel_ctx p h = h\<lparr>ctxs := (ctxs h)(p := (ctxs h p)\<lparr>ctx_cancelled := True\<rparr>)\<rparr>"

definition delete_user_cb :: "addr \<Rightarrow> addr option \<Rightarrow> ctx_heap \<Rightarrow> bool \<times> ctx_heap" where
  "delete_user_cb ctx valueInMap h = (case valueInMap of
     Some p \<Rightarrow>
       if p \<noteq> ctx then (False, h)
       else (let h1 = h\<lparr>ctxs := (ctxs h)(p := (ctxs h p)\<lparr>cx_c := cx_c (ctxs h p) - 1\<rparr>)\<rparr>
             in if cx_c (ctxs h1 p) = 0 then (True, cancel_ctx p h1) else (False, h1))
   | None \<Rightarrow> (True, h))"

definition deleteUserConnection ::
    "('m, addr, ctx_heap) cmap_ops \<Rightarrow> string \<Rightarrow> addr \<Rightarrow> 'm \<times> ctx_heap \<Rightarrow> 'm \<times> ctx_heap" where
  "deleteUserConnection ops k ctx = (\<lambda>(m, h).
     case cm_removecb ops k (delete_user_cb ctx) m h of (_, m', h') \<Rightarrow> (m', h'))"

text \<open>True: the user's connections were closed; False: the error \<^verbatim>\<open>userCtxMap ... does not exist\<close>.\<close>

definition CloseUserConnections ::
    "('m, addr, ctx_heap) cmap_ops \<Rightarrow> string \<Rightarrow> 'm \<times> ctx_heap \<Rightarrow> bool \<times> 'm \<times> ctx_heap" where
  "CloseUserConnections ops k = (\<lambda>(m, h). case cm_pop ops k m of
     (Some p, m') \<Rightarrow> (True, m', cancel_ctx p h)
   | (None, m') \<Rightarrow> (False, m', h))"

text \<open>\<^verbatim>\<open>updateLimitedReaderAction\<close>: the new limits reach every live context.\<close>

definition update_ctx_limits :: "nacos_config \<Rightarrow> addr \<Rightarrow> ctx_heap \<Rightarrow> ctx_heap" where
  "update_ctx_limits conf p h = h\<lparr>ctxs := (ctxs h)(p := (ctxs h p)\<lparr>cx_a :=
     UpdateParameter (LR_ReadRate conf) (LR_ReadBurst conf) (cx_a (ctxs h p))\<rparr>)\<rparr>"

definition updateLimitedReaderAction ::
    "('m, addr, ctx_heap) cmap_ops \<Rightarrow> nacos_config \<Rightarrow> 'm \<times> ctx_heap \<Rightarrow> 'm \<times> ctx_heap" where
  "updateLimitedReaderAction ops conf = (\<lambda>(m, h).
     (m, fold (\<lambda>kp. update_ctx_limits conf (snd kp)) (cm_iter ops m) h))"

subsection \<open>Blacklist\<close>

fun first_match :: "string list \<Rightarrow> string \<Rightarrow> string \<times> bool" where
  "first_match [] d = ('''', False)"
| "first_match (vv # black) d = (if contains_str d vv then (vv, True) else first_match black d)"

definition IsInBlacklist :: "string list option \<Rightarrow> string \<Rightarrow> string \<times> bool" where
  "IsInBlacklist blackMap d = (case blackMap of None \<Rightarrow> ('''', False) | Some bm \<Rightarrow> first_match bm d)"

definition IpAndTargetIsInBlacklist :: "nacos_config \<Rightarrow> (string \<Rightarrow> bool) \<Rightarrow> string \<Rightarrow> bool" where
  "IpAndTargetIsInBlacklist conf isBlacklisted ipAndTarget =
     (if ipAndTarget \<in> set (WhiteList conf) then False
      else if isBlacklisted ipAndTarget then True else False)"

subsection \<open>Runs\<close>

text \<open>
  The connection handlers run concurrently; each map operation is one atomic step. \<open>ip_step\<close> is a
  step of the accounting per exit address: a handler is admitted or refused under one of the
  limits \<open>Ns\<close> (the configuration may change between steps), or an admitted one leaves (its
  deferred call). \<open>holds ip\<close> is the number of handlers admitted for \<open>ip\<close> that have not left.
\<close>

inductive ip_step :: "('m, addr, ip_cb_state) cmap_ops \<Rightarrow> int set \<Rightarrow>
    ('m \<times> ip_heap) \<times> (string \<Rightarrow> nat) \<Rightarrow> ('m \<times> ip_heap) \<times> (string \<Rightarrow> nat) \<Rightarrow> bool"
  for ops Ns where
  admit: "N \<in> Ns \<Longrightarrow> AddIpConnCount ops N ip s = ((True, n), s') \<Longrightarrow>
    ip_step ops Ns (s, holds) (s', holds(ip := Suc (holds ip)))"
| refuse: "N \<in> Ns \<Longrightarrow> AddIpConnCount ops N ip s = ((False, n), s') \<Longrightarrow> ip_step ops Ns (s, holds) (s', holds)"
| leave: "0 < holds ip \<Longrightarrow>
    ip_step ops Ns (s, holds) (ReduceIpConnCount ops ip s, holds(ip := holds ip - 1))"

text \<open>
  \<open>user_step\<close> is a step of the accounting per user: a handler registers its connection, a registered
  one leaves (its deferred call, with the pointer it was given), the user's connections are
  closed, or new limits are pushed to the live contexts. \<open>regs\<close> lists the registered connections.
\<close>

inductive user_step :: "('m, addr, ctx_heap) cmap_ops \<Rightarrow>
    ('m \<times> ctx_heap) \<times> (string \<times> addr) list \<Rightarrow> ('m \<times> ctx_heap) \<times> (string \<times> addr) list \<Rightarrow> bool"
  for ops where
  register: "addUserConnection ops conf now k s = (p, s') \<Longrightarrow>
    user_step ops (s, regs) (s', (k, p) # regs)"
| unregister: "(k, p) \<in> set regs \<Longrightarrow>
    user_step ops (s, regs) (deleteUserConnection ops k p s, remove1 (k, p) regs)"
| close_user: "CloseUserConnections ops k s = (b, s') \<Longrightarrow> user_step ops (s, regs) (s', regs)"
| reconfigure: "user_step ops (s, regs) (updateLimitedReaderAction ops conf s, regs)"

locale cmap_provider =
  fixes ops :: "('m, 'v, 's) cmap_ops"
    and lookup :: "'m \<Rightarrow> string \<Rightarrow> 'v option"
    and inv :: "'m \<Rightarrow> bool"
  assumes map_laws: "concurrent_map lookup inv (cm_upsert ops) (cm_removecb ops) (cm_pop ops) (cm_iter ops)"

sublocale cmap_provider \<subseteq> concurrent_map lookup inv "cm_upsert ops" "cm_removecb ops" "cm_pop ops" "cm_iter ops"
  by (rule map_laws)

text \<open>The sharded map of the repository is such a provider.\<close>

definition sharded_ops :: "((string, 'v) cmap, 'v, 's) cmap_ops" where
  "sharded_ops = \<lparr>cm_upsert = cmap_Upsert, cm_removecb = cmap_RemoveCb, cm_pop = cmap_Pop,
     cm_iter = cmap_Iter\<rparr>"

interpretation sharded: cmap_provider sharded_ops cmap_Get cmap_inv
  by (rule cmap_provider.intro) (simp add: sharded_ops_def cm.concurrent_map_axioms)

subsection \<open>Accounting per exit address\<close>

definition ip_inv :: "('m \<Rightarrow> string \<Rightarrow> addr option) \<Rightarrow> 'm \<times> ip_heap \<Rightarrow> (string \<Rightarrow> nat) \<Rightarrow> bool" where
  "ip_inv lookup = (\<lambda>(m, h) holds.
     (\<forall>ip. lookup m ip = None \<longrightarrow> holds ip = 0) \<and>
     (\<forall>ip p. lookup m ip = Some p \<longrightarrow> 0 < holds ip \<and> counts h p = int (holds ip) \<and> p < next_count h) \<and>
     (\<forall>ip ip' p. lookup m ip = Some p \<longrightarrow> lookup m ip' = Some p \<longrightarrow> ip = ip'))"

lemma ip_inv_empty: "lookup m = Map.empty \<Longrightarrow> ip_inv lookup (m, h) (\<lambda>_. 0)"
  by (simp add: ip_inv_def)

locale ip_map = cmap_provider ops lookup inv
  for ops :: "('m, addr, ip_cb_state) cmap_ops" and lookup and inv
begin

lemma Add_conv:
  assumes "inv m"
  shows "\<exists>m'. inv m' \<and> (case add_ip_cb N (lookup m ip) (h, False, 0) of (p, h', ok, n) \<Rightarrow>
    AddIpConnCount ops N ip (m, h) = ((ok, n), m', h') \<and> lookup m' = (lookup m)(ip \<mapsto> p))"
  using upsert_res [OF assms, of ip "add_ip_cb N" "(h, False, 0)"]
    upsert_state [OF assms, of ip "add_ip_cb N" "(h, False, 0)"]
    upsert_lookup [OF assms, of ip "add_ip_cb N" "(h, False, 0)"]
    upsert_inv [OF assms, of ip "add_ip_cb N" "(h, False, 0)"]
  by (auto simp: AddIpConnCount_def split: prod.splits)

lemma Reduce_conv:
  assumes "inv m"
  shows "\<exists>m'. inv m' \<and> (case reduce_ip_cb (lookup m ip) (h, False, 0) of (b, h', _) \<Rightarrow>
    ReduceIpConnCount ops ip (m, h) = (m', h') \<and>
    lookup m' = (if b then (lookup m)(ip := None) else lookup m))"
  using removecb_res [OF assms, of ip reduce_ip_cb "(h, False, 0)"]
    removecb_state [OF assms, of ip reduce_ip_cb "(h, False, 0)"]
    removecb_lookup [OF assms, of ip reduce_ip_cb "(h, False, 0)"]
    removecb_inv [OF assms, of ip reduce_ip_cb "(h, False, 0)"]
  by (auto simp: ReduceIpConnCount_def split: prod.splits)

lemma Add_result:
  assumes "inv m" and "ip_inv lookup (m, h) holds" and "0 \<le> N"
  shows "fst (AddIpConnCount ops N ip (m, h)) =
    (if N = 0 \<or> int (holds ip) < N then (True, int (holds ip) + 1) else (False, int (holds ip)))"
proof (cases "lookup m ip")
  case None
  then have "holds ip = 0" using assms(2) by (auto simp: ip_inv_def)
  with None Add_conv [OF assms(1), of N ip h] assms(3) show ?thesis by (auto simp: add_ip_cb_def)
next
  case (Some p)
  then have "counts h p = int (holds ip)" using assms(2) by (auto simp: ip_inv_def)
  with Some Add_conv [OF assms(1), of N ip h] show ?thesis
    by (auto simp: add_ip_cb_def split: if_splits)
qed

lemma Add_inv:
  assumes "inv m" and "ip_inv lookup (m, h) holds"
    and "AddIpConnCount ops N ip (m, h) = ((ok, n), m', h')"
  shows "inv m' \<and> ip_inv lookup (m', h') (if ok then holds(ip := Suc (holds ip)) else holds)"
proof (cases "lookup m ip")
  case None
  then have "holds ip = 0" using assms(2) by (auto simp: ip_inv_def)
  moreover have "p < next_count h" if "lookup m ip' = Some p" for ip' p
    using assms(2) that by (auto simp: ip_inv_def)
  ultimately show ?thesis using None Add_conv [OF assms(1), of N ip h] assms(2,3)
    by (auto simp: add_ip_cb_def ip_inv_def less_SucI split: if_splits)
next
  case (Some p)
  with Add_conv [OF assms(1), of N ip h] assms(2,3) show ?thesis
    by (auto simp: add_ip_cb_def ip_inv_def split: if_splits)
qed

lemma Reduce_inv:
  assumes "inv m" and "ip_inv lookup (m, h) holds" and "0 < holds ip"
    and "ReduceIpConnCount ops ip (m, h) = (m', h')"
  shows "inv m' \<and> ip_inv lookup (m', h') (holds(ip := holds ip - 1))"
proof -
  from assms(2,3) obtain p where p: "lookup m ip = Some p" by (cases "lookup m ip") (auto simp: ip_inv_def)
  from assms(3) obtain n where n: "holds ip = Suc n" by (cases "holds ip") auto
  with p have "counts h p = 1 + int n" using assms(2) by (auto simp: ip_inv_def)
  with n p Reduce_conv [OF assms(1), of ip h] assms(2,4) show ?thesis
    by (auto simp: reduce_ip_cb_def ip_inv_def split: if_splits)
qed

lemma run_inv:
  assumes "(ip_step ops Ns)\<^sup>*\<^sup>* (s, \<lambda>_. 0) (s', holds)" and "inv (fst s)" and "lookup (fst s) = Map.empty"
  shows "inv (fst s') \<and> ip_inv lookup s' holds"
  using assms(1)
proof (induction "(s', holds)" arbitrary: s' holds rule: rtranclp_induct)
  case base
  then show ?case using assms(2,3) ip_inv_empty by (metis prod.collapse)
next
  case (step y)
  from step.hyps(2) step.hyps(3) show ?case
  proof (cases rule: ip_step.cases)
    case (admit N ip s1 n hs)
    then show ?thesis using step.hyps(3) [of s1 hs] Add_inv [of "fst s1" "snd s1" hs N ip True n "fst s'" "snd s'"]
      by simp
  next
    case (refuse N ip s1 n)
    then show ?thesis using step.hyps(3) [of s1 holds] Add_inv [of "fst s1" "snd s1" holds N ip False n "fst s'" "snd s'"]
      by simp
  next
    case (leave hs ip s1)
    then show ?thesis using step.hyps(3) [of s1 hs] Reduce_inv [of "fst s1" "snd s1" hs ip "fst s'" "snd s'"]
      by simp
  qed
qed

lemma run_limit_bound:
  assumes "(ip_step ops {N})\<^sup>*\<^sup>* (s, \<lambda>_. 0) (s', holds)" and "inv (fst s)" and "lookup (fst s) = Map.empty"
    and "0 < N"
  shows "int (holds ip) \<le> N"
  using assms(1)
proof (induction "(s', holds)" arbitrary: s' holds rule: rtranclp_induct)
  case base
  then show ?case using assms(4) by simp
next
  case (step y)
  from step.hyps(2) show ?case
  proof (cases rule: ip_step.cases)
    case (admit M ip1 s1 n hs)
    have "inv (fst s1) \<and> ip_inv lookup s1 hs"
      using run_inv step.hyps(1) admit(1) assms(2,3) by blast
    with Add_result [of "fst s1" "snd s1" hs N ip1] admit assms(4) have "int (hs ip1) < N"
      by (auto split: if_splits)
    with admit step.hyps(3) [of s1 hs] show ?thesis by auto
  next
    case (refuse M ip1 s1 n)
    with step.hyps(3) [of s1 holds] show ?thesis by simp
  next
    case (leave hs ip1 s1)
    with step.hyps(3) [of s1 hs] show ?thesis by auto
  qed
qed

end

interpretation sharded_ip: ip_map sharded_ops cmap_Get cmap_inv
  by unfold_locales

subsection \<open>Accounting per user\<close>

definition user_inv ::
    "('m \<Rightarrow> string \<Rightarrow> addr option) \<Rightarrow> 'm \<times> ctx_heap \<Rightarrow> (string \<times> addr) list \<Rightarrow> bool" where
  "user_inv lookup = (\<lambda>(m, h) regs.
     (\<forall>k p. lookup m k = Some p \<longrightarrow> \<not> ctx_cancelled (ctxs h p) \<and> (k, p) \<in> set regs \<and>
        cx_c (ctxs h p) = of_nat (count_list regs (k, p))) \<and>
     (\<forall>k p. (k, p) \<in> set regs \<longrightarrow> p < next_ctx h \<and> (lookup m k = Some p \<or> ctx_cancelled (ctxs h p))) \<and>
     (\<forall>k k' p. (k, p) \<in> set regs \<longrightarrow> (k', p) \<in> set regs \<longrightarrow> k = k'))"

lemma user_inv_empty: "lookup m = Map.empty \<Longrightarrow> user_inv lookup (m, h) []"
  by (simp add: user_inv_def)

lemma user_inv_live:
  assumes "user_inv lookup (m, h) regs" and "lookup m k = Some p"
  shows "\<not> ctx_cancelled (ctxs h p)" "(k, p) \<in> set regs"
    "cx_c (ctxs h p) = of_nat (count_list regs (k, p))"
  using assms by (auto simp: user_inv_def)

lemma user_inv_reg:
  assumes "user_inv lookup (m, h) regs" and "(k, p) \<in> set regs"
  shows "p < next_ctx h" "lookup m k \<noteq> Some p \<Longrightarrow> ctx_cancelled (ctxs h p)"
    "(k', p) \<in> set regs \<Longrightarrow> k' = k"
  using assms unfolding user_inv_def by blast+

lemma user_invI:
  assumes "\<And>k p. lookup m k = Some p \<Longrightarrow> \<not> ctx_cancelled (ctxs h p) \<and> (k, p) \<in> set regs \<and>
      cx_c (ctxs h p) = of_nat (count_list regs (k, p))"
    and "\<And>k p. (k, p) \<in> set regs \<Longrightarrow> p < next_ctx h"
    and "\<And>k p. (k, p) \<in> set regs \<Longrightarrow> lookup m k \<noteq> Some p \<Longrightarrow> ctx_cancelled (ctxs h p)"
    and "\<And>k k' p. (k, p) \<in> set regs \<Longrightarrow> (k', p) \<in> set regs \<Longrightarrow> k = k'"
  shows "user_inv lookup (m, h) regs"
  unfolding user_inv_def using assms by blast

lemma user_inv_subset:
  assumes "user_inv lookup (m0, h0) regs0" and "set regs \<subseteq> set regs0" and "next_ctx h = next_ctx h0"
    and "\<And>k p. lookup m k = Some p \<Longrightarrow> \<not> ctx_cancelled (ctxs h p) \<and> (k, p) \<in> set regs \<and>
      cx_c (ctxs h p) = of_nat (count_list regs (k, p))"
    and "\<And>k p. (k, p) \<in> set regs \<Longrightarrow> lookup m k \<noteq> Some p \<Longrightarrow> ctx_cancelled (ctxs h p)"
  shows "user_inv lookup (m, h) regs"
proof (rule user_invI)
  show "k = k'" if "(k, p) \<in> set regs" "(k', p) \<in> set regs" for k k' p
    using that assms(2) user_inv_reg(3) [OF assms(1), of k' p k] by blast
qed (use assms user_inv_reg(1) [OF assms(1)] in auto)

lemma user_inv_other:
  assumes "user_inv lookup (m, h) regs" and "lookup m k = Some p" and "(k', q) \<in> set regs" and "k' \<noteq> k"
  shows "q \<noteq> p"
  using user_inv_live(2) [OF assms(1,2)] user_inv_reg(3) [OF assms(1,3)] assms(4) by blast

lemma user_inv_unique:
  assumes "user_inv lookup (m, h) regs" and "lookup m k = Some p" and "lookup m k' = Some q" and "k' \<noteq> k"
  shows "q \<noteq> p"
  using user_inv_other [OF assms(1,2) user_inv_live(2) [OF assms(1,3)] assms(4)] .

lemma count_list_remove1: "count_list (remove1 x xs) y = count_list xs y - (if x = y then 1 else 0)"
  by (induction xs) auto

lemma in_remove1_iff: "y \<in> set (remove1 x xs) \<longleftrightarrow> y \<in> set xs \<and> (x \<noteq> y \<or> 1 < count_list xs x)"
proof -
  have "y \<in> set (remove1 x xs) \<longleftrightarrow> 0 < count_list (remove1 x xs) y"
    by (metis count_list_0_iff gr0I less_not_refl)
  moreover have "y \<in> set xs \<longleftrightarrow> 0 < count_list xs y"
    by (metis count_list_0_iff gr0I less_not_refl)
  ultimately show ?thesis by (auto simp: count_list_remove1)
qed

lemma of_nat_word64_eq_1:
  "n < 2 ^ 64 \<Longrightarrow> 0 < n \<Longrightarrow> (of_nat n :: 64 word) - 1 = 0 \<longleftrightarrow> n = 1"
proof -
  assume n: "n < 2 ^ 64" "0 < n"
  then obtain k where k: "n = Suc k" by (cases n) auto
  then have "(of_nat n :: 64 word) - 1 = of_nat k" by simp
  moreover have "(of_nat k :: 64 word) = 0 \<longleftrightarrow> k = 0"
    using n k nat_dvd_not_less [of k "2 ^ 64"] by (auto simp: word_of_nat_eq_0_iff)
  ultimately show ?thesis using k by simp
qed

lemma update_limits_ctxs:
  "ctx_cancelled (ctxs (snd (updateLimitedReaderAction ops conf (m, h))) p) = ctx_cancelled (ctxs h p) \<and>
   cx_c (ctxs (snd (updateLimitedReaderAction ops conf (m, h))) p) = cx_c (ctxs h p) \<and>
   next_ctx (snd (updateLimitedReaderAction ops conf (m, h))) = next_ctx h \<and>
   fst (updateLimitedReaderAction ops conf (m, h)) = m"
proof -
  have one: "ctx_cancelled (ctxs (update_ctx_limits conf q g) r) = ctx_cancelled (ctxs g r)"
    "cx_c (ctxs (update_ctx_limits conf q g) r) = cx_c (ctxs g r)"
    "next_ctx (update_ctx_limits conf q g) = next_ctx g" for q g r
    by (simp_all add: update_ctx_limits_def)
  have "ctx_cancelled (ctxs (fold (\<lambda>kp. update_ctx_limits conf (snd kp)) xs g) r) = ctx_cancelled (ctxs g r) \<and>
      cx_c (ctxs (fold (\<lambda>kp. update_ctx_limits conf (snd kp)) xs g) r) = cx_c (ctxs g r) \<and>
      next_ctx (fold (\<lambda>kp. update_ctx_limits conf (snd kp)) xs g) = next_ctx g"
    for xs :: "(string \<times> addr) list" and g r
    by (induction xs arbitrary: g) (simp_all add: one)
  then show ?thesis by (simp add: updateLimitedReaderAction_def)
qed

locale user_map = cmap_provider ops lookup inv
  for ops :: "('m, addr, ctx_heap) cmap_ops" and lookup and inv
begin

lemma register_conv:
  assumes "inv m"
  shows "\<exists>m'. inv m' \<and> (case add_user_cb conf now (lookup m k) h of (p, h') \<Rightarrow>
    addUserConnection ops conf now k (m, h) = (p, m', h') \<and> lookup m' = (lookup m)(k \<mapsto> p))"
  using upsert_res [OF assms, of k "add_user_cb conf now" h]
    upsert_state [OF assms, of k "add_user_cb conf now" h]
    upsert_lookup [OF assms, of k "add_user_cb conf now" h]
    upsert_inv [OF assms, of k "add_user_cb conf now" h]
  by (auto simp: addUserConnection_def prod_eq_iff split: prod.splits)

lemma unregister_conv:
  assumes "inv m"
  shows "\<exists>m'. inv m' \<and> (case delete_user_cb p (lookup m k) h of (b, h') \<Rightarrow>
    deleteUserConnection ops k p (m, h) = (m', h') \<and>
    lookup m' = (if b then (lookup m)(k := None) else lookup m))"
  using removecb_res [OF assms, of k "delete_user_cb p" h]
    removecb_state [OF assms, of k "delete_user_cb p" h]
    removecb_lookup [OF assms, of k "delete_user_cb p" h]
    removecb_inv [OF assms, of k "delete_user_cb p" h]
  by (auto simp: deleteUserConnection_def split: prod.splits)

lemma close_conv:
  assumes "inv m"
  shows "\<exists>m'. inv m' \<and> lookup m' = (lookup m)(k := None) \<and>
    CloseUserConnections ops k (m, h) =
      (lookup m k \<noteq> None, m', case lookup m k of Some p \<Rightarrow> cancel_ctx p h | None \<Rightarrow> h)"
  using pop_res [OF assms, of k] pop_lookup [OF assms, of k] pop_inv [OF assms, of k]
  by (auto simp: CloseUserConnections_def split: prod.splits option.splits)

lemma register_fresh:
  assumes "inv m" and "user_inv lookup (m, h) regs"
    and "addUserConnection ops conf now k (m, h) = (p, m', h')" and "lookup m k = None"
  shows "inv m' \<and> user_inv lookup (m', h') ((k, p) # regs)"
proof -
  note reg = user_inv_reg [OF assms(2)] and live = user_inv_live [OF assms(2)]
  from register_conv [OF assms(1), of conf now k h] assms(3,4)
  have e: "inv m'" "p = next_ctx h" "lookup m' = (lookup m)(k \<mapsto> next_ctx h)"
    "next_ctx h' = Suc (next_ctx h)" "\<And>q. q \<noteq> next_ctx h \<Longrightarrow> ctxs h' q = ctxs h q"
    "\<not> ctx_cancelled (ctxs h' p)" "cx_c (ctxs h' p) = 1"
    by (auto simp: add_user_cb_def)
  have fresh: "(k', next_ctx h) \<notin> set regs" for k' using reg(1) by blast
  have old: "ctxs h' q = ctxs h q" if "(k', q) \<in> set regs" for k' q
    using reg(1) [OF that] e(5) by auto
  have oldl: "ctxs h' q = ctxs h q" if "lookup m k' = Some q" for k' q
    using old [OF live(2) [OF that]] .
  have "user_inv lookup (m', h') ((k, p) # regs)"
    by (rule user_invI)
      (use e fresh old oldl live reg assms(4) in \<open>auto simp: less_SucI count_list_0_iff split: if_splits\<close>)
  with e(1) show ?thesis by blast
qed

lemma register_known:
  assumes "inv m" and "user_inv lookup (m, h) regs"
    and "addUserConnection ops conf now k (m, h) = (p, m', h')" and Some: "lookup m k = Some q"
  shows "inv m' \<and> user_inv lookup (m', h') ((k, p) # regs)"
proof -
  note reg = user_inv_reg [OF assms(2)] and live = user_inv_live [OF assms(2)]
  from register_conv [OF assms(1), of conf now k h] assms(3) Some
  have e: "inv m'" "p = q" "lookup m' = lookup m" "next_ctx h' = next_ctx h"
    "ctxs h' = (ctxs h)(q := (ctxs h q)\<lparr>cx_c := cx_c (ctxs h q) + 1\<rparr>)"
    by (auto simp: add_user_cb_def fun_upd_idem)
  have u: "k' = k" if "(k', q) \<in> set regs" for k'
    using user_inv_other [OF assms(2) Some that] by blast
  have ul: "k' = k" if "lookup m k' = Some q" for k'
    using u [OF live(2) [OF that]] .
  have "user_inv lookup (m', h') ((k, p) # regs)"
  proof (rule user_invI)
    fix k1 p1 assume l: "lookup m' k1 = Some p1"
    then show "\<not> ctx_cancelled (ctxs h' p1) \<and> (k1, p1) \<in> set ((k, p) # regs) \<and>
        cx_c (ctxs h' p1) = of_nat (count_list ((k, p) # regs) (k1, p1))"
    proof (cases "p1 = q")
      case True
      with l e(3) ul have "k1 = k" by metis
      with True e(2,5) live [OF Some] show ?thesis by simp
    next
      case False
      with l e(2,3,5) live [of k1 p1] show ?thesis by simp
    qed
  next
    fix k1 p1 assume "(k1, p1) \<in> set ((k, p) # regs)"
    then show "p1 < next_ctx h'" using e reg(1) live(2) [OF Some] by auto
  next
    fix k1 p1 assume "(k1, p1) \<in> set ((k, p) # regs)" "lookup m' k1 \<noteq> Some p1"
    then show "ctx_cancelled (ctxs h' p1)" using e reg(2) Some by auto
  next
    fix k1 k2 p1 assume "(k1, p1) \<in> set ((k, p) # regs)" "(k2, p1) \<in> set ((k, p) # regs)"
    then consider "k1 = k" "k2 = k" | "(k1, p1) \<in> set regs" "(k2, p1) \<in> set regs"
      using e(2) u by (cases "p1 = q") auto
    then show "k1 = k2" by cases (simp, rule reg(3))
  qed
  with e(1) show ?thesis by blast
qed

lemma register_inv:
  assumes "inv m" and "user_inv lookup (m, h) regs"
    and "addUserConnection ops conf now k (m, h) = (p, m', h')"
  shows "inv m' \<and> user_inv lookup (m', h') ((k, p) # regs)"
  using register_fresh [OF assms] register_known [OF assms] by (cases "lookup m k") blast+

lemma unregister_live:
  assumes "inv m" and "user_inv lookup (m, h) regs" and "(k, p) \<in> set regs"
    and "length regs < 2 ^ 64" and "deleteUserConnection ops k p (m, h) = (m', h')"
    and True: "lookup m k = Some p"
  shows "inv m' \<and> user_inv lookup (m', h') (remove1 (k, p) regs)"
proof -
  note reg = user_inv_reg(2) [OF assms(2)] and live = user_inv_live [OF assms(2)]
  note other = user_inv_other [OF assms(2) True] user_inv_unique [OF assms(2) True]
  have c: "count_list regs (k, p) < 2 ^ 64"
    using assms(4) count_le_length [of regs "(k, p)"] by linarith
  have c0: "0 < count_list regs (k, p)" using assms(3) count_list_0_iff [of regs "(k, p)"] by auto
  note cx = live(3) [OF True]
  show ?thesis
  proof (cases "count_list regs (k, p) = 1")
    case one: True
    with unregister_conv [OF assms(1), of k p h] True cx assms(5)
    have e: "inv m'" "lookup m' = (lookup m)(k := None)"
      "h' = cancel_ctx p (h\<lparr>ctxs := (ctxs h)(p := (ctxs h p)\<lparr>cx_c := 0\<rparr>)\<rparr>)"
      by (auto simp: delete_user_cb_def Let_def)
    have "user_inv lookup (m', h') (remove1 (k, p) regs)"
      by (rule user_inv_subset [OF assms(2)]) (use e one True live reg other in
        \<open>auto simp: cancel_ctx_def in_remove1_iff count_list_remove1 split: if_splits\<close>)
    with e(1) show ?thesis by blast
  next
    case more: False
    then have "(of_nat (count_list regs (k, p)) :: 64 word) - 1 \<noteq> 0"
      using of_nat_word64_eq_1 [OF c c0] by simp
    with unregister_conv [OF assms(1), of k p h] True cx assms(5)
    have e: "inv m'" "lookup m' = lookup m"
      "h' = h\<lparr>ctxs := (ctxs h)(p := (ctxs h p)\<lparr>cx_c := of_nat (count_list regs (k, p)) - 1\<rparr>)\<rparr>"
      by (auto simp: delete_user_cb_def Let_def)
    have uniq: "k' = k" if "(k', p) \<in> set regs" for k' using other(1) [OF that] by blast
    have n1: "1 < count_list regs (k, p)" using more c0 by linarith
    have "user_inv lookup (m', h') (remove1 (k, p) regs)"
      by (rule user_inv_subset [OF assms(2)]) (use e n1 True live reg other uniq in
        \<open>auto simp: in_remove1_iff count_list_remove1 of_nat_diff split: if_splits\<close>)
    with e(1) show ?thesis by blast
  qed
qed

lemma unregister_inv:
  assumes "inv m" and "user_inv lookup (m, h) regs" and "(k, p) \<in> set regs"
    and "length regs < 2 ^ 64" and "deleteUserConnection ops k p (m, h) = (m', h')"
  shows "inv m' \<and> user_inv lookup (m', h') (remove1 (k, p) regs)"
proof (cases "lookup m k = Some p")
  case False
  note reg = user_inv_reg(2) [OF assms(2)] and live = user_inv_live [OF assms(2)]
  from False unregister_conv [OF assms(1), of k p h] assms(2,3,5) have e:
    "inv m'" "h' = h" "lookup m' = lookup m"
    by (auto simp: delete_user_cb_def fun_upd_idem split: option.splits)
  have "user_inv lookup (m', h') (remove1 (k, p) regs)"
    by (rule user_inv_subset [OF assms(2)]) (use e False live reg in \<open>auto simp: in_remove1_iff count_list_remove1\<close>)
  with e(1) show ?thesis by blast
next
  case True
  with assms show ?thesis by (rule unregister_live)
qed

lemma close_inv:
  assumes "inv m" and "user_inv lookup (m, h) regs"
    and "CloseUserConnections ops k (m, h) = (b, m', h')"
  shows "inv m' \<and> user_inv lookup (m', h') regs"
proof (cases "lookup m k")
  case None
  with close_conv [OF assms(1), of k h] assms(2,3) show ?thesis by (auto simp: fun_upd_idem user_inv_def)
next
  case (Some p)
  note reg = user_inv_reg(2) [OF assms(2)] and live = user_inv_live [OF assms(2)]
  note other = user_inv_other [OF assms(2) Some] user_inv_unique [OF assms(2) Some]
  from Some close_conv [OF assms(1), of k h] assms(3)
  have e: "inv m'" "lookup m' = (lookup m)(k := None)" "h' = cancel_ctx p h" by auto
  have "user_inv lookup (m', h') regs"
    by (rule user_inv_subset [OF assms(2)]) (use e Some live reg other in \<open>auto simp: cancel_ctx_def split: if_splits\<close>)
  with e(1) show ?thesis by blast
qed

lemma close_cancels:
  assumes "inv m" and "user_inv lookup (m, h) regs"
    and "CloseUserConnections ops k (m, h) = (b, m1, h1)" and "(k', q) \<in> set regs"
  shows "ctx_cancelled (ctxs h1 q) \<longleftrightarrow> k' = k \<or> ctx_cancelled (ctxs h q)"
proof -
  have h1: "h1 = (case lookup m k of Some p \<Rightarrow> cancel_ctx p h | None \<Rightarrow> h)"
    using close_conv [OF assms(1), of k h] assms(3) by auto
  have "ctx_cancelled (ctxs h1 q) \<longleftrightarrow> lookup m k = Some q \<or> ctx_cancelled (ctxs h q)"
    unfolding h1 by (cases "lookup m k") (auto simp: cancel_ctx_def)
  then show ?thesis
    using user_inv_reg(2,3) [OF assms(2,4)] user_inv_live(2) [OF assms(2), of k q] assms(4) by blast
qed

lemma reconfigure_inv:
  assumes "user_inv lookup (m, h) regs"
  shows "user_inv lookup (updateLimitedReaderAction ops conf (m, h)) regs"
  using assms update_limits_ctxs [of ops conf m h]
  by (cases "updateLimitedReaderAction ops conf (m, h)") (auto simp: user_inv_def)

end

context user_map begin

lemma user_step_inv:
  assumes "user_step ops (s, regs) (s', regs')" and "inv (fst s)" and "user_inv lookup s regs"
    and "length regs < 2 ^ 64"
  shows "inv (fst s') \<and> user_inv lookup s' regs' \<and> length regs' \<le> Suc (length regs)"
proof -
  obtain m h m' h' where s: "s = (m, h)" "s' = (m', h')" by fastforce
  from assms(1) show ?thesis
  proof (cases rule: user_step.cases)
    case (register conf now k p)
    with register_inv [of m h regs conf now k p m' h'] assms(2,3) s show ?thesis by simp
  next
    case (unregister k p)
    with unregister_inv [of m h regs k p m' h'] assms s show ?thesis
      by (simp add: length_remove1)
  next
    case (close_user k b)
    with close_inv [of m h regs k b m' h'] assms(2,3) s show ?thesis by simp
  next
    case (reconfigure conf)
    with reconfigure_inv [of m h regs conf] update_limits_ctxs [of ops conf m h] assms(2,3) s
    show ?thesis by (metis fst_conv le_SucI order_refl)
  qed
qed

lemma user_run_inv:
  assumes "(user_step ops ^^ n) (s, []) (s', regs)" and "inv (fst s)" and "lookup (fst s) = Map.empty"
    and "n < 2 ^ 64"
  shows "inv (fst s') \<and> user_inv lookup s' regs \<and> length regs \<le> n"
  using assms(1,4)
proof (induction n arbitrary: s' regs)
  case 0
  then show ?case using assms(2,3) user_inv_empty [of lookup "fst s" "snd s"] by simp
next
  case (Suc n)
  from Suc.prems(1) obtain y where y: "(user_step ops ^^ n) (s, []) y" "user_step ops y (s', regs)"
    by auto
  obtain s1 regs1 where y1: "y = (s1, regs1)" by fastforce
  with Suc.IH [of s1 regs1] y(1) Suc.prems(2)
  have "inv (fst s1) \<and> user_inv lookup s1 regs1 \<and> length regs1 \<le> n" by simp
  with user_step_inv [of s1 regs1 s' regs] y(2) y1 Suc.prems(2) show ?case by fastforce
qed

end

interpretation sharded_user: user_map sharded_ops cmap_Get cmap_inv
  by unfold_locales

subsection \<open>Properties\<close>

text \<open>
  C10. Connections per exit address are counted exactly: in every interleaving of handlers that are
  admitted, refused and leave, under changing limits, an address has an entry if and only if some
  admitted handler has not left, the entry's counter is the number of those handlers, and the
  next handler is admitted exactly when that number is below the configured limit (or there is
  no limit).
\<close>

theorem ip_accounting:
  assumes "cmap_provider ops lookup minv" and "minv m0" and "lookup m0 = Map.empty"
    and "(ip_step ops Ns)\<^sup>*\<^sup>* ((m0, h0), \<lambda>_. 0) ((m, h), holds)" and "0 \<le> N"
  shows "(lookup m ip = None \<longleftrightarrow> holds ip = 0) \<and>
    (\<forall>p. lookup m ip = Some p \<longrightarrow> counts h p = int (holds ip)) \<and>
    fst (AddIpConnCount ops N ip (m, h)) =
      (if N = 0 \<or> int (holds ip) < N then (True, int (holds ip) + 1) else (False, int (holds ip)))"
proof -
  have i: "minv m \<and> ip_inv lookup (m, h) holds"
    using ip_map.run_inv [OF ip_map.intro [OF assms(1)] assms(4)] assms(2,3) by simp
  then have "(lookup m ip = None \<longleftrightarrow> holds ip = 0) \<and> (\<forall>p. lookup m ip = Some p \<longrightarrow> counts h p = int (holds ip))"
    by (cases "lookup m ip") (auto simp: ip_inv_def)
  with ip_map.Add_result [OF ip_map.intro [OF assms(1)], of m h holds N ip] i assms(5) show ?thesis by blast
qed

definition heap0 :: ip_heap where
  "heap0 = \<lparr>counts = (\<lambda>_. 0), next_count = 0\<rparr>"

lemma new_cmap_ok: "cmap_inv New_cmap" "cmap_Get New_cmap = Map.empty"
  by (simp_all add: New_cmap_def create_inv)

lemma one_admission:
  "(ip_step sharded_ops {1})\<^sup>*\<^sup>* ((New_cmap, heap0), \<lambda>_. 0)
     (snd (AddIpConnCount sharded_ops 1 ''1.2.3.4'' (New_cmap, heap0)), (\<lambda>_. 0)(''1.2.3.4'' := Suc 0))"
proof -
  have "fst (AddIpConnCount sharded_ops 1 ''1.2.3.4'' (New_cmap, heap0)) = (True, 1)"
    using sharded_ip.Add_result [OF new_cmap_ok(1)
        ip_inv_empty [of cmap_Get New_cmap heap0, OF new_cmap_ok(2)], of 1 "''1.2.3.4''"]
    by simp
  then have "AddIpConnCount sharded_ops 1 ''1.2.3.4'' (New_cmap, heap0) =
      ((True, 1), snd (AddIpConnCount sharded_ops 1 ''1.2.3.4'' (New_cmap, heap0)))"
    by (metis prod.collapse)
  from ip_step.admit [OF _ this, of "{1}" "\<lambda>_. 0"] show ?thesis by auto
qed

theorem ip_accounting_witness:
  "fst (AddIpConnCount sharded_ops 1 ''1.2.3.4''
     (snd (AddIpConnCount sharded_ops 1 ''1.2.3.4'' (New_cmap, heap0)))) = (False, 1)"
proof -
  obtain m h where mh: "snd (AddIpConnCount sharded_ops 1 ''1.2.3.4'' (New_cmap, heap0)) = (m, h)"
    by fastforce
  from ip_accounting [OF sharded.cmap_provider_axioms new_cmap_ok one_admission [unfolded mh],
      of 1 "''1.2.3.4''"] mh
  show ?thesis by simp
qed

text \<open>
  C11. The per-address limit is never exceeded: while the configured limit is a fixed positive
  number, no interleaving has more admitted handlers for an address than the limit.
\<close>

theorem ip_limit:
  assumes "cmap_provider ops lookup minv" and "minv m0" and "lookup m0 = Map.empty"
    and "(ip_step ops {N})\<^sup>*\<^sup>* ((m0, h0), \<lambda>_. 0) (s, holds)" and "0 < N"
  shows "int (holds ip) \<le> N"
  using ip_map.run_limit_bound [OF ip_map.intro [OF assms(1)] assms(4)] assms(2,3,5) by simp

theorem ip_limit_witness: "int (((\<lambda>_. 0)(''1.2.3.4'' := Suc 0)) ''1.2.3.4'') \<le> 1"
  using ip_limit [OF sharded.cmap_provider_axioms new_cmap_ok one_admission, of "''1.2.3.4''"]
  by simp

text \<open>
  C12. Connections per user are tracked exactly: in every interleaving of handlers registering and
  leaving, of closing users and of pushing new limits (fewer than \<open>2 ^ 64\<close> steps, so that the
  unsigned counter does not wrap), a registered connection's context is uncancelled exactly while
  it is the context in the map under its key; the counter of a context in the map is the number of
  registered connections that share it, and is positive, so a user without connections has no
  entry.
\<close>

theorem user_accounting:
  assumes "cmap_provider ops lookup minv" and "minv m0" and "lookup m0 = Map.empty"
    and "(user_step ops ^^ n) ((m0, h0), []) ((m, h), regs)" and "n < 2 ^ 64"
  shows "(\<forall>(k, p) \<in> set regs. ctx_cancelled (ctxs h p) \<longleftrightarrow> lookup m k \<noteq> Some p) \<and>
    (\<forall>k p. lookup m k = Some p \<longrightarrow> unat (cx_c (ctxs h p)) = count_list regs (k, p) \<and> (k, p) \<in> set regs)"
proof -
  have i: "user_inv lookup (m, h) regs" "length regs \<le> n"
    using user_map.user_run_inv [OF user_map.intro [OF assms(1)] assms(4)] assms(2,3,5) by simp_all
  have "unat (of_nat (count_list regs (k, p)) :: 64 word) = count_list regs (k, p)" for k p
    using count_le_length [of regs "(k, p)"] i(2) assms(5) by (simp add: unat_of_nat take_bit_eq_mod)
  with user_inv_live [OF i(1)] user_inv_reg(2) [OF i(1)] show ?thesis by fastforce
qed

definition ctx_heap0 :: ctx_heap where
  "ctx_heap0 = \<lparr>ctxs = (\<lambda>_. \<lparr>ctx_cancelled = True, cx_a = NewLimitedReaderAction 0 0 0, cx_c = 0\<rparr>),
     next_ctx = 0\<rparr>"

lemma one_registration:
  "\<exists>m h. addUserConnection sharded_ops default_nacos 0 ''u'' (New_cmap, ctx_heap0) = (0, m, h) \<and>
     cmap_Get m = [''u'' \<mapsto> 0] \<and>
     (user_step sharded_ops ^^ 1) ((New_cmap, ctx_heap0), []) ((m, h), [(''u'', 0)])"
proof -
  obtain m h where mh: "addUserConnection sharded_ops default_nacos 0 ''u'' (New_cmap, ctx_heap0) = (0, m, h)"
    "cmap_Get m = [''u'' \<mapsto> 0]"
    using sharded_user.register_conv [OF new_cmap_ok(1), of default_nacos 0 "''u''" ctx_heap0]
    by (auto simp: add_user_cb_def ctx_heap0_def new_cmap_ok(2))
  with user_step.register [OF mh(1), of "[]"] show ?thesis by auto
qed

theorem user_accounting_witness:
  "\<exists>m h. addUserConnection sharded_ops default_nacos 0 ''u'' (New_cmap, ctx_heap0) = (0, m, h) \<and>
     \<not> ctx_cancelled (ctxs h 0) \<and> unat (cx_c (ctxs h 0)) = 1"
proof -
  obtain m h where mh: "addUserConnection sharded_ops default_nacos 0 ''u'' (New_cmap, ctx_heap0) = (0, m, h)"
    "cmap_Get m = [''u'' \<mapsto> 0]"
    "(user_step sharded_ops ^^ 1) ((New_cmap, ctx_heap0), []) ((m, h), [(''u'', 0)])"
    using one_registration by blast
  have steps: "(1::nat) < 2 ^ 64" by simp
  have live: "cmap_Get m ''u'' = Some 0" using mh(2) by simp
  note A = user_accounting [OF sharded.cmap_provider_axioms new_cmap_ok mh(3) steps]
  have "unat (cx_c (ctxs h 0)) = count_list [(''u'', 0 :: addr)] (''u'', 0)"
    using conjunct2 [OF A, rule_format, OF live] by blast
  moreover have "\<not> ctx_cancelled (ctxs h 0)" using bspec [OF conjunct1 [OF A], of "(''u'', 0)"] live by simp
  ultimately show ?thesis using mh(1) by (intro exI [of _ m] exI [of _ h]) simp
qed

text \<open>
  C13. Closing a user disconnects exactly that user: after \<^verbatim>\<open>CloseUserConnections(k)\<close>, in every
  reachable state, the contexts of all registered connections under \<open>k\<close> are cancelled and no other
  registered connection's context is; the call reports success exactly when an uncancelled one
  existed; and a connection registered under \<open>k\<close> afterwards gets a fresh, uncancelled context.
\<close>

theorem CloseUserConnections_exact:
  assumes "cmap_provider ops lookup minv" and "minv m0" and "lookup m0 = Map.empty"
    and "(user_step ops ^^ n) ((m0, h0), []) ((m, h), regs)" and "n < 2 ^ 64"
    and "CloseUserConnections ops k (m, h) = (b, m1, h1)"
    and "addUserConnection ops conf now k (m1, h1) = (p, m2, h2)"
  shows "(\<forall>(k', q) \<in> set regs. ctx_cancelled (ctxs h1 q) \<longleftrightarrow> k' = k \<or> ctx_cancelled (ctxs h q)) \<and>
    (b \<longleftrightarrow> (\<exists>q. (k, q) \<in> set regs \<and> \<not> ctx_cancelled (ctxs h q))) \<and>
    (k, p) \<notin> set regs \<and> \<not> ctx_cancelled (ctxs h2 p)"
proof -
  note U = user_map.intro [OF assms(1)]
  have i: "minv m" "user_inv lookup (m, h) regs"
    using user_map.user_run_inv [OF U assms(4)] assms(2,3,5) by simp_all
  note live = user_inv_live [OF i(2)] and reg = user_inv_reg [OF i(2)]
  obtain m' where m': "minv m'" "lookup m' = (lookup m)(k := None)" "b = (lookup m k \<noteq> None)" "m1 = m'"
    "h1 = (case lookup m k of Some p \<Rightarrow> cancel_ctx p h | None \<Rightarrow> h)"
    using user_map.close_conv [OF U i(1), of k h] assms(6) by auto
  have n1: "next_ctx h1 = next_ctx h" using m'(5) by (cases "lookup m k") (auto simp: cancel_ctx_def)
  have "p = next_ctx h1 \<and> \<not> ctx_cancelled (ctxs h2 p)"
    using user_map.register_conv [OF U m'(1), of conf now k h1] m'(2,4) assms(7)
    by (auto simp: add_user_cb_def)
  then have "(k, p) \<notin> set regs \<and> \<not> ctx_cancelled (ctxs h2 p)" using n1 reg(1) by (metis less_irrefl)
  moreover have "ctx_cancelled (ctxs h1 q) \<longleftrightarrow> k' = k \<or> ctx_cancelled (ctxs h q)"
    if "(k', q) \<in> set regs" for k' q
    by (rule user_map.close_cancels [OF U i assms(6) that])
  moreover have "b \<longleftrightarrow> (\<exists>q. (k, q) \<in> set regs \<and> \<not> ctx_cancelled (ctxs h q))"
    using m'(3) live reg(2) by (cases "lookup m k") fastforce+
  ultimately show ?thesis by auto
qed

theorem CloseUserConnections_exact_witness:
  "\<exists>m h m1 h1. addUserConnection sharded_ops default_nacos 0 ''u'' (New_cmap, ctx_heap0) = (0, m, h) \<and>
     CloseUserConnections sharded_ops ''u'' (m, h) = (True, m1, h1) \<and> ctx_cancelled (ctxs h1 0)"
proof -
  obtain m h where mh: "addUserConnection sharded_ops default_nacos 0 ''u'' (New_cmap, ctx_heap0) = (0, m, h)"
    "cmap_Get m = [''u'' \<mapsto> 0]"
    "(user_step sharded_ops ^^ 1) ((New_cmap, ctx_heap0), []) ((m, h), [(''u'', 0)])"
    using one_registration by blast
  obtain b m1 h1 where c: "CloseUserConnections sharded_ops ''u'' (m, h) = (b, m1, h1)"
    by (metis prod_cases3)
  obtain p m2 h2 where a: "addUserConnection sharded_ops default_nacos 0 ''u'' (m1, h1) = (p, m2, h2)"
    by (metis prod_cases3)
  have "\<not> ctx_cancelled (ctxs h 0)"
    using sharded_user.user_run_inv [OF mh(3)] user_inv_live(1) [of cmap_Get m h "[(''u'', 0)]" "''u''" 0]
      mh(2) by (simp add: new_cmap_ok)
  with CloseUserConnections_exact [OF sharded.cmap_provider_axioms new_cmap_ok mh(3) _ c a]
  have "b \<and> ctx_cancelled (ctxs h1 0)" by simp
  with mh(1) c show ?thesis
    by (intro exI [of _ m] exI [of _ h] exI [of _ m1] exI [of _ h1]) simp
qed

text \<open>
  The domain blacklist matches by substring, first entry first: a domain is refused exactly
  when some entry of the list occurs in it, and the entry reported is the first such one; with no
  list loaded nothing is refused.
\<close>

theorem IsInBlacklist_spec:
  "IsInBlacklist blackMap d =
     (case filter (\<lambda>vv. \<exists>a b. d = a @ vv @ b) (case blackMap of None \<Rightarrow> [] | Some bm \<Rightarrow> bm) of
        [] \<Rightarrow> ('''', False) | vv # _ \<Rightarrow> (vv, True))"
proof -
  have "first_match bm d =
      (case filter (\<lambda>vv. \<exists>a b. d = a @ vv @ b) bm of [] \<Rightarrow> ('''', False) | vv # _ \<Rightarrow> (vv, True))" for bm
    by (induction bm) (auto simp: contains_str_iff)
  then show ?thesis by (cases blackMap) (simp_all add: IsInBlacklist_def)
qed

end
