(* ===== verification/TtlCache.thy ===== *)
theory TtlCache
  imports Prelude
begin

text \<open>
  The contract of \<^verbatim>\<open>github.com/jellydator/ttlcache\<close>, a third-party package used by the dial-failure
  tracker and by authentication. The cache is a parameter: the record \<open>ttl_ops\<close> of the methods
  the program calls (the clock reading, in milliseconds, is an argument), and the locale
  \<open>ttl_cache\<close> with their documented behaviour. \<open>item c k\<close> is the value stored under \<open>k\<close> with the
  instant at which it expires; an expired entry is never returned, whether or not the cleaning
  goroutine has removed it yet, so the laws speak of the live entries only.
\<close>

record ('c, 'v) ttl_ops =
  tc_get :: "int \<Rightarrow> string \<Rightarrow> 'c \<Rightarrow> 'v option \<times> 'c"
  tc_getorset :: "int \<Rightarrow> string \<Rightarrow> 'v \<Rightarrow> 'c \<Rightarrow> ('v \<times> bool) \<times> 'c"
  tc_set :: "int \<Rightarrow> string \<Rightarrow> 'v \<Rightarrow> int \<Rightarrow> 'c \<Rightarrow> 'c"

text \<open>The live entry at an instant, and an entry that lives until \<open>e\<close>.\<close>

definition live :: "(string \<Rightarrow> ('v \<times> int) option) \<Rightarrow> int \<Rightarrow> string \<Rightarrow> ('v \<times> int) option" where
  "live it t k = (case it k of Some (v, e) \<Rightarrow> if t < e then Some (v, e) else None | None \<Rightarrow> None)"

definition until :: "'v \<Rightarrow> int \<Rightarrow> int \<Rightarrow> ('v \<times> int) option" where
  "until v e t = (if t < e then Some (v, e) else None)"

locale ttl_cache =
  fixes ops :: "('c, 'v) ttl_ops"
    and item :: "'c \<Rightarrow> string \<Rightarrow> ('v \<times> int) option"
    and ttl :: int
    and touch :: bool
  assumes get_res: "fst (tc_get ops t k c) = map_option fst (live (item c) t k)"
    and get_live: "t \<le> t' \<Longrightarrow> live (item (snd (tc_get ops t k c))) t' =
      (case live (item c) t k of
         Some (v, e) \<Rightarrow> if touch then (live (item c) t')(k := until v (t + ttl) t') else live (item c) t'
       | None \<Rightarrow> live (item c) t')"
    and getorset_res: "fst (tc_getorset ops t k v c) =
      (case live (item c) t k of Some (w, e) \<Rightarrow> (w, True) | None \<Rightarrow> (v, False))"
    and getorset_live: "t \<le> t' \<Longrightarrow> live (item (snd (tc_getorset ops t k v c))) t' =
      (case live (item c) t k of
         Some (w, e) \<Rightarrow> if touch then (live (item c) t')(k := until w (t + ttl) t') else live (item c) t'
       | None \<Rightarrow> (live (item c) t')(k := until v (t + ttl) t'))"
    and set_live: "t \<le> t' \<Longrightarrow> live (item (tc_set ops t k v d c)) t' = (live (item c) t')(k := until v (t + d) t')"

text \<open>An instance: a map from keys to values and expiry instants.\<close>

type_synonym 'v ttl_map = "string \<Rightarrow> ('v \<times> int) option"

definition map_get :: "int \<Rightarrow> bool \<Rightarrow> int \<Rightarrow> string \<Rightarrow> 'v ttl_map \<Rightarrow> 'v option \<times> 'v ttl_map" where
  "map_get ttl touch t k c = (case live c t k of
     Some (v, e) \<Rightarrow> (Some v, if touch then c(k \<mapsto> (v, t + ttl)) else c)
   | None \<Rightarrow> (None, c))"

definition map_getorset :: "int \<Rightarrow> bool \<Rightarrow> int \<Rightarrow> string \<Rightarrow> 'v \<Rightarrow> 'v ttl_map \<Rightarrow> ('v \<times> bool) \<times> 'v ttl_map" where
  "map_getorset ttl touch t k v c = (case live c t k of
     Some (w, e) \<Rightarrow> ((w, True), if touch then c(k \<mapsto> (w, t + ttl)) else c)
   | None \<Rightarrow> ((v, False), c(k \<mapsto> (v, t + ttl))))"

definition map_ops :: "int \<Rightarrow> bool \<Rightarrow> ('v ttl_map, 'v) ttl_ops" where
  "map_ops ttl touch = \<lparr>tc_get = map_get ttl touch, tc_getorset = map_getorset ttl touch,
     tc_set = (\<lambda>t k v d c. c(k \<mapsto> (v, t + d)))\<rparr>"

lemma live_upd: "live (c(k \<mapsto> (v, e))) t = (live c t)(k := until v e t)"
  by (auto simp: live_def until_def)

lemma live_map_ops: "ttl_cache (map_ops ttl touch) (\<lambda>c. c) ttl touch"
  by unfold_locales (auto simp: map_ops_def map_get_def map_getorset_def live_upd split: option.splits)

interpretation map_cache: ttl_cache "map_ops ttl touch" "\<lambda>c. c" ttl touch
  by (rule live_map_ops)

end
