(* ===== verification/Tracker.thy ===== *)
theory Tracker
  imports TtlCache
begin

text \<open>
  \<^verbatim>\<open>utils/tracker/dial_fail_tracker.go\<close>: how often dialling a target from an exit address timed
  out, and the blacklist of the pairs that did so too often. The cache of counters holds pointers
  to \<open>DialFailStats\<close>, kept in an explicit heap; the clock is in milliseconds.

  \<^verbatim>\<open>RecordDialFailConnection\<close> runs concurrently with itself. The argument \<open>env\<close> stands for the other
  goroutines: \<open>env i\<close> is what they do to the record between reading \<^verbatim>\<open>firstConnTime\<close> and the
  compare-and-swap in attempt \<open>i\<close>.
\<close>

definition windowTime :: int where "windowTime = 60000"
definition threshold :: "32 word" where "threshold = 500"
definition dialFailCacheTTL :: int where "dialFailCacheTTL = 10000"
definition blacklistTTL :: int where "blacklistTTL = 86400000"
definition maxAttempts :: nat where "maxAttempts = 10"

lemmas tracker_consts = windowTime_def threshold_def dialFailCacheTTL_def blacklistTTL_def maxAttempts_def

record dial_fail_stats =
  failCount :: "32 word"
  firstConnTime :: int

type_synonym stats_addr = nat

record ('c, 'b) dial_fail_tracker =
  dialFailCache :: 'c
  blacklist :: 'b
  stats :: "stats_addr \<Rightarrow> dial_fail_stats"
  next_stats :: stats_addr
  alarms :: "(string \<times> 32 word) list"

definition NewDialFailTracker :: "'c \<Rightarrow> 'b \<Rightarrow> ('c, 'b) dial_fail_tracker" where
  "NewDialFailTracker c b = \<lparr>dialFailCache = c, blacklist = b,
     stats = (\<lambda>_. \<lparr>failCount = 0, firstConnTime = 0\<rparr>), next_stats = 0, alarms = []\<rparr>"

definition IsBlacklisted :: "('b, int) ttl_ops \<Rightarrow> int \<Rightarrow> string \<Rightarrow> ('c, 'b) dial_fail_tracker \<Rightarrow>
    bool \<times> ('c, 'b) dial_fail_tracker" where
  "IsBlacklisted bops now ipAndTarget dt = (case tc_get bops now ipAndTarget (blacklist dt) of
     (v, b') \<Rightarrow> (v \<noteq> None, dt\<lparr>blacklist := b'\<rparr>))"

text \<open>The loop of \<^verbatim>\<open>RecordDialFailConnection\<close>, from attempt \<open>i\<close> on, with \<open>n\<close> attempts left.\<close>

fun record_loop :: "('b, int) ttl_ops \<Rightarrow> (nat \<Rightarrow> dial_fail_stats \<Rightarrow> dial_fail_stats) \<Rightarrow> int \<Rightarrow> string \<Rightarrow>
    stats_addr \<Rightarrow> nat \<Rightarrow> nat \<Rightarrow> ('c, 'b) dial_fail_tracker \<Rightarrow> ('c, 'b) dial_fail_tracker" where
  "record_loop bops env now k p i 0 dt = dt"
| "record_loop bops env now k p i (Suc n) dt =
     (let oldFirstConnTime = firstConnTime (stats dt p) in
      if now - oldFirstConnTime > windowTime then
        (let st = env i (stats dt p); dt1 = dt\<lparr>stats := (stats dt)(p := st)\<rparr> in
         if firstConnTime st = oldFirstConnTime
         then dt1\<lparr>stats := (stats dt1)(p := \<lparr>failCount = 1, firstConnTime = now\<rparr>)\<rparr>
         else record_loop bops env now k p (Suc i) n dt1)
      else
        (let newCount = failCount (stats dt p) + 1;
             dt1 = dt\<lparr>stats := (stats dt)(p := (stats dt p)\<lparr>failCount := newCount\<rparr>)\<rparr> in
         if threshold <s newCount
         then dt1\<lparr>blacklist := tc_set bops now k now blacklistTTL (blacklist dt1),
                  alarms := alarms dt1 @ [(k, newCount)]\<rparr>
         else dt1))"

definition RecordDialFailConnection :: "('c, stats_addr) ttl_ops \<Rightarrow> ('b, int) ttl_ops \<Rightarrow>
    (nat \<Rightarrow> dial_fail_stats \<Rightarrow> dial_fail_stats) \<Rightarrow> int \<Rightarrow> string \<Rightarrow>
    ('c, 'b) dial_fail_tracker \<Rightarrow> ('c, 'b) dial_fail_tracker" where
  "RecordDialFailConnection cops bops env now k dt =
     (case tc_get bops now k (blacklist dt) of
        (Some _, b') \<Rightarrow> dt\<lparr>blacklist := b'\<rparr>
      | (None, b') \<Rightarrow>
          (let p = next_stats dt;
               dt1 = dt\<lparr>blacklist := b', next_stats := Suc p,
                        stats := (stats dt)(p := \<lparr>failCount = 1, firstConnTime = now\<rparr>)\<rparr> in
           case tc_getorset cops now k p (dialFailCache dt1) of
             ((v, found), c') \<Rightarrow>
               (let dt2 = dt1\<lparr>dialFailCache := c'\<rparr> in
                if \<not> found then dt2 else record_loop bops env now k v 0 maxAttempts dt2)))"

text \<open>Failures recorded one after the other, at the given times, for one pair.\<close>

fun record_run :: "('c, stats_addr) ttl_ops \<Rightarrow> ('b, int) ttl_ops \<Rightarrow> string \<Rightarrow> int list \<Rightarrow>
    ('c, 'b) dial_fail_tracker \<Rightarrow> ('c, 'b) dial_fail_tracker" where
  "record_run cops bops k [] dt = dt"
| "record_run cops bops k (t # ts) dt =
     record_run cops bops k ts (RecordDialFailConnection cops bops (\<lambda>_ s. s) t k dt)"

subsection \<open>Counting\<close>

lemma threshold_sless: "n \<le> 501 \<Longrightarrow> threshold <s of_nat n \<longleftrightarrow> 500 < n"
proof -
  assume "n \<le> 501"
  then have "sint (of_nat n :: 32 word) = int n"
    by (simp add: signed_of_nat signed_take_bit_int_eq_self)
  then show ?thesis by (simp add: word_sless_alt threshold_def)
qed

lemma until_before [simp]: "t < e \<Longrightarrow> until v e t = Some (v, e)"
  by (simp add: until_def)

text \<open>Failures at most ten seconds apart keep their counter in the cache.\<close>

fun dense :: "int \<Rightarrow> int list \<Rightarrow> bool" where
  "dense t [] = True"
| "dense t (u # us) = (t \<le> u \<and> u < t + dialFailCacheTTL \<and> dense u us)"

locale tracker_caches =
  c: ttl_cache cops citem dialFailCacheTTL True + b: ttl_cache bops bitem blacklistTTL False
  for cops :: "('c, stats_addr) ttl_ops" and citem and bops :: "('b, int) ttl_ops" and bitem
begin

definition tracked :: "string \<Rightarrow> int \<Rightarrow> int \<Rightarrow> nat \<Rightarrow> ('c, 'b) dial_fail_tracker \<Rightarrow> bool" where
  "tracked k t0 t j dt \<longleftrightarrow> (\<forall>t' \<ge> t. live (bitem (blacklist dt)) t' k = None) \<and>
     (\<exists>p < next_stats dt. (\<forall>t' \<ge> t. live (citem (dialFailCache dt)) t' k = until p (t + dialFailCacheTTL) t') \<and>
        stats dt p = \<lparr>failCount = of_nat j, firstConnTime = t0\<rparr>)"

definition listed :: "string \<Rightarrow> int \<Rightarrow> int \<Rightarrow> ('c, 'b) dial_fail_tracker \<Rightarrow> bool" where
  "listed k s u dt \<longleftrightarrow> (\<forall>t' \<ge> u. live (bitem (blacklist dt)) t' k = until s (s + blacklistTTL) t')"

lemma get_blacklist:
  obtains b' where "tc_get bops t k b = (map_option fst (live (bitem b) t k), b')"
    "\<And>t'. t \<le> t' \<Longrightarrow> live (bitem b') t' = live (bitem b) t'"
proof
  show "tc_get bops t k b = (map_option fst (live (bitem b) t k), snd (tc_get bops t k b))"
    using b.get_res [of t k b] by (simp add: prod_eq_iff)
  show "live (bitem (snd (tc_get bops t k b))) t' = live (bitem b) t'" if "t \<le> t'" for t'
    using b.get_live [OF that, of k b] by (simp split: option.splits prod.splits)
qed

lemma first_failure:
  assumes "\<forall>t' \<ge> t. live (bitem (blacklist dt)) t' k = None"
    and "\<forall>t' \<ge> t. live (citem (dialFailCache dt)) t' k = None"
  shows "tracked k t t 1 (RecordDialFailConnection cops bops env t k dt)"
proof -
  let ?q = "next_stats dt"
  obtain b' where b: "tc_get bops t k (blacklist dt) = (None, b')"
    "\<And>t'. t \<le> t' \<Longrightarrow> live (bitem b') t' k = None"
    using get_blacklist [of t k "blacklist dt"] assms(1) by (metis option.map_disc_iff order_refl)
  obtain c' where g: "tc_getorset cops t k ?q (dialFailCache dt) = ((?q, False), c')"
    using c.getorset_res [of t k ?q "dialFailCache dt"] assms(2)
    by (cases "tc_getorset cops t k ?q (dialFailCache dt)") simp
  have m: "live (citem c') t' k = until ?q (t + dialFailCacheTTL) t'" if "t \<le> t'" for t'
    using c.getorset_live [OF that, of k ?q "dialFailCache dt"] assms(2) that g by simp
  have "RecordDialFailConnection cops bops env t k dt =
      dt\<lparr>blacklist := b', next_stats := Suc ?q, dialFailCache := c',
         stats := (stats dt)(?q := \<lparr>failCount = 1, firstConnTime = t\<rparr>)\<rparr>"
    by (simp add: RecordDialFailConnection_def b(1) g Let_def)
  then show ?thesis unfolding tracked_def using b(2) m by (auto intro!: exI [of _ ?q])
qed

lemma next_failure:
  assumes "tracked k t0 t j dt" and "t \<le> u" and "u < t + dialFailCacheTTL" and "u - t0 \<le> windowTime"
    and "j \<le> 500"
  shows "if j < 500 then tracked k t0 u (Suc j) (RecordDialFailConnection cops bops env u k dt)
    else listed k u u (RecordDialFailConnection cops bops env u k dt)"
proof -
  from assms(1) obtain p where p: "p < next_stats dt"
    "\<And>t'. t \<le> t' \<Longrightarrow> live (citem (dialFailCache dt)) t' k = until p (t + dialFailCacheTTL) t'"
    "stats dt p = \<lparr>failCount = of_nat j, firstConnTime = t0\<rparr>"
    and nb: "\<And>t'. t \<le> t' \<Longrightarrow> live (bitem (blacklist dt)) t' k = None"
    by (auto simp: tracked_def)
  let ?q = "next_stats dt"
  obtain b' where b: "tc_get bops u k (blacklist dt) = (None, b')"
    "\<And>t'. u \<le> t' \<Longrightarrow> live (bitem b') t' k = None"
    using get_blacklist [of u k "blacklist dt"] nb assms(2) by (metis option.map_disc_iff order_trans)
  obtain c' where g: "tc_getorset cops u k ?q (dialFailCache dt) = ((p, True), c')"
    using c.getorset_res [of u k ?q "dialFailCache dt"] p(2) [OF assms(2)] assms(3)
    by (cases "tc_getorset cops u k ?q (dialFailCache dt)") simp
  have m: "live (citem c') t' k = until p (u + dialFailCacheTTL) t'" if "u \<le> t'" for t'
    using c.getorset_live [OF that, of k ?q "dialFailCache dt"] p(2) [OF assms(2)] assms(3) g by simp
  have s: "live (bitem (tc_set bops u k u blacklistTTL b')) t' k = until u (u + blacklistTTL) t'" if "u \<le> t'" for t'
    using b.set_live [OF that, of k u blacklistTTL b'] by simp
  have th: "threshold <s word_of_nat j + 1 \<longleftrightarrow> \<not> j < 500"
    using threshold_sless [of "Suc j"] assms(5) by (auto simp: add.commute)
  obtain n where ten: "maxAttempts = Suc n" by (metis maxAttempts_def numeral_eq_Suc)
  have w: "\<not> windowTime < u - t0" using assms(4) by simp
  have "RecordDialFailConnection cops bops env u k dt =
      (let d = dt\<lparr>blacklist := b', next_stats := Suc ?q, dialFailCache := c',
         stats := (stats dt)(?q := \<lparr>failCount = 1, firstConnTime = u\<rparr>,
           p := \<lparr>failCount = of_nat j + 1, firstConnTime = t0\<rparr>)\<rparr> in
       if j < 500 then d
       else d\<lparr>blacklist := tc_set bops u k u blacklistTTL b', alarms := alarms dt @ [(k, of_nat j + 1)]\<rparr>)"
    using p(1) by (simp add: RecordDialFailConnection_def b(1) g ten w th p(3) Let_def)
  then show ?thesis
    unfolding tracked_def listed_def using p(1) b(2) m s
    by (auto simp: Let_def add.commute intro!: exI [of _ p])
qed

lemma listed_failure:
  assumes "listed k s t dt" and "t \<le> u" and "u < s + blacklistTTL"
  shows "listed k s u (RecordDialFailConnection cops bops env u k dt)"
proof -
  have l: "live (bitem (blacklist dt)) u k = Some (s, s + blacklistTTL)"
    using assms by (simp add: listed_def)
  obtain b' where "tc_get bops u k (blacklist dt) = (Some s, b')"
    "\<And>t'. u \<le> t' \<Longrightarrow> live (bitem b') t' = live (bitem (blacklist dt)) t'"
    using get_blacklist [of u k "blacklist dt"] l by (metis fst_conv option.simps(9))
  then show ?thesis using assms by (simp add: RecordDialFailConnection_def listed_def)
qed

lemma run_listed:
  assumes "listed k s t dt" and "dense t ts" and "\<forall>u \<in> set ts. u < s + blacklistTTL"
  shows "listed k s (last (t # ts)) (record_run cops bops k ts dt)"
  using assms
proof (induction ts arbitrary: t dt)
  case (Cons u ts)
  with listed_failure [of k s t dt u "\<lambda>_ s. s"] show ?case by simp
qed simp

lemma run_tracked:
  assumes "tracked k t0 t j dt" and "dense t ts" and "\<forall>u \<in> set ts. u - t0 \<le> windowTime" and "j \<le> 500"
    and "t0 \<le> t"
  shows "if j + length ts \<le> 500 then tracked k t0 (last (t # ts)) (j + length ts) (record_run cops bops k ts dt)
    else \<exists>s. t0 \<le> s \<and> listed k s (last (t # ts)) (record_run cops bops k ts dt)"
  using assms
proof (induction ts arbitrary: t j dt)
  case (Cons u ts)
  let ?dt = "RecordDialFailConnection cops bops (\<lambda>_ s. s) u k dt"
  have n: "if j < 500 then tracked k t0 u (Suc j) ?dt else listed k u u ?dt"
    using next_failure [of k t0 t j dt u] Cons.prems by simp
  show ?case
  proof (cases "j < 500")
    case True
    with n Cons.IH [of u "Suc j" ?dt] Cons.prems show ?thesis
      by (auto simp del: last.simps simp: last_ConsR split: if_splits)
  next
    case False
    have "\<forall>v \<in> set ts. v < u + blacklistTTL"
      using Cons.prems by (auto simp: tracker_consts) 
    with run_listed [of k u u ?dt ts] n False Cons.prems show ?thesis
      by (auto intro!: exI [of _ u])
  qed
qed simp

lemma IsBlacklisted_live: "fst (IsBlacklisted bops t k dt) \<longleftrightarrow> live (bitem (blacklist dt)) t k \<noteq> None"
  using b.get_res [of t k "blacklist dt"]
  by (cases "tc_get bops t k (blacklist dt)") (simp add: IsBlacklisted_def)

lemma tracked_not_blacklisted: "tracked k t0 t j dt \<Longrightarrow> \<not> fst (IsBlacklisted bops t k dt)"
  by (simp add: IsBlacklisted_live tracked_def)

lemma listed_blacklisted:
  "listed k s t dt \<Longrightarrow> t < s + blacklistTTL \<Longrightarrow> fst (IsBlacklisted bops t k dt)"
  by (simp add: IsBlacklisted_live listed_def)

end

text \<open>The tracker's two caches: a read prolongs a failure counter but not a blacklist entry.\<close>

interpretation tracker_map: tracker_caches "map_ops dialFailCacheTTL True" "\<lambda>c. c" "map_ops blacklistTTL False" "\<lambda>c. c"
  by (rule tracker_caches.intro) (rule live_map_ops)+

subsection \<open>Properties\<close>

text \<open>
  C22. A pair is blacklisted exactly at its 501st failure in a window: when failures of one pair are
  recorded one after the other, each less than ten seconds after the previous one and all within a
  minute of the first, the pair is blacklisted at the time of the last one if and only if there
  were more than 500 of them.
\<close>

theorem RecordDialFail_blacklists:
  assumes "ttl_cache cops citem dialFailCacheTTL True" and "ttl_cache bops bitem blacklistTTL False"
    and "\<forall>t' \<ge> t0. live (citem (dialFailCache dt)) t' k = None"
    and "\<forall>t' \<ge> t0. live (bitem (blacklist dt)) t' k = None"
    and "dense t0 ts" and "\<forall>u \<in> set ts. u - t0 \<le> windowTime"
  shows "fst (IsBlacklisted bops (last (t0 # ts)) k (record_run cops bops k (t0 # ts) dt)) \<longleftrightarrow>
    500 < length (t0 # ts)"
proof -
  note T = tracker_caches.intro [OF assms(1,2)]
  let ?dt = "RecordDialFailConnection cops bops (\<lambda>_ s. s) t0 k dt"
  let ?run = "record_run cops bops k ts ?dt" and ?t = "last (t0 # ts)"
  note run = tracker_caches.run_tracked [OF T tracker_caches.first_failure [OF T assms(4,3)] assms(5,6)]
  have t: "?t - t0 \<le> windowTime" using assms(6) by (auto simp: tracker_consts)
  show ?thesis
  proof (cases "1 + length ts \<le> 500")
    case True
    then have "tracker_caches.tracked citem bitem k t0 ?t (1 + length ts) ?run" using run by simp
    with tracker_caches.tracked_not_blacklisted [OF T this] True show ?thesis by simp
  next
    case False
    then obtain s where s: "t0 \<le> s" "tracker_caches.listed bitem k s ?t ?run"
      using run by auto
    then have "?t < s + blacklistTTL" using t unfolding windowTime_def blacklistTTL_def by linarith
    with tracker_caches.listed_blacklisted [OF T s(2)] False show ?thesis by simp
  qed
qed

definition tracker0 :: "(stats_addr ttl_map, int ttl_map) dial_fail_tracker" where
  "tracker0 = NewDialFailTracker Map.empty Map.empty"

lemma dense_replicate: "dense t (replicate n t)"
  by (induction n) (auto simp: tracker_consts)

theorem RecordDialFail_blacklists_witness:
  "fst (IsBlacklisted (map_ops blacklistTTL False) (last (0 # replicate 500 0)) ''a-b''
     (record_run (map_ops dialFailCacheTTL True) (map_ops blacklistTTL False) ''a-b'' (0 # replicate 500 0)
        tracker0))"
  using RecordDialFail_blacklists [OF live_map_ops live_map_ops, of 0 tracker0 "''a-b''" "replicate 500 0"]
  by (simp add: dense_replicate tracker0_def NewDialFailTracker_def live_def windowTime_def
      del: replicate.simps record_run.simps last.simps)

text \<open>
  Interference cannot lose the window reset nor loop: whatever other goroutines do between the
  reads and the compare-and-swaps, a recorded failure finishes within ten attempts; and if they
  leave the record alone in some attempt, a record older than the window is restarted with count
  one at the current time, without blacklisting.
\<close>

theorem record_loop_reset:
  assumes "i < n" and "\<forall>j \<le> i. now - firstConnTime ((env ^^ j) (stats dt p)) > windowTime"
    and "\<forall>j < i. firstConnTime ((env ^^ Suc j) (stats dt p)) \<noteq> firstConnTime ((env ^^ j) (stats dt p))"
    and "firstConnTime ((env ^^ Suc i) (stats dt p)) = firstConnTime ((env ^^ i) (stats dt p))"
  shows "record_loop bops (\<lambda>_. env) now k p a n dt =
    dt\<lparr>stats := (stats dt)(p := \<lparr>failCount = 1, firstConnTime = now\<rparr>)\<rparr>"
  using assms
proof (induction n arbitrary: i a dt)
  case (Suc n)
  show ?case
  proof (cases i)
    case 0
    with Suc.prems show ?thesis by (simp add: Let_def) (simp add: fun_upd_def)
  next
    case (Suc i')
    let ?dt = "dt\<lparr>stats := (stats dt)(p := env (stats dt p))\<rparr>"
    have f: "(env ^^ j) (env s) = (env ^^ Suc j) s" for j s by (simp add: funpow_swap1)
    have "now - firstConnTime (stats dt p) > windowTime"
      using Suc.prems(2) by (metis funpow_0 le0)
    moreover have "firstConnTime (env (stats dt p)) \<noteq> firstConnTime (stats dt p)"
      using Suc.prems(3) Suc by (metis funpow_0 funpow.simps(2) comp_apply zero_less_Suc)
    moreover have "record_loop bops (\<lambda>_. env) now k p (Suc a) n ?dt =
        ?dt\<lparr>stats := (stats ?dt)(p := \<lparr>failCount = 1, firstConnTime = now\<rparr>)\<rparr>"
    proof (rule Suc.IH [of i'])
      show "i' < n" using Suc.prems(1) Suc by simp
      show "\<forall>j \<le> i'. windowTime < now - firstConnTime ((env ^^ j) (stats ?dt p))"
        using Suc.prems(2) Suc by (simp add: f del: funpow.simps)
      show "\<forall>j < i'. firstConnTime ((env ^^ Suc j) (stats ?dt p)) \<noteq> firstConnTime ((env ^^ j) (stats ?dt p))"
        using Suc.prems(3) Suc by (simp add: f del: funpow.simps)
      show "firstConnTime ((env ^^ Suc i') (stats ?dt p)) = firstConnTime ((env ^^ i') (stats ?dt p))"
        using Suc.prems(4) Suc by (simp add: f del: funpow.simps)
    qed
    ultimately show ?thesis by (simp add: Let_def) (simp add: fun_upd_def)
  qed
qed simp

theorem record_loop_reset_witness:
  "firstConnTime (stats (record_loop (map_ops blacklistTTL False) (\<lambda>_ s. s) 100000 ''a-b'' 0 0 maxAttempts
     tracker0) 0) = 100000"
proof -
  have "record_loop (map_ops blacklistTTL False) (\<lambda>_ s. s) 100000 ''a-b'' 0 0 maxAttempts tracker0 =
      tracker0\<lparr>stats := (stats tracker0)(0 := \<lparr>failCount = 1, firstConnTime = 100000\<rparr>)\<rparr>"
    by (rule record_loop_reset [of 0]) (simp_all add: tracker_consts tracker0_def NewDialFailTracker_def)
  then show ?thesis by simp
qed

end
