(* ===== verification/ClientHello.thy ===== *)
theory ClientHello
  imports Prelude
begin

text \<open>
  \<^verbatim>\<open>server/sniffing/tls/client_hello.go\<close>: the parser that extracts the server name from the first
  bytes a client sends. It reads through \<^verbatim>\<open>golang.org/x/crypto/cryptobyte\<close>, a third-party package,
  which is a parameter here: a record \<open>cb_ops\<close> of the readers the parser calls, and the locale
  \<open>cryptobyte\<close> with their documented laws. A reader returns \<open>None\<close> where the Go method returns
  \<^verbatim>\<open>false\<close>, and the value read with the remaining input otherwise.

  The parser fills its receiver in place and the callers use the server name even when it returns
  an error, so every operation returns the message together with the error. The loops take fuel,
  one more than the bytes they iterate over; running out of it is the error value \<open>OutOfFuel\<close>,
  which the readers' laws exclude.
\<close>

record cb_ops =
  Empty :: "bytes \<Rightarrow> bool"
  Skip :: "nat \<Rightarrow> bytes \<Rightarrow> bytes option"
  ReadUint8 :: "bytes \<Rightarrow> (byte \<times> bytes) option"
  ReadUint16 :: "bytes \<Rightarrow> (16 word \<times> bytes) option"
  ReadUint32 :: "bytes \<Rightarrow> (32 word \<times> bytes) option"
  ReadBytes :: "nat \<Rightarrow> bytes \<Rightarrow> (bytes \<times> bytes) option"
  CopyBytes :: "nat \<Rightarrow> bytes \<Rightarrow> (bytes \<times> bytes) option"
  ReadUint8LengthPrefixed :: "bytes \<Rightarrow> (bytes \<times> bytes) option"
  ReadUint16LengthPrefixed :: "bytes \<Rightarrow> (bytes \<times> bytes) option"

subsection \<open>Data\<close>

definition scsvRenegotiation :: "16 word" where "scsvRenegotiation = 0x00ff"
definition statusTypeOCSP :: byte where "statusTypeOCSP = 1"

definition extensionServerName :: "16 word" where "extensionServerName = 0"
definition extensionStatusRequest :: "16 word" where "extensionStatusRequest = 5"
definition extensionSupportedCurves :: "16 word" where "extensionSupportedCurves = 10"
definition extensionSupportedPoints :: "16 word" where "extensionSupportedPoints = 11"
definition extensionSignatureAlgorithms :: "16 word" where "extensionSignatureAlgorithms = 13"
definition extensionALPN :: "16 word" where "extensionALPN = 16"
definition extensionSCT :: "16 word" where "extensionSCT = 18"
definition extensionExtendedMasterSecret :: "16 word" where "extensionExtendedMasterSecret = 23"
definition extensionSessionTicket :: "16 word" where "extensionSessionTicket = 35"
definition extensionPreSharedKey :: "16 word" where "extensionPreSharedKey = 41"
definition extensionEarlyData :: "16 word" where "extensionEarlyData = 42"
definition extensionSupportedVersions :: "16 word" where "extensionSupportedVersions = 43"
definition extensionCookie :: "16 word" where "extensionCookie = 44"
definition extensionPSKModes :: "16 word" where "extensionPSKModes = 45"
definition extensionSignatureAlgorithmsCert :: "16 word" where
  "extensionSignatureAlgorithmsCert = 50"
definition extensionKeyShare :: "16 word" where "extensionKeyShare = 51"
definition extensionQUICTransportParameters :: "16 word" where
  "extensionQUICTransportParameters = 57"
definition extensionRenegotiationInfo :: "16 word" where "extensionRenegotiationInfo = 0xff01"

lemmas extension_ids = extensionServerName_def extensionStatusRequest_def
  extensionSupportedCurves_def extensionSupportedPoints_def extensionSignatureAlgorithms_def
  extensionALPN_def extensionSCT_def extensionExtendedMasterSecret_def extensionSessionTicket_def
  extensionPreSharedKey_def extensionEarlyData_def extensionSupportedVersions_def
  extensionCookie_def extensionPSKModes_def extensionSignatureAlgorithmsCert_def
  extensionKeyShare_def extensionQUICTransportParameters_def extensionRenegotiationInfo_def

record keyShare =
  group :: "16 word"
  data :: bytes

record pskIdentity =
  label :: bytes
  obfuscatedTicketAge :: "32 word"

record ClientHelloMsg =
  Vers :: "16 word"
  Random :: bytes
  SessionId :: bytes
  CipherSuites :: "16 word list"
  CompressionMethods :: bytes
  ServerName :: string
  OcspStapling :: bool
  SupportedCurves :: "16 word list"
  SupportedPoints :: bytes
  TicketSupported :: bool
  SessionTicket :: bytes
  SupportedSignatureAlgorithms :: "16 word list"
  SupportedSignatureAlgorithmsCert :: "16 word list"
  SecureRenegotiationSupported :: bool
  SecureRenegotiation :: bytes
  ExtendedMasterSecret :: bool
  AlpnProtocols :: "string list"
  Scts :: bool
  SupportedVersions :: "16 word list"
  Cookie :: bytes
  KeyShares :: "keyShare list"
  EarlyData :: bool
  PskModes :: bytes
  PskIdentities :: "pskIdentity list"
  PskBinders :: "bytes list"
  QuicTransportParameters :: bytes
  EncryptedClientHello :: bytes

definition empty_hello :: ClientHelloMsg where
  "empty_hello = \<lparr>Vers = 0, Random = [], SessionId = [], CipherSuites = [], CompressionMethods = [],
     ServerName = '''', OcspStapling = False, SupportedCurves = [], SupportedPoints = [],
     TicketSupported = False, SessionTicket = [], SupportedSignatureAlgorithms = [],
     SupportedSignatureAlgorithmsCert = [], SecureRenegotiationSupported = False,
     SecureRenegotiation = [], ExtendedMasterSecret = False, AlpnProtocols = [], Scts = False,
     SupportedVersions = [], Cookie = [], KeyShares = [], EarlyData = False, PskModes = [],
     PskIdentities = [], PskBinders = [], QuicTransportParameters = [], EncryptedClientHello = []\<rparr>"

datatype hello_error = ErrLenBuf | ErrNotHandshake | ErrSkip | ErrCipherSuites | ErrCipherSuite
  | ErrCompressionMethods | ErrEmpty | ErrExtensions | ErrExtData | ErrSeenExts
  | ErrExtension "16 word" | ErrExtDataNotEmpty | OutOfFuel

type_synonym hello_result = "ClientHelloMsg \<times> hello_error option"

text \<open>What the handling of one extension does: it fails, it skips the final check (\<^verbatim>\<open>continue\<close>), or
  it leaves the unread rest of the extension data to the final check.\<close>

datatype ext_result = ExtFail ClientHelloMsg hello_error | ExtContinue ClientHelloMsg
  | ExtRead ClientHelloMsg bytes

subsection \<open>Loops\<close>

text \<open>The loops that read a list of 16-bit values (curves, signature schemes, versions).\<close>

fun u16_loop :: "cb_ops \<Rightarrow> hello_error \<Rightarrow> nat \<Rightarrow> bytes \<Rightarrow> 16 word list \<Rightarrow>
    16 word list \<times> hello_error option" where
  "u16_loop cb err 0 s acc = (acc, Some OutOfFuel)"
| "u16_loop cb err (Suc n) s acc =
     (if Empty cb s then (acc, None)
      else case ReadUint16 cb s of
        None \<Rightarrow> (acc, Some err)
      | Some (v, s') \<Rightarrow> u16_loop cb err n s' (acc @ [v]))"

fun suites_loop :: "cb_ops \<Rightarrow> nat \<Rightarrow> bytes \<Rightarrow> ClientHelloMsg \<Rightarrow> hello_result" where
  "suites_loop cb 0 s m = (m, Some OutOfFuel)"
| "suites_loop cb (Suc n) s m =
     (if Empty cb s then (m, None)
      else case ReadUint16 cb s of
        None \<Rightarrow> (m, Some ErrCipherSuite)
      | Some (suite, s') \<Rightarrow>
          (let m1 = (if suite = scsvRenegotiation then m\<lparr>SecureRenegotiationSupported := True\<rparr> else m)
           in suites_loop cb n s' (m1\<lparr>CipherSuites := CipherSuites m1 @ [suite]\<rparr>)))"

fun names_loop :: "cb_ops \<Rightarrow> nat \<Rightarrow> bytes \<Rightarrow> ClientHelloMsg \<Rightarrow> hello_result" where
  "names_loop cb 0 s m = (m, Some OutOfFuel)"
| "names_loop cb (Suc n) s m =
     (let err = Some (ErrExtension extensionServerName) in
      if Empty cb s then (m, None)
      else case ReadUint8 cb s of
        None \<Rightarrow> (m, err)
      | Some (nameType, s1) \<Rightarrow> (case ReadUint16LengthPrefixed cb s1 of
          None \<Rightarrow> (m, err)
        | Some (serverName, s2) \<Rightarrow>
            if Empty cb serverName then (m, err)
            else if nameType \<noteq> 0 then names_loop cb n s2 m
            else if length (ServerName m) \<noteq> 0 then (m, err)
            else (let m1 = m\<lparr>ServerName := string_of serverName\<rparr> in
                  if ServerName m1 \<noteq> [] \<and> last (ServerName m1) = CHR ''.'' then (m1, err)
                  else names_loop cb n s2 m1)))"

fun alpn_loop :: "cb_ops \<Rightarrow> nat \<Rightarrow> bytes \<Rightarrow> ClientHelloMsg \<Rightarrow> hello_result" where
  "alpn_loop cb 0 s m = (m, Some OutOfFuel)"
| "alpn_loop cb (Suc n) s m =
     (if Empty cb s then (m, None)
      else case ReadUint8LengthPrefixed cb s of
        None \<Rightarrow> (m, Some (ErrExtension extensionALPN))
      | Some (proto, s') \<Rightarrow>
          if Empty cb proto then (m, Some (ErrExtension extensionALPN))
          else alpn_loop cb n s' (m\<lparr>AlpnProtocols := AlpnProtocols m @ [string_of proto]\<rparr>))"

fun shares_loop :: "cb_ops \<Rightarrow> nat \<Rightarrow> bytes \<Rightarrow> ClientHelloMsg \<Rightarrow> hello_result" where
  "shares_loop cb 0 s m = (m, Some OutOfFuel)"
| "shares_loop cb (Suc n) s m =
     (let err = Some (ErrExtension extensionKeyShare) in
      if Empty cb s then (m, None)
      else case ReadUint16 cb s of
        None \<Rightarrow> (m, err)
      | Some (g, s1) \<Rightarrow> (case ReadUint16LengthPrefixed cb s1 of
          None \<Rightarrow> (m, err)
        | Some (d, s2) \<Rightarrow>
            if length d = 0 then (m, err)
            else shares_loop cb n s2 (m\<lparr>KeyShares := KeyShares m @ [\<lparr>group = g, data = d\<rparr>]\<rparr>)))"

fun identities_loop :: "cb_ops \<Rightarrow> nat \<Rightarrow> bytes \<Rightarrow> ClientHelloMsg \<Rightarrow> hello_result" where
  "identities_loop cb 0 s m = (m, Some OutOfFuel)"
| "identities_loop cb (Suc n) s m =
     (let err = Some (ErrExtension extensionPreSharedKey) in
      if Empty cb s then (m, None)
      else case ReadUint16LengthPrefixed cb s of
        None \<Rightarrow> (m, err)
      | Some (l, s1) \<Rightarrow> (case ReadUint32 cb s1 of
          None \<Rightarrow> (m, err)
        | Some (age, s2) \<Rightarrow>
            if length l = 0 then (m, err)
            else identities_loop cb n s2
              (m\<lparr>PskIdentities := PskIdentities m @ [\<lparr>label = l, obfuscatedTicketAge = age\<rparr>]\<rparr>)))"

fun binders_loop :: "cb_ops \<Rightarrow> nat \<Rightarrow> bytes \<Rightarrow> ClientHelloMsg \<Rightarrow> hello_result" where
  "binders_loop cb 0 s m = (m, Some OutOfFuel)"
| "binders_loop cb (Suc n) s m =
     (let err = Some (ErrExtension extensionPreSharedKey) in
      if Empty cb s then (m, None)
      else case ReadUint8LengthPrefixed cb s of
        None \<Rightarrow> (m, err)
      | Some (b, s') \<Rightarrow>
          if length b = 0 then (m, err)
          else binders_loop cb n s' (m\<lparr>PskBinders := PskBinders m @ [b]\<rparr>))"

subsection \<open>The extensions\<close>

definition ext_ServerName :: "cb_ops \<Rightarrow> bytes \<Rightarrow> ClientHelloMsg \<Rightarrow> ext_result" where
  "ext_ServerName cb extData m = (case ReadUint16LengthPrefixed cb extData of
     None \<Rightarrow> ExtFail m (ErrExtension extensionServerName)
   | Some (nameList, rest) \<Rightarrow>
       if Empty cb nameList then ExtFail m (ErrExtension extensionServerName)
       else case names_loop cb (Suc (length nameList)) nameList m of
         (m1, Some e) \<Rightarrow> ExtFail m1 e
       | (m1, None) \<Rightarrow> ExtRead m1 rest)"

definition ext_StatusRequest :: "cb_ops \<Rightarrow> bytes \<Rightarrow> ClientHelloMsg \<Rightarrow> ext_result" where
  "ext_StatusRequest cb extData m =
     (let err = ExtFail m (ErrExtension extensionStatusRequest) in
      case ReadUint8 cb extData of
        None \<Rightarrow> err
      | Some (statusType, s1) \<Rightarrow> (case ReadUint16LengthPrefixed cb s1 of
          None \<Rightarrow> err
        | Some (_, s2) \<Rightarrow> (case ReadUint16LengthPrefixed cb s2 of
            None \<Rightarrow> err
          | Some (_, s3) \<Rightarrow> ExtRead (m\<lparr>OcspStapling := (statusType = statusTypeOCSP)\<rparr>) s3)))"

definition ext_SupportedCurves :: "cb_ops \<Rightarrow> bytes \<Rightarrow> ClientHelloMsg \<Rightarrow> ext_result" where
  "ext_SupportedCurves cb extData m =
     (let err = ErrExtension extensionSupportedCurves in
      case ReadUint16LengthPrefixed cb extData of
        None \<Rightarrow> ExtFail m err
      | Some (curves, rest) \<Rightarrow>
          if Empty cb curves then ExtFail m err
          else case u16_loop cb err (Suc (length curves)) curves (SupportedCurves m) of
            (vs, Some e) \<Rightarrow> ExtFail (m\<lparr>SupportedCurves := vs\<rparr>) e
          | (vs, None) \<Rightarrow> ExtRead (m\<lparr>SupportedCurves := vs\<rparr>) rest)"

definition ext_SupportedPoints :: "cb_ops \<Rightarrow> bytes \<Rightarrow> ClientHelloMsg \<Rightarrow> ext_result" where
  "ext_SupportedPoints cb extData m =
     (let err = ErrExtension extensionSupportedPoints in
      case ReadUint8LengthPrefixed cb extData of
        None \<Rightarrow> ExtFail m err
      | Some (ps, rest) \<Rightarrow>
          if length ps = 0 then ExtFail (m\<lparr>SupportedPoints := ps\<rparr>) err
          else ExtRead (m\<lparr>SupportedPoints := ps\<rparr>) rest)"

definition ext_SessionTicket :: "cb_ops \<Rightarrow> bytes \<Rightarrow> ClientHelloMsg \<Rightarrow> ext_result" where
  "ext_SessionTicket cb extData m =
     (let m1 = m\<lparr>TicketSupported := True\<rparr> in
      case ReadBytes cb (length extData) extData of
        None \<Rightarrow> ExtRead m1 extData
      | Some (t, rest) \<Rightarrow> ExtRead (m1\<lparr>SessionTicket := t\<rparr>) rest)"

definition ext_SignatureAlgorithms :: "cb_ops \<Rightarrow> bytes \<Rightarrow> ClientHelloMsg \<Rightarrow> ext_result" where
  "ext_SignatureAlgorithms cb extData m =
     (let err = ErrExtension extensionSignatureAlgorithms in
      case ReadUint16LengthPrefixed cb extData of
        None \<Rightarrow> ExtFail m err
      | Some (sigs, rest) \<Rightarrow>
          if Empty cb sigs then ExtFail m err
          else case u16_loop cb err (Suc (length sigs)) sigs (SupportedSignatureAlgorithms m) of
            (vs, Some e) \<Rightarrow> ExtFail (m\<lparr>SupportedSignatureAlgorithms := vs\<rparr>) e
          | (vs, None) \<Rightarrow> ExtRead (m\<lparr>SupportedSignatureAlgorithms := vs\<rparr>) rest)"

definition ext_SignatureAlgorithmsCert :: "cb_ops \<Rightarrow> bytes \<Rightarrow> ClientHelloMsg \<Rightarrow> ext_result" where
  "ext_SignatureAlgorithmsCert cb extData m =
     (let err = ErrExtension extensionSignatureAlgorithmsCert in
      case ReadUint16LengthPrefixed cb extData of
        None \<Rightarrow> ExtFail m err
      | Some (sigs, rest) \<Rightarrow>
          if Empty cb sigs then ExtFail m err
          else case u16_loop cb err (Suc (length sigs)) sigs (SupportedSignatureAlgorithmsCert m) of
            (vs, Some e) \<Rightarrow> ExtFail (m\<lparr>SupportedSignatureAlgorithmsCert := vs\<rparr>) e
          | (vs, None) \<Rightarrow> ExtRead (m\<lparr>SupportedSignatureAlgorithmsCert := vs\<rparr>) rest)"

definition ext_RenegotiationInfo :: "cb_ops \<Rightarrow> bytes \<Rightarrow> ClientHelloMsg \<Rightarrow> ext_result" where
  "ext_RenegotiationInfo cb extData m = (case ReadUint8LengthPrefixed cb extData of
     None \<Rightarrow> ExtFail m (ErrExtension extensionRenegotiationInfo)
   | Some (d, rest) \<Rightarrow>
       ExtRead (m\<lparr>SecureRenegotiation := d, SecureRenegotiationSupported := True\<rparr>) rest)"

definition ext_ALPN :: "cb_ops \<Rightarrow> bytes \<Rightarrow> ClientHelloMsg \<Rightarrow> ext_result" where
  "ext_ALPN cb extData m = (case ReadUint16LengthPrefixed cb extData of
     None \<Rightarrow> ExtFail m (ErrExtension extensionALPN)
   | Some (protoList, rest) \<Rightarrow>
       if Empty cb protoList then ExtFail m (ErrExtension extensionALPN)
       else case alpn_loop cb (Suc (length protoList)) protoList m of
         (m1, Some e) \<Rightarrow> ExtFail m1 e
       | (m1, None) \<Rightarrow> ExtRead m1 rest)"

definition ext_SupportedVersions :: "cb_ops \<Rightarrow> bytes \<Rightarrow> ClientHelloMsg \<Rightarrow> ext_result" where
  "ext_SupportedVersions cb extData m =
     (let err = ErrExtension extensionSupportedVersions in
      case ReadUint8LengthPrefixed cb extData of
        None \<Rightarrow> ExtFail m err
      | Some (versList, rest) \<Rightarrow>
          if Empty cb versList then ExtFail m err
          else case u16_loop cb err (Suc (length versList)) versList (SupportedVersions m) of
            (vs, Some e) \<Rightarrow> ExtFail (m\<lparr>SupportedVersions := vs\<rparr>) e
          | (vs, None) \<Rightarrow> ExtRead (m\<lparr>SupportedVersions := vs\<rparr>) rest)"

definition ext_Cookie :: "cb_ops \<Rightarrow> bytes \<Rightarrow> ClientHelloMsg \<Rightarrow> ext_result" where
  "ext_Cookie cb extData m = (case ReadUint16LengthPrefixed cb extData of
     None \<Rightarrow> ExtFail m (ErrExtension extensionCookie)
   | Some (d, rest) \<Rightarrow>
       if length d = 0 then ExtFail (m\<lparr>Cookie := d\<rparr>) (ErrExtension extensionCookie)
       else ExtRead (m\<lparr>Cookie := d\<rparr>) rest)"

definition ext_KeyShare :: "cb_ops \<Rightarrow> bytes \<Rightarrow> ClientHelloMsg \<Rightarrow> ext_result" where
  "ext_KeyShare cb extData m = (case ReadUint16LengthPrefixed cb extData of
     None \<Rightarrow> ExtFail m (ErrExtension extensionKeyShare)
   | Some (clientShares, rest) \<Rightarrow>
       (case shares_loop cb (Suc (length clientShares)) clientShares m of
         (m1, Some e) \<Rightarrow> ExtFail m1 e
       | (m1, None) \<Rightarrow> ExtRead m1 rest))"

definition ext_PSKModes :: "cb_ops \<Rightarrow> bytes \<Rightarrow> ClientHelloMsg \<Rightarrow> ext_result" where
  "ext_PSKModes cb extData m = (case ReadUint8LengthPrefixed cb extData of
     None \<Rightarrow> ExtFail m (ErrExtension extensionPSKModes)
   | Some (d, rest) \<Rightarrow> ExtRead (m\<lparr>PskModes := d\<rparr>) rest)"

definition ext_QUICTransportParameters :: "cb_ops \<Rightarrow> bytes \<Rightarrow> ClientHelloMsg \<Rightarrow> ext_result" where
  "ext_QUICTransportParameters cb extData m =
     (case CopyBytes cb (length extData) extData of
       None \<Rightarrow> ExtFail (m\<lparr>QuicTransportParameters := replicate (length extData) 0\<rparr>)
           (ErrExtension extensionQUICTransportParameters)
     | Some (d, rest) \<Rightarrow> ExtRead (m\<lparr>QuicTransportParameters := d\<rparr>) rest)"

definition ext_PreSharedKey :: "cb_ops \<Rightarrow> bytes \<Rightarrow> bytes \<Rightarrow> ClientHelloMsg \<Rightarrow> ext_result" where
  "ext_PreSharedKey cb extensions extData m =
     (let err = ErrExtension extensionPreSharedKey in
      if \<not> Empty cb extensions then ExtFail m err
      else case ReadUint16LengthPrefixed cb extData of
        None \<Rightarrow> ExtFail m err
      | Some (identities, s1) \<Rightarrow>
          if Empty cb identities then ExtFail m err
          else case identities_loop cb (Suc (length identities)) identities m of
            (m1, Some e) \<Rightarrow> ExtFail m1 e
          | (m1, None) \<Rightarrow> (case ReadUint16LengthPrefixed cb s1 of
              None \<Rightarrow> ExtFail m1 err
            | Some (binders, s2) \<Rightarrow>
                if Empty cb binders then ExtFail m1 err
                else case binders_loop cb (Suc (length binders)) binders m1 of
                  (m2, Some e) \<Rightarrow> ExtFail m2 e
                | (m2, None) \<Rightarrow> ExtRead m2 s2))"

text \<open>The \<^verbatim>\<open>switch\<close> over the extension's number; \<open>extensions\<close> is what follows the extension.\<close>

definition handle_ext :: "cb_ops \<Rightarrow> 16 word \<Rightarrow> bytes \<Rightarrow> bytes \<Rightarrow> ClientHelloMsg \<Rightarrow> ext_result" where
  "handle_ext cb extension extensions extData m =
     (if extension = extensionServerName then ext_ServerName cb extData m
      else if extension = extensionStatusRequest then ext_StatusRequest cb extData m
      else if extension = extensionSupportedCurves then ext_SupportedCurves cb extData m
      else if extension = extensionSupportedPoints then ext_SupportedPoints cb extData m
      else if extension = extensionSessionTicket then ext_SessionTicket cb extData m
      else if extension = extensionSignatureAlgorithms then ext_SignatureAlgorithms cb extData m
      else if extension = extensionSignatureAlgorithmsCert then ext_SignatureAlgorithmsCert cb extData m
      else if extension = extensionRenegotiationInfo then ext_RenegotiationInfo cb extData m
      else if extension = extensionExtendedMasterSecret
        then ExtRead (m\<lparr>ExtendedMasterSecret := True\<rparr>) extData
      else if extension = extensionALPN then ext_ALPN cb extData m
      else if extension = extensionSCT then ExtRead (m\<lparr>Scts := True\<rparr>) extData
      else if extension = extensionSupportedVersions then ext_SupportedVersions cb extData m
      else if extension = extensionCookie then ext_Cookie cb extData m
      else if extension = extensionKeyShare then ext_KeyShare cb extData m
      else if extension = extensionEarlyData then ExtRead (m\<lparr>EarlyData := True\<rparr>) extData
      else if extension = extensionPSKModes then ext_PSKModes cb extData m
      else if extension = extensionQUICTransportParameters then ext_QUICTransportParameters cb extData m
      else if extension = extensionPreSharedKey then ext_PreSharedKey cb extensions extData m
      else ExtContinue m)"

fun extensions_loop :: "cb_ops \<Rightarrow> nat \<Rightarrow> bytes \<Rightarrow> 16 word list \<Rightarrow> ClientHelloMsg \<Rightarrow> hello_result" where
  "extensions_loop cb 0 s seenExts m = (m, Some OutOfFuel)"
| "extensions_loop cb (Suc n) s seenExts m =
     (if Empty cb s then (m, None)
      else case ReadUint16 cb s of
        None \<Rightarrow> (m, Some ErrExtData)
      | Some (extension, s1) \<Rightarrow> (case ReadUint16LengthPrefixed cb s1 of
          None \<Rightarrow> (m, Some ErrExtData)
        | Some (extData, s2) \<Rightarrow>
            if extension \<in> set seenExts then (m, Some ErrSeenExts)
            else (case handle_ext cb extension s2 extData m of
                ExtFail m1 e \<Rightarrow> (m1, Some e)
              | ExtContinue m1 \<Rightarrow> extensions_loop cb n s2 (extension # seenExts) m1
              | ExtRead m1 rest \<Rightarrow>
                  if \<not> Empty cb rest then (m1, Some ErrExtDataNotEmpty)
                  else extensions_loop cb n s2 (extension # seenExts) m1)))"

subsection \<open>The message\<close>

definition unmarshal_header :: "cb_ops \<Rightarrow> bytes \<Rightarrow> ClientHelloMsg \<times> bytes option" where
  "unmarshal_header cb s = (case Skip cb 4 s of
     None \<Rightarrow> (empty_hello, None)
   | Some s1 \<Rightarrow> (case ReadUint16 cb s1 of
       None \<Rightarrow> (empty_hello, None)
     | Some (v, s2) \<Rightarrow>
         (let m1 = empty_hello\<lparr>Vers := v\<rparr> in
          case ReadBytes cb 32 s2 of
            None \<Rightarrow> (m1, None)
          | Some (r, s3) \<Rightarrow>
              (let m2 = m1\<lparr>Random := r\<rparr> in
               case ReadUint8LengthPrefixed cb s3 of
                 None \<Rightarrow> (m2, None)
               | Some (sid, s4) \<Rightarrow> (m2\<lparr>SessionId := sid\<rparr>, Some s4)))))"

definition unmarshal_extensions :: "cb_ops \<Rightarrow> bytes \<Rightarrow> ClientHelloMsg \<Rightarrow> hello_result" where
  "unmarshal_extensions cb s m =
     (if Empty cb s then (m, Some ErrEmpty)
      else case ReadUint16LengthPrefixed cb s of
        None \<Rightarrow> (m, Some ErrExtensions)
      | Some (extensions, rest) \<Rightarrow>
          if \<not> Empty cb rest then (m, Some ErrExtensions)
          else extensions_loop cb (Suc (length extensions)) extensions [] m)"

definition unmarshal :: "cb_ops \<Rightarrow> bytes \<Rightarrow> hello_result" where
  "unmarshal cb d = (case unmarshal_header cb d of
     (m, None) \<Rightarrow> (m, Some ErrSkip)
   | (m, Some s) \<Rightarrow> (case ReadUint16LengthPrefixed cb s of
       None \<Rightarrow> (m, Some ErrCipherSuites)
     | Some (cipherSuites, s1) \<Rightarrow>
         (case suites_loop cb (Suc (length cipherSuites)) cipherSuites
             (m\<lparr>CipherSuites := [], SecureRenegotiationSupported := False\<rparr>) of
           (m1, Some e) \<Rightarrow> (m1, Some e)
         | (m1, None) \<Rightarrow> (case ReadUint8LengthPrefixed cb s1 of
             None \<Rightarrow> (m1, Some ErrCompressionMethods)
           | Some (cm, s2) \<Rightarrow> unmarshal_extensions cb s2 (m1\<lparr>CompressionMethods := cm\<rparr>)))))"

text \<open>\<^verbatim>\<open>buf[5:]\<close> panics when the slice has fewer than five bytes.\<close>

definition UnmarshalByByte :: "cb_ops \<Rightarrow> bytes \<Rightarrow> ClientHelloMsg \<Rightarrow> hello_result outcome" where
  "UnmarshalByByte cb buf m =
     (if length buf = 0 then Ret (m, Some ErrLenBuf)
      else if buf ! 0 \<noteq> 0x16 then Ret (m, Some ErrNotHandshake)
      else if length buf < 5 then Panic
      else Ret (unmarshal cb (drop 5 buf)))"

subsection \<open>The contract of the readers\<close>

text \<open>
  The documented behaviour of \<^verbatim>\<open>cryptobyte.String\<close>: integers are big-endian, a length-prefixed
  value is its length followed by that many bytes, and a read succeeds exactly when the input is
  long enough and then advances over what it read.
\<close>

definition enc16 :: "16 word \<Rightarrow> bytes" where
  "enc16 w = to_be 2 (unat w)"

definition enc32 :: "32 word \<Rightarrow> bytes" where
  "enc32 w = to_be 4 (unat w)"

definition prefixed8 :: "bytes \<Rightarrow> bytes" where
  "prefixed8 d = of_nat (length d) # d"

definition prefixed16 :: "bytes \<Rightarrow> bytes" where
  "prefixed16 d = enc16 (of_nat (length d)) @ d"

locale cryptobyte =
  fixes cb :: cb_ops
  assumes Empty_law: "Empty cb s \<longleftrightarrow> s = []"
    and Skip_law: "Skip cb n s = (if n \<le> length s then Some (drop n s) else None)"
    and ReadUint8_law: "ReadUint8 cb s = Some (b, r) \<longleftrightarrow> s = b # r"
    and ReadUint16_law: "ReadUint16 cb s = Some (w, r) \<longleftrightarrow> s = enc16 w @ r"
    and ReadUint32_law: "ReadUint32 cb s = Some (x, r) \<longleftrightarrow> s = enc32 x @ r"
    and ReadBytes_law:
      "ReadBytes cb n s = (if n \<le> length s then Some (take n s, drop n s) else None)"
    and CopyBytes_law:
      "CopyBytes cb n s = (if n \<le> length s then Some (take n s, drop n s) else None)"
    and Read8_law: "ReadUint8LengthPrefixed cb s = Some (d, r) \<longleftrightarrow>
      s = prefixed8 d @ r \<and> length d < 256"
    and Read16_law: "ReadUint16LengthPrefixed cb s = Some (d, r) \<longleftrightarrow>
      s = prefixed16 d @ r \<and> length d < 65536"

definition dec16 :: "bytes \<Rightarrow> (16 word \<times> bytes) option" where
  "dec16 s = (if length s < 2 then None else Some (of_nat (be (take 2 s)), drop 2 s))"

definition dec32 :: "bytes \<Rightarrow> (32 word \<times> bytes) option" where
  "dec32 s = (if length s < 4 then None else Some (of_nat (be (take 4 s)), drop 4 s))"

definition dec_prefixed :: "nat \<Rightarrow> bytes \<Rightarrow> (bytes \<times> bytes) option" where
  "dec_prefixed n s = (if n \<le> length s then Some (take n s, drop n s) else None)"

definition big_endian_readers :: cb_ops where
  "big_endian_readers = \<lparr>
     Empty = (\<lambda>s. s = []),
     Skip = (\<lambda>n s. if n \<le> length s then Some (drop n s) else None),
     ReadUint8 = (\<lambda>s. if s = [] then None else Some (hd s, tl s)),
     ReadUint16 = dec16,
     ReadUint32 = dec32,
     ReadBytes = dec_prefixed,
     CopyBytes = dec_prefixed,
     ReadUint8LengthPrefixed = (\<lambda>s. if s = [] then None else dec_prefixed (unat (hd s)) (tl s)),
     ReadUint16LengthPrefixed = (\<lambda>s. case dec16 s of None \<Rightarrow> None
       | Some (w, r) \<Rightarrow> dec_prefixed (unat w) r)\<rparr>"

lemma length_enc16 [simp]: "length (enc16 w) = 2"
  by (simp add: enc16_def)

lemma length_enc32 [simp]: "length (enc32 w) = 4"
  by (simp add: enc32_def)

lemma dec16_iff: "dec16 s = Some (w, r) \<longleftrightarrow> s = enc16 w @ r"
proof -
  have w: "unat w < 256 ^ 2" using unsigned_less [of w] by simp
  have b: "2 \<le> length s \<Longrightarrow> be (take 2 s) < 65536" using be_less [of "take 2 s"] by simp
  have "dec16 s = Some (w, r) \<longleftrightarrow> be (take 2 s) = unat w \<and> 2 \<le> length s \<and> drop 2 s = r"
    using b by (auto simp: dec16_def unat_of_nat take_bit_eq_mod)
  then show ?thesis unfolding enc16_def using be_append_exact [OF _ w] by simp
qed

lemma dec32_iff: "dec32 s = Some (w, r) \<longleftrightarrow> s = enc32 w @ r"
proof -
  have w: "unat w < 256 ^ 4" using unsigned_less [of w] by simp
  have b: "4 \<le> length s \<Longrightarrow> be (take 4 s) < 4294967296" using be_less [of "take 4 s"] by simp
  have "dec32 s = Some (w, r) \<longleftrightarrow> be (take 4 s) = unat w \<and> 4 \<le> length s \<and> drop 4 s = r"
    using b by (auto simp: dec32_def unat_of_nat take_bit_eq_mod)
  then show ?thesis unfolding enc32_def using be_append_exact [OF _ w] by simp
qed

lemma dec_prefixed_iff: "dec_prefixed n s = Some (d, r) \<longleftrightarrow> s = d @ r \<and> length d = n"
  by (auto simp: dec_prefixed_def intro: append_take_drop_id [symmetric])

interpretation be: cryptobyte big_endian_readers
proof
  fix s d r :: bytes and b :: byte and w :: "16 word" and x :: "32 word" and n :: nat
  show "ReadUint8LengthPrefixed big_endian_readers s = Some (d, r) \<longleftrightarrow>
      s = prefixed8 d @ r \<and> length d < 256"
    by (cases s) (auto simp: big_endian_readers_def dec_prefixed_iff prefixed8_def unat_of_nat_byte)
  show "ReadUint16LengthPrefixed big_endian_readers s = Some (d, r) \<longleftrightarrow>
      s = prefixed16 d @ r \<and> length d < 65536"
  proof -
    have u: "length d < 65536 \<Longrightarrow> unat (of_nat (length d) :: 16 word) = length d"
      by (simp add: unat_of_nat take_bit_eq_mod)
    have l: "unat v < 65536" for v :: "16 word" using unsigned_less [of v] by simp
    have "ReadUint16LengthPrefixed big_endian_readers s = Some (d, r) \<longleftrightarrow>
        (\<exists>v. dec16 s = Some (v, d @ r) \<and> length d = unat v)"
      by (auto simp: big_endian_readers_def dec_prefixed_iff split: option.splits)
    also have "\<dots> \<longleftrightarrow> s = prefixed16 d @ r \<and> length d < 65536"
      unfolding dec16_iff prefixed16_def using u l by auto
    finally show ?thesis .
  qed
qed (auto simp: big_endian_readers_def dec16_iff dec32_iff dec_prefixed_def
    split: if_splits intro: list.collapse)

subsection \<open>The wire format as a specification\<close>

text \<open>
  The handshake message as RFC 8446 describes it: its fixed fields and a list of extensions, each
  with the data the parser keeps of it. \<open>ext_body\<close> and \<open>encode_hello\<close> are the encoding, \<open>ext_ok\<close>
  and \<open>hello_ok\<close> the conditions of the format, and \<open>ext_apply\<close> what an extension means for the
  parsed message.
\<close>

datatype ext = ServerNameExt "(byte \<times> string) list" | StatusRequestExt byte bytes bytes
  | CurvesExt "16 word list" | PointsExt bytes | TicketExt bytes | SigAlgsExt "16 word list"
  | SigAlgsCertExt "16 word list" | RenegotiationExt bytes | MasterSecretExt | ALPNExt "string list"
  | SCTExt | VersionsExt "16 word list" | CookieExt bytes | KeyShareExt "keyShare list"
  | EarlyDataExt | PSKModesExt bytes | QUICExt bytes | PSKExt "pskIdentity list" "bytes list"
  | UnknownExt "16 word" bytes

primrec ext_id :: "ext \<Rightarrow> 16 word" where
  "ext_id (ServerNameExt ns) = 0"
| "ext_id (StatusRequestExt t a b) = 5"
| "ext_id (CurvesExt vs) = 10"
| "ext_id (PointsExt d) = 11"
| "ext_id (TicketExt d) = 35"
| "ext_id (SigAlgsExt vs) = 13"
| "ext_id (SigAlgsCertExt vs) = 50"
| "ext_id (RenegotiationExt d) = 0xff01"
| "ext_id MasterSecretExt = 23"
| "ext_id (ALPNExt ps) = 16"
| "ext_id SCTExt = 18"
| "ext_id (VersionsExt vs) = 43"
| "ext_id (CookieExt d) = 44"
| "ext_id (KeyShareExt ks) = 51"
| "ext_id EarlyDataExt = 42"
| "ext_id (PSKModesExt d) = 45"
| "ext_id (QUICExt d) = 57"
| "ext_id (PSKExt ids bs) = 41"
| "ext_id (UnknownExt i d) = i"

definition known_ids :: "16 word list" where
  "known_ids = [0, 5, 10, 11, 35, 13, 50, 0xff01, 23, 16, 18, 43, 44, 51, 42, 45, 57, 41]"

primrec ext_body :: "ext \<Rightarrow> bytes" where
  "ext_body (ServerNameExt ns) = prefixed16 (concat (map (\<lambda>(t, n). t # prefixed16 (bytes_of n)) ns))"
| "ext_body (StatusRequestExt t a b) = t # prefixed16 a @ prefixed16 b"
| "ext_body (CurvesExt vs) = prefixed16 (concat (map enc16 vs))"
| "ext_body (PointsExt d) = prefixed8 d"
| "ext_body (TicketExt d) = d"
| "ext_body (SigAlgsExt vs) = prefixed16 (concat (map enc16 vs))"
| "ext_body (SigAlgsCertExt vs) = prefixed16 (concat (map enc16 vs))"
| "ext_body (RenegotiationExt d) = prefixed8 d"
| "ext_body MasterSecretExt = []"
| "ext_body (ALPNExt ps) = prefixed16 (concat (map (\<lambda>p. prefixed8 (bytes_of p)) ps))"
| "ext_body SCTExt = []"
| "ext_body (VersionsExt vs) = prefixed8 (concat (map enc16 vs))"
| "ext_body (CookieExt d) = prefixed16 d"
| "ext_body (KeyShareExt ks) = prefixed16 (concat (map (\<lambda>k. enc16 (group k) @ prefixed16 (data k)) ks))"
| "ext_body EarlyDataExt = []"
| "ext_body (PSKModesExt d) = prefixed8 d"
| "ext_body (QUICExt d) = d"
| "ext_body (PSKExt ids bs) =
     prefixed16 (concat (map (\<lambda>p. prefixed16 (label p) @ enc32 (obfuscatedTicketAge p)) ids)) @
     prefixed16 (concat (map prefixed8 bs))"
| "ext_body (UnknownExt i d) = d"

definition host_names :: "(byte \<times> string) list \<Rightarrow> string list" where
  "host_names ns = map snd (filter (\<lambda>(t, n). t = 0) ns)"

primrec ext_ok :: "ext \<Rightarrow> bool" where
  "ext_ok (ServerNameExt ns) = (ns \<noteq> [] \<and> (\<forall>(t, n) \<in> set ns. n \<noteq> '''') \<and>
     length (host_names ns) \<le> 1 \<and> (\<forall>n \<in> set (host_names ns). last n \<noteq> CHR ''.''))"
| "ext_ok (StatusRequestExt t a b) = True"
| "ext_ok (CurvesExt vs) = (vs \<noteq> [])"
| "ext_ok (PointsExt d) = (d \<noteq> [] \<and> length d < 256)"
| "ext_ok (TicketExt d) = True"
| "ext_ok (SigAlgsExt vs) = (vs \<noteq> [])"
| "ext_ok (SigAlgsCertExt vs) = (vs \<noteq> [])"
| "ext_ok (RenegotiationExt d) = (length d < 256)"
| "ext_ok MasterSecretExt = True"
| "ext_ok (ALPNExt ps) = (ps \<noteq> [] \<and> (\<forall>p \<in> set ps. p \<noteq> '''' \<and> length p < 256))"
| "ext_ok SCTExt = True"
| "ext_ok (VersionsExt vs) = (vs \<noteq> [] \<and> length vs < 128)"
| "ext_ok (CookieExt d) = (d \<noteq> [])"
| "ext_ok (KeyShareExt ks) = (\<forall>k \<in> set ks. data k \<noteq> [])"
| "ext_ok EarlyDataExt = True"
| "ext_ok (PSKModesExt d) = (length d < 256)"
| "ext_ok (QUICExt d) = True"
| "ext_ok (PSKExt ids bs) = (ids \<noteq> [] \<and> bs \<noteq> [] \<and> (\<forall>p \<in> set ids. label p \<noteq> []) \<and>
     (\<forall>b \<in> set bs. b \<noteq> [] \<and> length b < 256))"
| "ext_ok (UnknownExt i d) = (i \<notin> set known_ids)"

primrec ext_apply :: "ext \<Rightarrow> ClientHelloMsg \<Rightarrow> ClientHelloMsg" where
  "ext_apply (ServerNameExt ns) m =
     (case host_names ns of [] \<Rightarrow> m | n # _ \<Rightarrow> m\<lparr>ServerName := n\<rparr>)"
| "ext_apply (StatusRequestExt t a b) m = m\<lparr>OcspStapling := (t = 1)\<rparr>"
| "ext_apply (CurvesExt vs) m = m\<lparr>SupportedCurves := SupportedCurves m @ vs\<rparr>"
| "ext_apply (PointsExt d) m = m\<lparr>SupportedPoints := d\<rparr>"
| "ext_apply (TicketExt d) m = m\<lparr>TicketSupported := True, SessionTicket := d\<rparr>"
| "ext_apply (SigAlgsExt vs) m =
     m\<lparr>SupportedSignatureAlgorithms := SupportedSignatureAlgorithms m @ vs\<rparr>"
| "ext_apply (SigAlgsCertExt vs) m =
     m\<lparr>SupportedSignatureAlgorithmsCert := SupportedSignatureAlgorithmsCert m @ vs\<rparr>"
| "ext_apply (RenegotiationExt d) m = m\<lparr>SecureRenegotiation := d, SecureRenegotiationSupported := True\<rparr>"
| "ext_apply MasterSecretExt m = m\<lparr>ExtendedMasterSecret := True\<rparr>"
| "ext_apply (ALPNExt ps) m = m\<lparr>AlpnProtocols := AlpnProtocols m @ ps\<rparr>"
| "ext_apply SCTExt m = m\<lparr>Scts := True\<rparr>"
| "ext_apply (VersionsExt vs) m = m\<lparr>SupportedVersions := SupportedVersions m @ vs\<rparr>"
| "ext_apply (CookieExt d) m = m\<lparr>Cookie := d\<rparr>"
| "ext_apply (KeyShareExt ks) m = m\<lparr>KeyShares := KeyShares m @ ks\<rparr>"
| "ext_apply EarlyDataExt m = m\<lparr>EarlyData := True\<rparr>"
| "ext_apply (PSKModesExt d) m = m\<lparr>PskModes := d\<rparr>"
| "ext_apply (QUICExt d) m = m\<lparr>QuicTransportParameters := d\<rparr>"
| "ext_apply (PSKExt ids bs) m =
     m\<lparr>PskIdentities := PskIdentities m @ ids, PskBinders := PskBinders m @ bs\<rparr>"
| "ext_apply (UnknownExt i d) m = m"

record hello =
  h_vers :: "16 word"
  h_random :: bytes
  h_session :: bytes
  h_suites :: "16 word list"
  h_compression :: bytes
  h_exts :: "ext list"

definition encode_ext :: "ext \<Rightarrow> bytes" where
  "encode_ext e = enc16 (ext_id e) @ prefixed16 (ext_body e)"

definition encode_hello :: "hello \<Rightarrow> bytes" where
  "encode_hello h = enc16 (h_vers h) @ h_random h @ prefixed8 (h_session h) @
     prefixed16 (concat (map enc16 (h_suites h))) @ prefixed8 (h_compression h) @
     prefixed16 (concat (map encode_ext (h_exts h)))"

text \<open>A pre-shared-key extension is the last one, and no extension occurs twice.\<close>

definition hello_ok :: "hello \<Rightarrow> bool" where
  "hello_ok h \<longleftrightarrow> length (h_random h) = 32 \<and> length (h_session h) < 256 \<and>
     length (h_suites h) < 32768 \<and> length (h_compression h) < 256 \<and>
     length (concat (map encode_ext (h_exts h))) < 65536 \<and>
     distinct (map ext_id (h_exts h)) \<and> (\<forall>e \<in> set (h_exts h). ext_ok e) \<and>
     (\<forall>e \<in> set (butlast (h_exts h)). ext_id e \<noteq> 41)"

definition hello_msg :: "hello \<Rightarrow> ClientHelloMsg" where
  "hello_msg h = fold ext_apply (h_exts h) (empty_hello\<lparr>Vers := h_vers h, Random := h_random h,
     SessionId := h_session h, CipherSuites := h_suites h,
     SecureRenegotiationSupported := (scsvRenegotiation \<in> set (h_suites h)),
     CompressionMethods := h_compression h\<rparr>)"

subsection \<open>Consequences of the readers' contract\<close>

lemma length_prefixed [simp]:
  "length (prefixed8 d) = Suc (length d)" "length (prefixed16 d) = length d + 2"
  by (simp_all add: prefixed8_def prefixed16_def)

lemma length_enc16s [simp]: "length (concat (map enc16 vs)) = 2 * length vs"
  by (induction vs) auto

lemma concat_enc16_Nil [simp]: "concat (map enc16 vs) = [] \<longleftrightarrow> vs = []"
  by (metis length_enc16s length_0_conv mult_eq_0_iff zero_neq_numeral)

lemma prefixed_not_Nil [simp]: "prefixed8 d \<noteq> []" "prefixed16 d \<noteq> []" "enc16 w \<noteq> []"
  by (auto dest: arg_cong [of _ _ length])

context cryptobyte begin

lemma Empty_iff [simp]: "Empty cb s \<longleftrightarrow> s = []"
  by (rule Empty_law)

lemma read_simps [simp]:
  "ReadUint8 cb (b # r) = Some (b, r)"
  "ReadUint16 cb (enc16 w @ r) = Some (w, r)"
  "ReadUint32 cb (enc32 x @ r) = Some (x, r)"
  "length d < 256 \<Longrightarrow> ReadUint8LengthPrefixed cb (prefixed8 d @ r) = Some (d, r)"
  "length d < 256 \<Longrightarrow> ReadUint8LengthPrefixed cb (prefixed8 d) = Some (d, [])"
  "length d < 65536 \<Longrightarrow> ReadUint16LengthPrefixed cb (prefixed16 d @ r) = Some (d, r)"
  "length d < 65536 \<Longrightarrow> ReadUint16LengthPrefixed cb (prefixed16 d) = Some (d, [])"
  "ReadBytes cb (length s) s = Some (s, [])" "CopyBytes cb (length s) s = Some (s, [])"
  by (simp_all add: ReadUint8_law ReadUint16_law ReadUint32_law Read8_law Read16_law
      ReadBytes_law CopyBytes_law)

lemma read_shorter:
  "ReadUint8 cb s = Some (b, r) \<Longrightarrow> length r < length s"
  "ReadUint16 cb s = Some (w, r) \<Longrightarrow> length r < length s"
  "ReadUint32 cb s = Some (x, r) \<Longrightarrow> length r < length s"
  "ReadUint8LengthPrefixed cb s = Some (d, r) \<Longrightarrow> length r < length s"
  "ReadUint16LengthPrefixed cb s = Some (d, r) \<Longrightarrow> length r < length s"
  by (auto simp: ReadUint8_law ReadUint16_law ReadUint32_law Read8_law Read16_law)

text \<open>No loop runs out of fuel.\<close>

lemma u16_loop_fuel: "length s < n \<Longrightarrow> err \<noteq> OutOfFuel \<Longrightarrow> snd (u16_loop cb err n s acc) \<noteq> Some OutOfFuel"
  by (induction n arbitrary: s acc)
    (auto dest!: read_shorter split: option.splits prod.splits)

lemma suites_loop_fuel: "length s < n \<Longrightarrow> snd (suites_loop cb n s m) \<noteq> Some OutOfFuel"
  by (induction n arbitrary: s m)
    (auto simp: Let_def dest!: read_shorter split: option.splits prod.splits)

lemma names_loop_fuel: "length s < n \<Longrightarrow> snd (names_loop cb n s m) \<noteq> Some OutOfFuel"
  by (induction n arbitrary: s m)
    (auto simp: Let_def dest!: read_shorter split: option.splits prod.splits)

lemma alpn_loop_fuel: "length s < n \<Longrightarrow> snd (alpn_loop cb n s m) \<noteq> Some OutOfFuel"
  by (induction n arbitrary: s m)
    (auto simp: Let_def dest!: read_shorter split: option.splits prod.splits)

lemma shares_loop_fuel: "length s < n \<Longrightarrow> snd (shares_loop cb n s m) \<noteq> Some OutOfFuel"
  by (induction n arbitrary: s m)
    (auto simp: Let_def dest!: read_shorter split: option.splits prod.splits)

lemma identities_loop_fuel: "length s < n \<Longrightarrow> snd (identities_loop cb n s m) \<noteq> Some OutOfFuel"
  by (induction n arbitrary: s m)
    (auto simp: Let_def dest!: read_shorter split: option.splits prod.splits)

lemma binders_loop_fuel: "length s < n \<Longrightarrow> snd (binders_loop cb n s m) \<noteq> Some OutOfFuel"
  by (induction n arbitrary: s m)
    (auto simp: Let_def dest!: read_shorter split: option.splits prod.splits)

lemmas loop_fuel = suites_loop_fuel names_loop_fuel alpn_loop_fuel shares_loop_fuel
  identities_loop_fuel binders_loop_fuel

lemma loop_fuel_Suc:
  "err \<noteq> OutOfFuel \<Longrightarrow> u16_loop cb err (Suc (length s)) s acc \<noteq> (vs, Some OutOfFuel)"
  "suites_loop cb (Suc (length s)) s m \<noteq> (m', Some OutOfFuel)"
  "names_loop cb (Suc (length s)) s m \<noteq> (m', Some OutOfFuel)"
  "alpn_loop cb (Suc (length s)) s m \<noteq> (m', Some OutOfFuel)"
  "shares_loop cb (Suc (length s)) s m \<noteq> (m', Some OutOfFuel)"
  "identities_loop cb (Suc (length s)) s m \<noteq> (m', Some OutOfFuel)"
  "binders_loop cb (Suc (length s)) s m \<noteq> (m', Some OutOfFuel)"
  using u16_loop_fuel [of s "Suc (length s)" err acc] loop_fuel [of s "Suc (length s)" m]
  by (metis lessI snd_conv)+

lemma ext_fuel_loops:
  "ext_ServerName cb s m \<noteq> ExtFail m' OutOfFuel"
  "ext_SupportedCurves cb s m \<noteq> ExtFail m' OutOfFuel"
  "ext_SignatureAlgorithms cb s m \<noteq> ExtFail m' OutOfFuel"
  "ext_SignatureAlgorithmsCert cb s m \<noteq> ExtFail m' OutOfFuel"
  "ext_ALPN cb s m \<noteq> ExtFail m' OutOfFuel"
  "ext_SupportedVersions cb s m \<noteq> ExtFail m' OutOfFuel"
  "ext_KeyShare cb s m \<noteq> ExtFail m' OutOfFuel"
  "ext_PreSharedKey cb exts s m \<noteq> ExtFail m' OutOfFuel"
  by (auto simp: ext_ServerName_def ext_SupportedCurves_def ext_SignatureAlgorithms_def ext_SignatureAlgorithmsCert_def ext_ALPN_def ext_SupportedVersions_def ext_KeyShare_def ext_PreSharedKey_def
      Let_def loop_fuel_Suc split: option.splits prod.splits if_splits
      simp del: u16_loop.simps names_loop.simps alpn_loop.simps shares_loop.simps
        identities_loop.simps binders_loop.simps)

lemma ext_fuel_reads:
  "ext_StatusRequest cb s m \<noteq> ExtFail m' OutOfFuel"
  "ext_SupportedPoints cb s m \<noteq> ExtFail m' OutOfFuel"
  "ext_SessionTicket cb s m \<noteq> ExtFail m' OutOfFuel"
  "ext_RenegotiationInfo cb s m \<noteq> ExtFail m' OutOfFuel"
  "ext_Cookie cb s m \<noteq> ExtFail m' OutOfFuel"
  "ext_PSKModes cb s m \<noteq> ExtFail m' OutOfFuel"
  "ext_QUICTransportParameters cb s m \<noteq> ExtFail m' OutOfFuel"
  by (auto simp: ext_StatusRequest_def ext_SupportedPoints_def ext_SessionTicket_def ext_RenegotiationInfo_def ext_Cookie_def ext_PSKModes_def ext_QUICTransportParameters_def
      Let_def split: option.split prod.split)

lemma handle_ext_fuel: "handle_ext cb extension exts s m \<noteq> ExtFail m' OutOfFuel"
  by (simp add: handle_ext_def ext_fuel_loops ext_fuel_reads)

lemma extensions_loop_fuel:
  "length s < n \<Longrightarrow> snd (extensions_loop cb n s seen m) \<noteq> Some OutOfFuel"
proof (induction n arbitrary: s seen m)
  case (Suc n)
  have "length r2 < n" if "ReadUint16 cb s = Some (x, r1)" "ReadUint16LengthPrefixed cb r1 = Some (d, r2)"
    for x r1 d r2 using read_shorter(2) [OF that(1)] read_shorter(5) [OF that(2)] Suc.prems by simp
  with Suc.IH handle_ext_fuel show ?case
    by (auto split: option.splits prod.splits ext_result.splits)
qed simp

lemma unmarshal_fuel: "snd (unmarshal cb d) \<noteq> Some OutOfFuel"
  using extensions_loop_fuel [OF lessI]
  by (auto simp: unmarshal_def unmarshal_extensions_def loop_fuel_Suc
      split: option.splits prod.splits simp del: extensions_loop.simps suites_loop.simps)

end

subsection \<open>The round trip\<close>

context cryptobyte begin

lemma u16_loop_encode:
  "length vs < n \<Longrightarrow> u16_loop cb err n (concat (map enc16 vs)) acc = (acc @ vs, None)"
  by (induction vs arbitrary: n acc) (case_tac n; simp)+

lemma suites_loop_encode:
  "length vs < n \<Longrightarrow> suites_loop cb n (concat (map enc16 vs)) m =
     (m\<lparr>CipherSuites := CipherSuites m @ vs, SecureRenegotiationSupported :=
        (SecureRenegotiationSupported m \<or> scsvRenegotiation \<in> set vs)\<rparr>, None)"
  by (induction vs arbitrary: n m) (case_tac n; simp add: Let_def)+

lemma alpn_loop_encode:
  "length ps < n \<Longrightarrow> \<forall>p \<in> set ps. p \<noteq> '''' \<and> length p < 256 \<Longrightarrow>
     alpn_loop cb n (concat (map (\<lambda>p. prefixed8 (bytes_of p)) ps)) m =
       (m\<lparr>AlpnProtocols := AlpnProtocols m @ ps\<rparr>, None)"
  by (induction ps arbitrary: n m) (case_tac n; simp add: Let_def)+

lemma shares_loop_encode:
  "length ks < n \<Longrightarrow> \<forall>k \<in> set ks. data k \<noteq> [] \<and> length (data k) < 65536 \<Longrightarrow>
     shares_loop cb n (concat (map (\<lambda>k. enc16 (group k) @ prefixed16 (data k)) ks)) m =
       (m\<lparr>KeyShares := KeyShares m @ ks\<rparr>, None)"
  by (induction ks arbitrary: n m) (case_tac n; simp add: Let_def)+

lemma identities_loop_encode:
  "length ps < n \<Longrightarrow> \<forall>p \<in> set ps. label p \<noteq> [] \<and> length (label p) < 65536 \<Longrightarrow>
     identities_loop cb n (concat (map (\<lambda>p. prefixed16 (label p) @ enc32 (obfuscatedTicketAge p)) ps)) m =
       (m\<lparr>PskIdentities := PskIdentities m @ ps\<rparr>, None)"
  by (induction ps arbitrary: n m) (case_tac n; simp add: Let_def)+

lemma binders_loop_encode:
  "length bs < n \<Longrightarrow> \<forall>b \<in> set bs. b \<noteq> [] \<and> length b < 256 \<Longrightarrow>
     binders_loop cb n (concat (map prefixed8 bs)) m = (m\<lparr>PskBinders := PskBinders m @ bs\<rparr>, None)"
  by (induction bs arbitrary: n m) (case_tac n; simp add: Let_def)+

lemma names_loop_encode:
  assumes "length ns < n" and "\<forall>(t, x) \<in> set ns. x \<noteq> '''' \<and> length x < 65536"
    and "length (host_names ns) \<le> 1" and "\<forall>x \<in> set (host_names ns). last x \<noteq> CHR ''.''"
    and "host_names ns \<noteq> [] \<Longrightarrow> ServerName m = ''''"
  shows "names_loop cb n (concat (map (\<lambda>(t, x). t # prefixed16 (bytes_of x)) ns)) m =
    (ext_apply (ServerNameExt ns) m, None)"
  using assms
proof (induction ns arbitrary: n m)
  case Nil
  then show ?case by (cases n) (simp_all add: host_names_def)
next
  case (Cons a ns)
  obtain t x where a: "a = (t, x)" by fastforce
  obtain k where n: "n = Suc k" using Cons.prems(1) by (cases n) auto
  show ?case
  proof (cases "t = 0")
    case True
    then have "host_names ns = []" using Cons.prems(3) a by (simp add: host_names_def)
    with True Cons.IH [of k "m\<lparr>ServerName := x\<rparr>"] Cons.prems a n show ?thesis
      by (simp add: host_names_def Let_def)
  next
    case False
    with Cons.IH [of k m] Cons.prems a n show ?thesis by (simp add: host_names_def Let_def)
  qed
qed

end

lemma length_concat_member: "x \<in> set xs \<Longrightarrow> length (f x) \<le> length (concat (map f xs))"
  by (induction xs) auto

lemma length_concat_pos:
  "(\<And>x. x \<in> set xs \<Longrightarrow> f x \<noteq> []) \<Longrightarrow> length xs < Suc (length (concat (map f xs)))"
proof (induction xs)
  case (Cons x xs)
  then have "length xs < Suc (length (concat (map f xs)))" "f x \<noteq> []" by auto
  then show ?case by (cases "f x") auto
qed simp

context cryptobyte begin

lemma ext_ServerName_encode:
  assumes "ext_ok (ServerNameExt ns)" and "length (ext_body (ServerNameExt ns)) < 65536"
    and "ServerName m = ''''"
  shows "ext_ServerName cb (ext_body (ServerNameExt ns)) m = ExtRead (ext_apply (ServerNameExt ns) m) []"
proof -
  let ?f = "\<lambda>(t, x). t # prefixed16 (bytes_of x)"
  have l: "length (concat (map ?f ns)) < 65536" using assms(2) by simp
  have "length x < 65536" if "(t, x) \<in> set ns" for t x
    using length_concat_member [OF that, of ?f] l by simp
  moreover have "length ns < Suc (length (concat (map ?f ns)))"
    by (rule length_concat_pos) auto
  ultimately have "names_loop cb (Suc (length (concat (map ?f ns)))) (concat (map ?f ns)) m =
      (ext_apply (ServerNameExt ns) m, None)"
    using assms(1,3) by (intro names_loop_encode) auto
  moreover have "concat (map ?f ns) \<noteq> []" using assms(1) by (cases ns) auto
  ultimately show ?thesis using l by (simp add: ext_ServerName_def del: names_loop.simps ext_apply.simps)
qed

lemma ext_ALPN_encode:
  assumes "ext_ok (ALPNExt ps)" and "length (ext_body (ALPNExt ps)) < 65536"
  shows "ext_ALPN cb (ext_body (ALPNExt ps)) m = ExtRead (ext_apply (ALPNExt ps) m) []"
proof -
  let ?f = "\<lambda>p. prefixed8 (bytes_of p)"
  have "length ps < Suc (length (concat (map ?f ps)))" by (rule length_concat_pos) auto
  moreover have "concat (map ?f ps) \<noteq> []" using assms(1) by (cases ps) auto
  ultimately show ?thesis using assms alpn_loop_encode [of ps "Suc (length (concat (map ?f ps)))" m]
    by (simp add: ext_ALPN_def del: alpn_loop.simps)
qed

lemma ext_KeyShare_encode:
  assumes "ext_ok (KeyShareExt ks)" and "length (ext_body (KeyShareExt ks)) < 65536"
  shows "ext_KeyShare cb (ext_body (KeyShareExt ks)) m = ExtRead (ext_apply (KeyShareExt ks) m) []"
proof -
  let ?f = "\<lambda>k. enc16 (group k) @ prefixed16 (data k)"
  have l: "length (concat (map ?f ks)) < 65536" using assms(2) by simp
  have "length (data k) < 65536" if "k \<in> set ks" for k
    using length_concat_member [OF that, of ?f] l by simp
  moreover have "length ks < Suc (length (concat (map ?f ks)))" by (rule length_concat_pos) auto
  ultimately show ?thesis
    using assms l shares_loop_encode [of ks "Suc (length (concat (map ?f ks)))" m]
    by (simp add: ext_KeyShare_def del: shares_loop.simps)
qed

lemma ext_PreSharedKey_encode:
  assumes "ext_ok (PSKExt ids bs)" and "length (ext_body (PSKExt ids bs)) < 65536"
  shows "ext_PreSharedKey cb [] (ext_body (PSKExt ids bs)) m =
    ExtRead (ext_apply (PSKExt ids bs) m) []"
proof -
  let ?f = "\<lambda>p. prefixed16 (label p) @ enc32 (obfuscatedTicketAge p)"
  have l: "length (concat (map ?f ids)) < 65536" "length (concat (map prefixed8 bs)) < 65536"
    using assms(2) by simp_all
  have "length (label p) < 65536" if "p \<in> set ids" for p
    using length_concat_member [OF that, of ?f] l by simp
  moreover have "length ids < Suc (length (concat (map ?f ids)))"
      "length bs < Suc (length (concat (map prefixed8 bs)))"
    by (rule length_concat_pos; auto)+
  moreover have "concat (map ?f ids) \<noteq> []" "concat (map prefixed8 bs) \<noteq> []"
    using assms(1) by (cases ids; cases bs; auto)+
  ultimately show ?thesis
    using assms l identities_loop_encode [of ids "Suc (length (concat (map ?f ids)))" m]
      binders_loop_encode [of bs "Suc (length (concat (map prefixed8 bs)))"]
    by (simp add: ext_PreSharedKey_def Let_def del: identities_loop.simps binders_loop.simps)
qed

lemma handle_ext_encode:
  assumes "ext_ok e" and "length (ext_body e) < 65536"
    and "ext_id e = 41 \<Longrightarrow> exts = []" and "ext_id e = 0 \<Longrightarrow> ServerName m = ''''"
  shows "handle_ext cb (ext_id e) exts (ext_body e) m = ExtRead (ext_apply e m) [] \<or>
    handle_ext cb (ext_id e) exts (ext_body e) m = ExtContinue (ext_apply e m)"
proof (cases e)
  case (ServerNameExt ns)
  then show ?thesis using assms ext_ServerName_encode [of ns m]
    by (simp add: handle_ext_def extension_ids del: ext_apply.simps ext_body.simps ext_ok.simps)
next
  case (ALPNExt ps)
  then show ?thesis using assms ext_ALPN_encode [of ps m]
    by (simp add: handle_ext_def extension_ids del: ext_apply.simps ext_body.simps ext_ok.simps)
next
  case (KeyShareExt ks)
  then show ?thesis using assms ext_KeyShare_encode [of ks m]
    by (simp add: handle_ext_def extension_ids del: ext_apply.simps ext_body.simps ext_ok.simps)
next
  case (PSKExt ids bs)
  then show ?thesis using assms ext_PreSharedKey_encode [of ids bs m]
    by (simp add: handle_ext_def extension_ids del: ext_apply.simps ext_body.simps ext_ok.simps)
qed (use assms in \<open>simp_all add: handle_ext_def extension_ids ext_StatusRequest_def
      ext_SupportedCurves_def ext_SupportedPoints_def ext_SessionTicket_def
      ext_SignatureAlgorithms_def ext_SignatureAlgorithmsCert_def ext_RenegotiationInfo_def
      ext_SupportedVersions_def ext_Cookie_def ext_PSKModes_def ext_QUICTransportParameters_def
      statusTypeOCSP_def known_ids_def u16_loop_encode Let_def del: u16_loop.simps\<close>)

lemma ServerName_ext_apply: "ext_id e \<noteq> 0 \<Longrightarrow> ServerName (ext_apply e m) = ServerName m"
  by (cases e) auto

lemma extensions_loop_encode:
  assumes "length es < n" and "length (concat (map encode_ext es)) < 65536"
    and "distinct (map ext_id es)" and "\<forall>e \<in> set es. ext_ok e"
    and "\<forall>e \<in> set (butlast es). ext_id e \<noteq> 41" and "set seen \<inter> ext_id ` set es = {}"
    and "0 \<in> ext_id ` set es \<Longrightarrow> ServerName m = ''''"
  shows "extensions_loop cb n (concat (map encode_ext es)) seen m = (fold ext_apply es m, None)"
  using assms
proof (induction es arbitrary: n seen m)
  case Nil
  then show ?case by (cases n) simp_all
next
  case (Cons e es)
  obtain k where n: "n = Suc k" using Cons.prems(1) by (cases n) auto
  have l: "length (ext_body e) < 65536" using Cons.prems(2) by (simp add: encode_ext_def)
  have psk: "concat (map encode_ext es) = []" if "ext_id e = 41"
    using that Cons.prems(5) by (cases es) auto
  have h: "handle_ext cb (ext_id e) (concat (map encode_ext es)) (ext_body e) m = ExtRead (ext_apply e m) [] \<or>
      handle_ext cb (ext_id e) (concat (map encode_ext es)) (ext_body e) m = ExtContinue (ext_apply e m)"
    using Cons.prems(4,7) l psk by (intro handle_ext_encode) auto
  have sn: "ServerName (ext_apply e m) = ''''" if "0 \<in> ext_id ` set es"
    using that Cons.prems(3,7) by (subst ServerName_ext_apply) auto
  have "extensions_loop cb k (concat (map encode_ext es)) (ext_id e # seen) (ext_apply e m) =
      (fold ext_apply es (ext_apply e m), None)"
    using Cons.prems n sn by (intro Cons.IH) (auto split: if_splits)
  then show ?case using n h l Cons.prems(6) by (auto simp: encode_ext_def [of e])
qed

lemma unmarshal_encode:
  assumes "hello_ok h" and "length hdr = 4"
  shows "unmarshal cb (hdr @ encode_hello h) = (hello_msg h, None)"
proof -
  let ?es = "h_exts h"
  have "length ?es < Suc (length (concat (map encode_ext ?es)))"
    by (rule length_concat_pos) (simp add: encode_ext_def)
  then have "extensions_loop cb (Suc (length (concat (map encode_ext ?es))))
      (concat (map encode_ext ?es)) [] (empty_hello\<lparr>Vers := h_vers h, Random := h_random h,
     SessionId := h_session h, CipherSuites := h_suites h,
     SecureRenegotiationSupported := (scsvRenegotiation \<in> set (h_suites h)),
     CompressionMethods := h_compression h\<rparr>) = (hello_msg h, None)"
    unfolding hello_msg_def using assms(1)
    by (intro extensions_loop_encode) (auto simp: hello_ok_def empty_hello_def)
  with assms show ?thesis
    by (simp add: unmarshal_def unmarshal_header_def unmarshal_extensions_def encode_hello_def
        hello_ok_def Skip_law ReadBytes_law suites_loop_encode empty_hello_def Let_def
        del: extensions_loop.simps suites_loop.simps)
qed

end

subsection \<open>Properties\<close>

text \<open>
  Sniffing is complete on well-formed handshakes: for every message of the format, with every
  kind of extension the parser knows and any number of unknown ones, behind any record and
  handshake header, the parser returns without error exactly the message that was encoded, so the
  server name it reports is the one the client asked for.
\<close>

theorem UnmarshalByByte_roundtrip:
  assumes "cryptobyte cb" and "hello_ok h" and "length hdr = 8"
  shows "UnmarshalByByte cb (0x16 # hdr @ encode_hello h) m = Ret (hello_msg h, None)"
proof -
  have "drop 5 (0x16 # hdr @ encode_hello h) = drop 4 hdr @ encode_hello h"
    using assms(3) by simp
  moreover have "length (drop 4 hdr) = 4" using assms(3) by simp
  ultimately show ?thesis
    using cryptobyte.unmarshal_encode [OF assms(1,2)] assms(3) by (simp add: UnmarshalByByte_def)
qed

definition example_hello :: hello where
  "example_hello = \<lparr>h_vers = 0x0303, h_random = replicate 32 7, h_session = [1, 2],
     h_suites = [0x1301, 0x00ff], h_compression = [0],
     h_exts = [UnknownExt 0x0a0a [], ServerNameExt [(0, ''a.io'')], CurvesExt [29, 23],
       ALPNExt [''h2''], VersionsExt [0x0304], KeyShareExt [\<lparr>group = 29, data = [9, 9]\<rparr>],
       PSKExt [\<lparr>label = [1], obfuscatedTicketAge = 5\<rparr>] [[4, 4]]]\<rparr>"

lemma example_hello_ok: "hello_ok example_hello"
  by (simp add: hello_ok_def example_hello_def encode_ext_def known_ids_def host_names_def)

theorem UnmarshalByByte_roundtrip_witness:
  "\<exists>m. UnmarshalByByte big_endian_readers (0x16 # replicate 8 0 @ encode_hello example_hello)
     empty_hello = Ret (m, None) \<and> ServerName m = ''a.io'' \<and> SecureRenegotiationSupported m"
  using UnmarshalByByte_roundtrip [OF be.cryptobyte_axioms example_hello_ok, of "replicate 8 0" empty_hello]
  by (simp add: hello_msg_def example_hello_def host_names_def empty_hello_def scsvRenegotiation_def)

text \<open>
  C19. Sniffing terminates on every input: whatever the bytes, the parser either returns with one
  of its own errors or success, never running on; and it panics exactly when the buffer starts
  with the handshake byte and is shorter than the five bytes of a record header.
\<close>

theorem UnmarshalByByte_total:
  assumes "cryptobyte cb"
  shows "(case UnmarshalByByte cb buf m of
     Panic \<Rightarrow> buf \<noteq> [] \<and> hd buf = 0x16 \<and> length buf < 5
   | Ret (_, e) \<Rightarrow> e \<noteq> Some OutOfFuel \<and> (buf = [] \<or> hd buf \<noteq> 0x16 \<or> 5 \<le> length buf))"
  using cryptobyte.unmarshal_fuel [OF assms, of "drop 5 buf"]
  by (auto simp: UnmarshalByByte_def hd_conv_nth split: prod.splits)

theorem UnmarshalByByte_total_witness:
  "UnmarshalByByte big_endian_readers [0x16, 3, 1] empty_hello = Panic \<and>
   (\<exists>m e. UnmarshalByByte big_endian_readers [0x16, 3, 1, 0, 9, 9] empty_hello = Ret (m, e) \<and> e \<noteq> Some OutOfFuel)"
  using UnmarshalByByte_total [OF be.cryptobyte_axioms, of "[0x16, 3, 1, 0, 9, 9]" empty_hello]
  by (auto simp: UnmarshalByByte_def split: prod.splits)

end
