(* ===== verification/Sniffing.thy ===== *)
theory Sniffing
  imports ClientHello FlowLimit
begin

text \<open>
  \<^verbatim>\<open>server/sniffing/conn.go\<close> (\<open>ReadWriterNotice\<close>), \<^verbatim>\<open>regexpDomain\<close> of \<^verbatim>\<open>server/common.go\<close>, and the
  goroutine of the connection handlers that turns the first bytes of a client into a domain name.

  A \<open>ReadWriterNotice\<close> wraps a connection (the functions \<open>rd\<close>, \<open>wr\<close>, \<open>cl\<close> on its state), collects
  what is read until the first write and hands it to a callback; \<open>rn_notices\<close> lists the arguments
  of the callback's calls. One call is one atomic step.
\<close>

record 'c rwn =
  rn_rw :: 'c
  rn_buf :: "bytes option"
  rn_isNotice :: bool
  rn_isStart :: bool
  rn_fc :: bool
  rn_notices :: "bytes list"

type_synonym 'c io_writer = "'c \<Rightarrow> bytes \<Rightarrow> nat \<times> io_error option \<times> 'c"

text \<open>\<open>None\<close>: the nil connection is refused. A nil initial buffer becomes an empty one.\<close>

definition NewReadWriterNotice :: "'c option \<Rightarrow> bytes option \<Rightarrow> bool \<Rightarrow> 'c rwn option" where
  "NewReadWriterNotice rw buf fc = (case rw of
     None \<Rightarrow> None
   | Some c \<Rightarrow> Some \<lparr>rn_rw = c, rn_buf = Some (case buf of Some b \<Rightarrow> b | None \<Rightarrow> []), rn_isNotice = False,
       rn_isStart = True, rn_fc = fc, rn_notices = []\<rparr>)"

definition rwn_Close :: "('c \<Rightarrow> io_error option \<times> 'c) \<Rightarrow> 'c rwn \<Rightarrow> io_error option \<times> 'c rwn" where
  "rwn_Close cl w =
     (if \<not> rn_isStart w then (Some (ReadErr ''ReadWriterNotice is not start''), w)
      else case cl (rn_rw w) of (e, c) \<Rightarrow> (e, w\<lparr>rn_isStart := False, rn_buf := None, rn_rw := c\<rparr>))"

definition rwn_Read :: "'c io_reader \<Rightarrow> nat \<Rightarrow> 'c rwn \<Rightarrow> (bytes \<times> io_error option) \<times> 'c rwn" where
  "rwn_Read rd n w =
     (if \<not> rn_isStart w then (([], Some EOF), w)
      else case rd (rn_rw w) n of (p, e, c) \<Rightarrow>
        ((p, e), w\<lparr>rn_rw := c, rn_buf :=
           (if \<not> rn_isNotice w then map_option (\<lambda>b. b @ p) (rn_buf w) else rn_buf w)\<rparr>))"

definition rwn_Write :: "'c io_writer \<Rightarrow> bytes \<Rightarrow> 'c rwn \<Rightarrow> (nat \<times> io_error option) \<times> 'c rwn" where
  "rwn_Write wr p w =
     (if \<not> rn_isStart w then ((0, Some EOF), w)
      else case wr (rn_rw w) p of (n, e, c) \<Rightarrow>
        (let w1 = w\<lparr>rn_rw := c\<rparr> in
         ((n, e),
          if rn_isNotice w1 then w1
          else let w2 = w1\<lparr>rn_isNotice := True\<rparr> in
            if \<not> rn_fc w2 then w2
            else case rn_buf w2 of
              None \<Rightarrow> w2
            | Some buf \<Rightarrow> w2\<lparr>rn_buf := None, rn_notices := rn_notices w2 @ [buf]\<rparr>)))"

subsection \<open>Extracting a domain name\<close>

definition letter :: "char \<Rightarrow> bool" where
  "letter c \<longleftrightarrow> (let n = of_char c :: nat in 65 \<le> n \<and> n \<le> 90 \<or> 97 \<le> n \<and> n \<le> 122)"

definition name_char :: "char \<Rightarrow> bool" where
  "name_char c \<longleftrightarrow> letter c \<or> (let n = of_char c :: nat in 48 \<le> n \<and> n \<le> 57) \<or> c = CHR ''.'' \<or> c = CHR ''-''"

text \<open>
  The expression \<^verbatim>\<open>([a-zA-Z0-9.-]+\.[a-zA-Z]{2,})\<close> matched at the start of \<open>s\<close>: the greedy repetition
  takes the longest run of name characters and gives back until a dot and two letters follow; the
  letters after that dot are again taken greedily.
\<close>

definition dot_positions :: "string \<Rightarrow> nat list" where
  "dot_positions r = filter (\<lambda>j. 1 \<le> j \<and> j + 2 < length r \<and> r ! j = CHR ''.'' \<and>
     letter (r ! (j + 1)) \<and> letter (r ! (j + 2))) [0..<length r]"

definition match_here :: "string \<Rightarrow> string option" where
  "match_here s = (let r = takeWhile name_char s; js = dot_positions r in
     if js = [] then None
     else Some (take (Suc (last js)) r @ takeWhile letter (drop (Suc (last js)) r)))"

text \<open>\<^verbatim>\<open>regexpDomain\<close>: the leftmost match, or the empty string.\<close>

fun regexpDomain :: "string \<Rightarrow> string" where
  "regexpDomain [] = ''''"
| "regexpDomain (c # cs) = (case match_here (c # cs) of Some d \<Rightarrow> d | None \<Rightarrow> regexpDomain cs)"

text \<open>
  The goroutine the handlers start for a connection without a domain name: what it stores in
  \<^verbatim>\<open>domainPointer\<close>, if anything. \<open>http_host\<close> is \<^verbatim>\<open>http.ReadRequest\<close> followed by \<^verbatim>\<open>Header.Get("Host")\<close>
  (\<open>None\<close> when the request does not parse). A panic of the parser is not recovered here.
\<close>

definition sniff_domain :: "cb_ops \<Rightarrow> (bytes \<Rightarrow> string option) \<Rightarrow> bytes \<Rightarrow> string option outcome" where
  "sniff_domain cb http_host buf =
     (if length buf = 0 then Ret None
      else
        (let rest =
           (case http_host buf of
              Some h \<Rightarrow> if h \<noteq> '''' then Some h
                else (let d = regexpDomain (string_of buf) in if d \<noteq> '''' then Some d else None)
            | None \<Rightarrow> (let d = regexpDomain (string_of buf) in if d \<noteq> '''' then Some d else None)) in
         if buf ! 0 = 0x16 then
           (case UnmarshalByByte cb buf empty_hello of
              Panic \<Rightarrow> Panic
            | Ret (m, _) \<Rightarrow> if ServerName m \<noteq> '''' then Ret (Some (ServerName m)) else Ret rest)
         else Ret rest))"

subsection \<open>Runs of a wrapped connection\<close>

datatype rwn_op = ORead nat | OWrite bytes | OClose

fun is_read :: "rwn_op \<times> bytes \<Rightarrow> bool" where
  "is_read (ORead n, _) = True"
| "is_read (_, _) = False"

text \<open>The operations in order, each with the bytes it delivered (reads only).\<close>

fun rwn_run :: "'c io_reader \<Rightarrow> 'c io_writer \<Rightarrow> ('c \<Rightarrow> io_error option \<times> 'c) \<Rightarrow> rwn_op list \<Rightarrow> 'c rwn \<Rightarrow>
    (rwn_op \<times> bytes) list \<times> 'c rwn" where
  "rwn_run rd wr cl [] w = ([], w)"
| "rwn_run rd wr cl (ORead n # ops) w =
     (let ((p, _), w1) = rwn_Read rd n w; (tr, w2) = rwn_run rd wr cl ops w1 in ((ORead n, p) # tr, w2))"
| "rwn_run rd wr cl (OWrite p # ops) w =
     (let (_, w1) = rwn_Write wr p w; (tr, w2) = rwn_run rd wr cl ops w1 in ((OWrite p, []) # tr, w2))"
| "rwn_run rd wr cl (OClose # ops) w =
     (let (_, w1) = rwn_Close cl w; (tr, w2) = rwn_run rd wr cl ops w1 in ((OClose, []) # tr, w2))"

subsection \<open>Lemmas\<close>

definition quiet :: "'c rwn \<Rightarrow> bool" where
  "quiet w \<longleftrightarrow> rn_isNotice w \<or> \<not> rn_isStart w"

lemma quiet_Read:
  "quiet w \<Longrightarrow> quiet (snd (rwn_Read rd n w)) \<and> rn_notices (snd (rwn_Read rd n w)) = rn_notices w"
  by (auto simp: quiet_def rwn_Read_def split: prod.splits)

lemma quiet_Write:
  "quiet w \<Longrightarrow> quiet (snd (rwn_Write wr p w)) \<and> rn_notices (snd (rwn_Write wr p w)) = rn_notices w"
  by (auto simp: quiet_def rwn_Write_def Let_def split: prod.splits)

lemma quiet_Close:
  "quiet (snd (rwn_Close cl w)) \<and> rn_notices (snd (rwn_Close cl w)) = rn_notices w"
  by (auto simp: quiet_def rwn_Close_def split: prod.splits)

lemma rwn_run_quiet:
  "quiet w \<Longrightarrow> rn_notices (snd (rwn_run rd wr cl ops w)) = rn_notices w"
proof (induction ops arbitrary: w)
  case (Cons op ops)
  show ?case
  proof (cases op)
    case (ORead n)
    with Cons.IH [of "snd (rwn_Read rd n w)"] quiet_Read [OF Cons.prems, of rd n]
    show ?thesis by (simp add: split_def Let_def)
  next
    case (OWrite p)
    with Cons.IH [of "snd (rwn_Write wr p w)"] quiet_Write [OF Cons.prems, of wr p]
    show ?thesis by (simp add: split_def Let_def)
  next
    case OClose
    with Cons.IH [of "snd (rwn_Close cl w)"] quiet_Close [of cl w]
    show ?thesis by (simp add: split_def Let_def)
  qed
qed simp

lemma rwn_run_notice:
  assumes "rn_isStart w" and "\<not> rn_isNotice w" and "rn_fc w" and "rn_buf w = Some b"
  shows "rn_notices (snd (rwn_run rd wr cl ops w)) = rn_notices w @
    (case dropWhile is_read (fst (rwn_run rd wr cl ops w)) of
       (OWrite _, _) # _ \<Rightarrow> [b @ concat (map snd (takeWhile is_read (fst (rwn_run rd wr cl ops w))))]
     | _ \<Rightarrow> [])"
  using assms
proof (induction ops arbitrary: w b)
  case (Cons op ops)
  show ?case
  proof (cases op)
    case (ORead n)
    obtain p e c where r: "rd (rn_rw w) n = (p, e, c)" by (metis prod_cases3)
    let ?w = "w\<lparr>rn_rw := c, rn_buf := Some (b @ p)\<rparr>"
    have "rwn_Read rd n w = ((p, e), ?w)" using r Cons.prems by (simp add: rwn_Read_def)
    moreover obtain tr w2 where t: "rwn_run rd wr cl ops ?w = (tr, w2)" by (metis surj_pair)
    ultimately have run: "rwn_run rd wr cl (op # ops) w = ((ORead n, p) # tr, w2)"
      unfolding ORead by simp
    show ?thesis
      using Cons.IH [of ?w "b @ p"] Cons.prems t unfolding run
      by (cases "dropWhile is_read tr") (auto split: rwn_op.splits simp del: dropWhile_eq_Nil_conv)
  next
    case (OWrite p)
    obtain n e c where r: "wr (rn_rw w) p = (n, e, c)" by (metis prod_cases3)
    let ?w = "w\<lparr>rn_rw := c, rn_isNotice := True, rn_buf := None, rn_notices := rn_notices w @ [b]\<rparr>"
    have "rwn_Write wr p w = ((n, e), ?w)" using r Cons.prems by (simp add: rwn_Write_def Let_def)
    with rwn_run_quiet [of ?w rd wr cl ops] OWrite show ?thesis by (simp add: split_def quiet_def Let_def)
  next
    case OClose
    with rwn_run_quiet [of "snd (rwn_Close cl w)" rd wr cl ops] quiet_Close [of cl w]
    show ?thesis by (simp add: split_def Let_def)
  qed
qed simp

definition domain_like :: "string \<Rightarrow> bool" where
  "domain_like d \<longleftrightarrow> (\<exists>x y. d = x @ CHR ''.'' # y \<and> x \<noteq> [] \<and> (\<forall>c \<in> set x. name_char c) \<and>
     2 \<le> length y \<and> (\<forall>c \<in> set y. letter c))"

lemma letter_name_char: "letter c \<Longrightarrow> name_char c"
  by (simp add: name_char_def)

lemma match_here_sound:
  assumes "match_here s = Some d"
  shows "domain_like d \<and> (\<exists>b. s = d @ b)"
proof -
  define r where "r = takeWhile name_char s"
  define j where "j = last (dot_positions r)"
  from assms have ne: "dot_positions r \<noteq> []"
    and d: "d = take (Suc j) r @ takeWhile letter (drop (Suc j) r)"
    by (auto simp: match_here_def Let_def r_def j_def split: if_splits)
  from ne have "j \<in> set (dot_positions r)" by (simp add: j_def)
  then have j: "1 \<le> j" "j + 2 < length r" "r ! j = CHR ''.''" "letter (r ! (j + 1))" "letter (r ! (j + 2))"
    by (auto simp: dot_positions_def)
  have "drop (Suc j) r = r ! (j + 1) # r ! (j + 2) # drop (j + 3) r"
    using j(2) by (metis Cons_nth_drop_Suc Suc_eq_plus1 Suc_lessD add_2_eq_Suc' add_Suc_right numeral_3_eq_3
        numeral_2_eq_2)
  then have y: "2 \<le> length (takeWhile letter (drop (Suc j) r))" using j(4,5) by simp
  have d2: "d = take j r @ CHR ''.'' # takeWhile letter (drop (Suc j) r)"
    using d j(2,3) by (simp add: take_Suc_conv_app_nth)
  have "\<forall>c \<in> set (take j r). name_char c" unfolding r_def by (metis in_set_takeD set_takeWhileD)
  moreover have "take j r \<noteq> []" using j(1,2) by auto
  moreover have "\<forall>c \<in> set (takeWhile letter (drop (Suc j) r)). letter c" by (metis set_takeWhileD)
  ultimately have "domain_like d" unfolding domain_like_def using d2 y by blast
  moreover have "r = d @ dropWhile letter (drop (Suc j) r)" unfolding d by simp
  then have "s = d @ dropWhile letter (drop (Suc j) r) @ dropWhile name_char s"
    unfolding r_def by (metis append_assoc takeWhile_dropWhile_id)
  ultimately show ?thesis by blast
qed

lemma match_here_complete:
  assumes "domain_like d"
  shows "match_here (d @ b) \<noteq> None"
proof -
  from assms obtain x y where d: "d = x @ CHR ''.'' # y" "x \<noteq> []" "\<forall>c \<in> set x. name_char c"
    "2 \<le> length y" "\<forall>c \<in> set y. letter c" by (auto simp: domain_like_def)
  from d(4) obtain y1 y2 ys where y: "y = y1 # y2 # ys"
    by (metis One_nat_def Suc_le_length_iff numeral_2_eq_2)
  have "\<forall>c \<in> set d. name_char c" using d letter_name_char by (auto simp: name_char_def)
  then have r: "takeWhile name_char (d @ b) = d @ takeWhile name_char b" by (simp add: takeWhile_append)
  let ?r = "d @ takeWhile name_char b"
  have "length x \<in> set (dot_positions ?r)"
    using d(1,2,5) y by (simp add: dot_positions_def nth_append Suc_leI)
  then have "dot_positions ?r \<noteq> []" by auto
  with r show ?thesis by (simp add: match_here_def Let_def)
qed

lemma regexpDomain_sound:
  "regexpDomain s \<noteq> '''' \<Longrightarrow> domain_like (regexpDomain s) \<and> (\<exists>a b. s = a @ regexpDomain s @ b)"
proof (induction s)
  case (Cons c cs)
  show ?case
  proof (cases "match_here (c # cs)")
    case None
    with Cons have "domain_like (regexpDomain cs)" "\<exists>a b. cs = a @ regexpDomain cs @ b" by auto
    with None show ?thesis by simp (metis append_Cons)
  next
    case (Some d)
    with match_here_sound [OF Some] show ?thesis by simp (metis append_Nil)
  qed
qed simp

lemma domain_like_not_Nil: "domain_like d \<Longrightarrow> d \<noteq> []"
  by (auto simp: domain_like_def)

lemma regexpDomain_no_letter:
  assumes "\<forall>c \<in> set s. \<not> letter c"
  shows "regexpDomain s = ''''"
proof (rule ccontr)
  assume "regexpDomain s \<noteq> ''''"
  with regexpDomain_sound obtain x y a b where d: "s = a @ (x @ CHR ''.'' # y) @ b" "2 \<le> length y" "\<forall>c \<in> set y. letter c"
    unfolding domain_like_def by metis
  then have "hd y \<in> set y" by (intro hd_in_set) auto
  with d assms show False by auto
qed

lemma regexpDomain_complete: "domain_like d \<Longrightarrow> regexpDomain (a @ d @ b) \<noteq> ''''"
proof (induction a)
  case Nil
  obtain c cs where s: "d @ b = c # cs" using domain_like_not_Nil [OF Nil] by (cases d) auto
  obtain e where "match_here (c # cs) = Some e" using match_here_complete [OF Nil, of b] s by auto
  with match_here_sound [OF this] domain_like_not_Nil s show ?case by simp
next
  case (Cons c a)
  then show ?case
    using match_here_sound domain_like_not_Nil by (auto split: option.splits)
qed

subsection \<open>Properties\<close>

text \<open>
  The sniffing wrapper notifies at most once, with the right bytes: in any run of reads, writes
  and closes on a new wrapper, the callback is called exactly once if a write comes before any
  close, and then with exactly the bytes the reads before that write delivered; otherwise it is
  never called.
\<close>

theorem ReadWriterNotice_once:
  assumes "NewReadWriterNotice (Some c) None True = Some w"
  shows "rn_notices (snd (rwn_run rd wr cl ops w)) =
    (case dropWhile is_read (fst (rwn_run rd wr cl ops w)) of
       (OWrite _, _) # _ \<Rightarrow> [concat (map snd (takeWhile is_read (fst (rwn_run rd wr cl ops w))))]
     | _ \<Rightarrow> [])"
proof -
  have "rn_isStart w" "\<not> rn_isNotice w" "rn_fc w" "rn_buf w = Some []" "rn_notices w = []"
    using assms by (auto simp: NewReadWriterNotice_def)
  then show ?thesis using rwn_run_notice [of w "[]" rd wr cl ops] by (simp only: append_Nil simp_thms)
qed

theorem ReadWriterNotice_once_witness:
  "rn_notices (snd (rwn_run (\<lambda>c n. ([1, 2], None, c)) (\<lambda>c p. (length p, None, c)) (\<lambda>c. (None, c))
     [ORead 4, ORead 4, OWrite [9], ORead 4, OWrite [9]]
     \<lparr>rn_rw = (), rn_buf = Some [], rn_isNotice = False, rn_isStart = True, rn_fc = True, rn_notices = []\<rparr>)) = [[1, 2, 1, 2]]"
  using ReadWriterNotice_once [of "()" "\<lparr>rn_rw = (), rn_buf = Some [], rn_isNotice = False, rn_isStart = True,
      rn_fc = True, rn_notices = []\<rparr>" "\<lambda>c n. ([1, 2], None, c)" "\<lambda>c p. (length p, None, c)" "\<lambda>c. (None, c)"
      "[ORead 4, ORead 4, OWrite [9], ORead 4, OWrite [9]]"]
  by (simp add: NewReadWriterNotice_def rwn_Read_def rwn_Write_def)

text \<open>
  C23. Domain extraction is sound and complete: the extracted text is non-empty exactly when the
  input contains a run of name characters, a dot and at least two letters; and then it is itself
  such a text and occurs in the input.
\<close>

theorem regexpDomain_spec:
  "(regexpDomain s \<noteq> '''' \<longleftrightarrow> (\<exists>a d b. s = a @ d @ b \<and> domain_like d)) \<and>
   (regexpDomain s = '''' \<or> domain_like (regexpDomain s) \<and> (\<exists>a b. s = a @ regexpDomain s @ b))"
  using regexpDomain_sound [of s] regexpDomain_complete by blast

end
