(* ===== verification/Auth.thy ===== *)
theory Auth
  imports TtlCache NetAddr
begin

text \<open>
  \<^verbatim>\<open>server/auth.go\<close> and the address generator of \<^verbatim>\<open>utils/tool.go\<close>: user authentication. Records are
  read from Redis and kept for thirty seconds in a \<^verbatim>\<open>ttlcache\<close>; both are parameters, the cache with
  the contract of theory \<open>TtlCache\<close>, Redis as the functions that answer \<^verbatim>\<open>GET\<close> and \<^verbatim>\<open>SRANDMEMBER\<close> at
  the moment of the call. So are the decoders (\<^verbatim>\<open>json.Unmarshal\<close>, \<^verbatim>\<open>proto.Unmarshal\<close>): \<open>Inl\<close> is their
  error.
\<close>

definition AuthTtl :: int where
  "AuthTtl = 30000"

record auth_info =
  ai_Username :: string
  ai_Password :: string
  ai_ProxyUsername :: string
  ai_ProxyPassword :: string
  ai_S5Addr :: string
  ai_HttpAddr :: string
  ai_UpdateUnix :: int
  ai_Ips :: "string list option"

text \<open>\<^verbatim>\<open>Ips\<close> is a map to empty messages, so it is the list of its keys; \<open>None\<close> is the nil map.\<close>

record ipv6_auth_info =
  i6_Username :: string
  i6_Password :: string
  i6_Ip :: string
  i6_Banned :: bool

datatype auth_error = StoreErr string | WrongPassword | WrongIp | EmptyIp | AccountBanned
  | NotGateway string | BadUsername | EmptySession | SegErr string | CidrErr | LifeTimeErr

definition info_ips :: "auth_info \<Rightarrow> string list" where
  "info_ips authInfo = (case ai_Ips authInfo of None \<Rightarrow> [] | Some is \<Rightarrow> is)"

definition auth_key :: "string \<Rightarrow> string" where
  "auth_key username = username @ '':Auth''"

text \<open>The part both \<^verbatim>\<open>Valid\<close> methods start with: the record from the cache, or from Redis; the flag
  (\<^verbatim>\<open>isTouch\<close>) tells that it is not cached yet.\<close>

definition fetch_auth :: "('c, 'i) ttl_ops \<Rightarrow> (string \<Rightarrow> string + string) \<Rightarrow> (string \<Rightarrow> string + 'i) \<Rightarrow>
    int \<Rightarrow> string \<Rightarrow> 'c \<Rightarrow> (auth_error + 'i \<times> bool) \<times> 'c" where
  "fetch_auth cops redis_get dec now storeKey c = (case tc_get cops now storeKey c of
     (Some v, c1) \<Rightarrow> (Inr (v, False), c1)
   | (None, c1) \<Rightarrow> (case redis_get storeKey of
       Inl e \<Rightarrow> (Inl (StoreErr e), c1)
     | Inr str \<Rightarrow> (case dec str of
         Inl e \<Rightarrow> (Inl (StoreErr e), c1)
       | Inr info \<Rightarrow> (Inr (info, True), c1))))"

definition Ipv4Auth_Valid :: "('c, auth_info) ttl_ops \<Rightarrow> (string \<Rightarrow> string + string) \<Rightarrow>
    (string \<Rightarrow> string + auth_info) \<Rightarrow> int \<Rightarrow> string \<Rightarrow> string \<Rightarrow> string \<Rightarrow> 'c \<Rightarrow> (auth_error + string) \<times> 'c" where
  "Ipv4Auth_Valid cops redis_get dec now username password ip c =
     (case fetch_auth cops redis_get dec now (auth_key username) c of
        (Inl e, c1) \<Rightarrow> (Inl e, c1)
      | (Inr (authInfo, isTouch), c1) \<Rightarrow>
          if ai_Username authInfo \<noteq> username \<or> ai_Password authInfo \<noteq> password then (Inl WrongPassword, c1)
          else if ip \<notin> set (info_ips authInfo) then (Inl WrongIp, c1)
          else (Inr ip, if isTouch then tc_set cops now (auth_key username) authInfo AuthTtl c1 else c1))"

definition dynamic_password :: string where
  "dynamic_password = ''elfproxy_dynamic_ipv6''"

subsection \<open>Dynamic IPv6 addresses\<close>

text \<open>\<^verbatim>\<open>big.Int.Bytes\<close>: the shortest big-endian form.\<close>

fun big_bytes :: "nat \<Rightarrow> bytes" where
  "big_bytes n = (if n = 0 then [] else big_bytes (n div 256) @ [of_nat (n mod 256)])"

declare big_bytes.simps [simp del]

text \<open>
  \<^verbatim>\<open>util.RandomIPv6Address\<close>: \<open>parseCIDR\<close> is \<^verbatim>\<open>net.ParseCIDR\<close> (address and prefix length), \<open>rnd max\<close> the
  random offset below \<open>max\<close>.
\<close>

definition RandomIPv6Address ::
    "(string \<Rightarrow> (ip \<times> nat) option) \<Rightarrow> (nat \<Rightarrow> nat) \<Rightarrow> string \<Rightarrow> ip option" where
  "RandomIPv6Address parseCIDR rnd cidr = (case parseCIDR (cidr @ ''/52'') of
     None \<Rightarrow> None
   | Some (ip, ones) \<Rightarrow>
       Some (big_bytes (be (case To16 ip of Some q \<Rightarrow> q | None \<Rightarrow> []) + rnd (2 ^ (128 - ones)))))"

text \<open>\<^verbatim>\<open>strconv.Atoi\<close> for 64-bit integers.\<close>

fun digits :: "string \<Rightarrow> int \<Rightarrow> int option" where
  "digits [] acc = Some acc"
| "digits (c # cs) acc =
     (let d = int (of_char c) - 48 in if 0 \<le> d \<and> d \<le> 9 then digits cs (acc * 10 + d) else None)"

definition atoi :: "string \<Rightarrow> int option" where
  "atoi s = (case s of
     [] \<Rightarrow> None
   | c # cs \<Rightarrow>
       (let neg = (c = CHR ''-''); ds = (if neg \<or> c = CHR ''+'' then cs else s)
        in if ds = [] then None
           else case digits ds 0 of
             None \<Rightarrow> None
           | Some v \<Rightarrow> (let w = (if neg then - v else v)
               in if - (2 ^ 63) \<le> w \<and> w < 2 ^ 63 then Some w else None)))"

definition DynamicIpv6Prefix :: string where "DynamicIpv6Prefix = ''dynamicIpv6Prefix:''"
definition CitySegPrefix :: string where "CitySegPrefix = ''citySegPrefix:''"
definition AllCitySegSetPrefix :: string where "AllCitySegSetPrefix = ''allCitySeg''"

text \<open>
  \<^verbatim>\<open>validDynamicIpv6\<close>: the result and the write to Redis it performs, if any (key, value, seconds).
\<close>

definition validDynamicIpv6 :: "string list \<Rightarrow> (string \<Rightarrow> string + string) \<Rightarrow> (string \<Rightarrow> string + string) \<Rightarrow>
    (string \<Rightarrow> (ip \<times> nat) option) \<Rightarrow> (nat \<Rightarrow> nat) \<Rightarrow> string \<Rightarrow> string \<Rightarrow>
    (auth_error + string) \<times> (string \<times> string \<times> int) option" where
  "validDynamicIpv6 gateways redis_get srandmember parseCIDR rnd username peerIp =
     (if peerIp \<notin> set gateways then (Inl (NotGateway peerIp), None)
      else let userInfo = split_on CHR ''_'' username in
        if length userInfo < 3 then (Inl BadUsername, None)
        else let city = userInfo ! 0; session = userInfo ! 1; lifeTime = userInfo ! 2 in
          if session = '''' \<or> lifeTime = '''' then (Inl EmptySession, None)
          else let fresh =
            (case (if city = '''' then srandmember AllCitySegSetPrefix else redis_get (CitySegPrefix @ city)) of
               Inl e \<Rightarrow> (Inl (SegErr e), None)
             | Inr seg \<Rightarrow> (case RandomIPv6Address parseCIDR rnd seg of
                 None \<Rightarrow> (Inl CidrErr, None)
               | Some a \<Rightarrow> (case atoi lifeTime of
                   None \<Rightarrow> (Inl LifeTimeErr, None)
                 | Some expireTime \<Rightarrow>
                     (Inr (ip_String a), Some (DynamicIpv6Prefix @ session, ip_String a, expireTime)))))
          in case redis_get (DynamicIpv6Prefix @ session) of
            Inl e \<Rightarrow> fresh
          | Inr exitIp \<Rightarrow> if exitIp \<noteq> '''' then (Inr exitIp, None) else fresh)"

text \<open>\<open>dynamic\<close> stands for the call of \<open>validDynamicIpv6\<close> at this moment.\<close>

definition Ipv6Auth_Valid :: "('c, ipv6_auth_info) ttl_ops \<Rightarrow> (string \<Rightarrow> string + string) \<Rightarrow>
    (string \<Rightarrow> string + ipv6_auth_info) \<Rightarrow> (string \<Rightarrow> string \<Rightarrow> auth_error + string) \<Rightarrow>
    int \<Rightarrow> string \<Rightarrow> string \<Rightarrow> string \<Rightarrow> 'c \<Rightarrow> (auth_error + string) \<times> 'c" where
  "Ipv6Auth_Valid cops redis_get dec dynamic now username password peerIp c =
     (if password = dynamic_password then (dynamic username peerIp, c)
      else case fetch_auth cops redis_get dec now (auth_key username) c of
        (Inl e, c1) \<Rightarrow> (Inl e, c1)
      | (Inr (authInfo, isTouch), c1) \<Rightarrow>
          if i6_Username authInfo \<noteq> username \<or> i6_Password authInfo \<noteq> password then (Inl WrongPassword, c1)
          else if i6_Ip authInfo = '''' then (Inl EmptyIp, c1)
          else if i6_Banned authInfo then (Inl AccountBanned, c1)
          else (Inr (i6_Ip authInfo),
                if isTouch then tc_set cops now (auth_key username) authInfo AuthTtl c1 else c1))"

definition Ipv4Auth_ValidShadowSocks :: "('c, string) ttl_ops \<Rightarrow> (string \<Rightarrow> string + string) \<Rightarrow> int \<Rightarrow> string \<Rightarrow> 'c \<Rightarrow>
    (auth_error + string) \<times> 'c" where
  "Ipv4Auth_ValidShadowSocks cops redis_get now ipAddr c =
     (let storeKey = ipAddr @ '':ShadowSocks'' in
      case tc_get cops now storeKey c of (value, c1) \<Rightarrow>
        (let password = (case value of Some p \<Rightarrow> p | None \<Rightarrow> ''''); isTouch = (value = None) in
         case (if password = '''' then redis_get storeKey else Inr password) of
           Inl e \<Rightarrow> (Inl (StoreErr e), c1)
         | Inr pwd \<Rightarrow>
             (Inr pwd, if pwd \<noteq> '''' \<and> isTouch then tc_set cops now storeKey pwd AuthTtl c1 else c1)))"

definition Ipv6Auth_ValidShadowSocks :: "string \<Rightarrow> auth_error + string" where
  "Ipv6Auth_ValidShadowSocks ipAddr = Inr ''''"

subsection \<open>Construction\<close>

text \<open>The caches are created with the lifetime \<open>AuthTtl\<close>, not prolonged by reads; \<open>new_cache\<close> is \<^verbatim>\<open>ttlcache.New\<close>
  with these two options.\<close>

record ('c, 's) ipv4_auth =
  a4_cache :: 'c
  a4_shadowSocksCache :: 's

record 'c ipv6_auth =
  a6_cache :: 'c

definition NewIpv4Auth :: "(int \<Rightarrow> bool \<Rightarrow> 'c) \<Rightarrow> (int \<Rightarrow> bool \<Rightarrow> 's) \<Rightarrow> ('c, 's) ipv4_auth" where
  "NewIpv4Auth new_cache new_ss = \<lparr>a4_cache = new_cache AuthTtl False, a4_shadowSocksCache = new_ss AuthTtl False\<rparr>"

definition NewIpv6Auth :: "(int \<Rightarrow> bool \<Rightarrow> 'c) \<Rightarrow> 'c ipv6_auth" where
  "NewIpv6Auth new_cache = \<lparr>a6_cache = new_cache AuthTtl False\<rparr>"

subsection \<open>Runs\<close>

text \<open>A call: its time, Redis at that time, the credentials and the local (IPv4) or peer (IPv6) address.\<close>

type_synonym auth_call = "int \<times> (string \<Rightarrow> string + string) \<times> string \<times> string \<times> string"

fun auth_run4 :: "('c, auth_info) ttl_ops \<Rightarrow> (string \<Rightarrow> string + auth_info) \<Rightarrow> auth_call list \<Rightarrow> 'c \<Rightarrow> 'c" where
  "auth_run4 cops dec [] c = c"
| "auth_run4 cops dec ((now, R, u, p, ip) # calls) c =
     auth_run4 cops dec calls (snd (Ipv4Auth_Valid cops R dec now u p ip c))"

fun auth_run6 :: "('c, ipv6_auth_info) ttl_ops \<Rightarrow> (string \<Rightarrow> string + ipv6_auth_info) \<Rightarrow>
    (string \<Rightarrow> string \<Rightarrow> auth_error + string) \<Rightarrow> auth_call list \<Rightarrow> 'c \<Rightarrow> 'c" where
  "auth_run6 cops dec dyn [] c = c"
| "auth_run6 cops dec dyn ((now, R, u, p, peer) # calls) c =
     auth_run6 cops dec dyn calls (snd (Ipv6Auth_Valid cops R dec dyn now u p peer c))"

text \<open>Shadowsocks keys are looked up by the local address alone.\<close>

fun ss_run :: "('c, string) ttl_ops \<Rightarrow> (int \<times> (string \<Rightarrow> string + string) \<times> string) list \<Rightarrow> 'c \<Rightarrow> 'c" where
  "ss_run cops [] c = c"
| "ss_run cops ((now, R, ip) # calls) c = ss_run cops calls (snd (Ipv4Auth_ValidShadowSocks cops R now ip c))"

definition snapshots :: "(int \<times> (string \<Rightarrow> string + string) \<times> 'q) list \<Rightarrow> (int \<times> (string \<Rightarrow> string + string)) set" where
  "snapshots calls = (\<lambda>(now, R, _). (now, R)) ` set calls"

text \<open>Calls in the order of their times, from \<open>t\<close> on.\<close>

fun ascending :: "int \<Rightarrow> (int \<times> 'q) list \<Rightarrow> bool" where
  "ascending t [] = True"
| "ascending t ((now, _) # calls) = (t \<le> now \<and> ascending now calls)"

text \<open>A record that Redis held under \<open>k\<close> in one of the snapshots taken less than the cache's
  lifetime before \<open>now\<close>.\<close>

definition seen_recently :: "(string \<Rightarrow> string + 'i) \<Rightarrow> (int \<times> (string \<Rightarrow> string + string)) set \<Rightarrow>
    int \<Rightarrow> string \<Rightarrow> 'i \<Rightarrow> bool" where
  "seen_recently dec past now k info \<longleftrightarrow>
     (\<exists>(s, R) \<in> past. now - AuthTtl < s \<and> s \<le> now \<and> (\<exists>str. R k = Inr str \<and> dec str = Inr info))"

locale auth_cache = ttl_cache cops item AuthTtl False
  for cops :: "('c, 'i) ttl_ops" and item
begin

definition cache_ok :: "(string \<Rightarrow> string + 'i) \<Rightarrow> (int \<times> (string \<Rightarrow> string + string)) set \<Rightarrow> int \<Rightarrow> 'c \<Rightarrow> bool" where
  "cache_ok dec past t c \<longleftrightarrow> (\<forall>t' \<ge> t. \<forall>k i e. live (item c) t' k = Some (i, e) \<longrightarrow>
     (\<exists>(s, R) \<in> past. e = s + AuthTtl \<and> s \<le> t \<and> (\<exists>str. R k = Inr str \<and> dec str = Inr i)))"

lemma cache_ok_mono: "cache_ok dec past t c \<Longrightarrow> past \<subseteq> past' \<Longrightarrow> t \<le> t' \<Longrightarrow> cache_ok dec past' t' c"
proof -
  assume a: "cache_ok dec past t c" "past \<subseteq> past'" "t \<le> t'"
  have "\<exists>(s, R) \<in> past'. e = s + AuthTtl \<and> s \<le> t' \<and> (\<exists>str. R k = Inr str \<and> dec str = Inr i)"
    if "t' \<le> u" "live (item c) u k = Some (i, e)" for u k i e
  proof -
    have "t \<le> u" using a(3) that(1) by simp
    with a(1) that(2) have "\<exists>(s, R) \<in> past. e = s + AuthTtl \<and> s \<le> t \<and> (\<exists>str. R k = Inr str \<and> dec str = Inr i)"
      unfolding cache_ok_def by blast
    then obtain s R where "(s, R) \<in> past" "e = s + AuthTtl" "s \<le> t"
      "\<exists>str. R k = Inr str \<and> dec str = Inr i" by auto
    with a(2,3) show ?thesis by (intro bexI [of _ "(s, R)"]) auto
  qed
  then show ?thesis unfolding cache_ok_def by blast
qed

lemma live_expiry: "live it t k = Some (i, e) \<Longrightarrow> t < e"
  by (auto simp: live_def split: option.splits if_splits)

lemma get_live_same: "t \<le> t' \<Longrightarrow> live (item (snd (tc_get cops t k c))) t' = live (item c) t'"
  using get_live [of t t' k c] by (simp split: option.splits prod.splits)

lemma get_ok:
  assumes "cache_ok dec past t c" and "t \<le> now"
  shows "cache_ok dec past now (snd (tc_get cops now k c))"
    and "fst (tc_get cops now k c) = Some i \<Longrightarrow> seen_recently dec (insert (now, R) past) now k i"
proof -
  have "cache_ok dec past now c" using cache_ok_mono [OF assms(1) _ assms(2)] by simp
  then show "cache_ok dec past now (snd (tc_get cops now k c))" unfolding cache_ok_def by (simp add: get_live_same)
  assume "fst (tc_get cops now k c) = Some i"
  then obtain e where e: "live (item c) now k = Some (i, e)" using get_res [of now k c] by auto
  with assms obtain s R' where "(s, R') \<in> past" "e = s + AuthTtl" "s \<le> t"
    "\<exists>str. R' k = Inr str \<and> dec str = Inr i" unfolding cache_ok_def by fastforce
  with live_expiry [OF e] assms(2) show "seen_recently dec (insert (now, R) past) now k i"
    by (force simp: seen_recently_def)
qed

lemma fresh_seen: "R k = Inr str \<Longrightarrow> dec str = Inr i \<Longrightarrow> seen_recently dec (insert (now, R) past) now k i"
  by (auto simp: seen_recently_def AuthTtl_def)

lemma fetch_ok:
  assumes "cache_ok dec past t c" and "t \<le> now" and "fetch_auth cops R dec now k c = (r, c1)"
  shows "cache_ok dec past now c1"
    and "r = Inr (i, b) \<Longrightarrow> seen_recently dec (insert (now, R) past) now k i"
    and "r = Inr (i, True) \<Longrightarrow> \<exists>str. R k = Inr str \<and> dec str = Inr i"
proof -
  have c1: "c1 = snd (tc_get cops now k c)"
    using assms(3) by (auto simp: fetch_auth_def split: prod.splits option.splits sum.splits)
  show "cache_ok dec past now c1" unfolding c1 by (rule get_ok(1) [OF assms(1,2)])
  show "r = Inr (i, True) \<Longrightarrow> \<exists>str. R k = Inr str \<and> dec str = Inr i"
    using assms(3) by (auto simp: fetch_auth_def split: prod.splits option.splits sum.splits)
  show "seen_recently dec (insert (now, R) past) now k i" if r: "r = Inr (i, b)"
  proof (cases b)
    case True
    then have "\<exists>str. R k = Inr str \<and> dec str = Inr i"
      using r assms(3) by (auto simp: fetch_auth_def split: prod.splits option.splits sum.splits)
    then obtain str where "R k = Inr str" "dec str = Inr i" by blast
    then show ?thesis by (rule fresh_seen)
  next
    case False
    then have "fst (tc_get cops now k c) = Some i"
      using r assms(3) by (auto simp: fetch_auth_def split: prod.splits option.splits sum.splits)
    then show ?thesis by (rule get_ok(2) [OF assms(1,2)])
  qed
qed

lemma set_ok:
  assumes "cache_ok dec past now c" and "R k = Inr str" and "dec str = Inr i"
  shows "cache_ok dec (insert (now, R) past) now (tc_set cops now k i AuthTtl c)"
  unfolding cache_ok_def
proof (intro allI impI)
  fix t' k' i' e assume t': "now \<le> t'" and l: "live (item (tc_set cops now k i AuthTtl c)) t' k' = Some (i', e)"
  show "\<exists>(s, R') \<in> insert (now, R) past. e = s + AuthTtl \<and> s \<le> now \<and> (\<exists>str. R' k' = Inr str \<and> dec str = Inr i')"
  proof (cases "k' = k")
    case True
    with l set_live [OF t', of k i AuthTtl c] assms(2,3) show ?thesis
      by (auto simp: until_def split: if_splits)
  next
    case False
    with l set_live [OF t', of k i AuthTtl c] have "live (item c) t' k' = Some (i', e)" by simp
    with assms(1) t' show ?thesis unfolding cache_ok_def by fastforce
  qed
qed

end

text \<open>The authentication caches: entries live for \<open>AuthTtl\<close> from their insertion, reads do not
  prolong them.\<close>

interpretation auth_map: auth_cache "map_ops AuthTtl False" "\<lambda>c. c"
  by (rule auth_cache.intro) (rule live_map_ops)

lemma Ipv4_step:
  assumes "auth_cache cops item" and "auth_cache.cache_ok item dec past t c" and "t \<le> now"
    and "Ipv4Auth_Valid cops R dec now u p ip c = (r, c')"
  shows "auth_cache.cache_ok item dec (insert (now, R) past) now c'"
    and "r = Inr x \<Longrightarrow> x = ip \<and> (\<exists>info. seen_recently dec (insert (now, R) past) now (auth_key u) info \<and>
      ai_Username info = u \<and> ai_Password info = p \<and> ip \<in> set (info_ips info))"
proof -
  obtain r1 c1 where f: "fetch_auth cops R dec now (auth_key u) c = (r1, c1)" by fastforce
  note ok = auth_cache.fetch_ok [OF assms(1,2,3) f]
  have c1: "auth_cache.cache_ok item dec (insert (now, R) past) now c1"
    by (rule auth_cache.cache_ok_mono [OF assms(1) ok(1)]) auto
  show "auth_cache.cache_ok item dec (insert (now, R) past) now c'"
    using assms(4) f c1 ok(3) auth_cache.set_ok [OF assms(1) ok(1)]
    by (auto simp: Ipv4Auth_Valid_def split: sum.splits prod.splits if_splits)
  show "r = Inr x \<Longrightarrow> x = ip \<and> (\<exists>info. seen_recently dec (insert (now, R) past) now (auth_key u) info \<and>
      ai_Username info = u \<and> ai_Password info = p \<and> ip \<in> set (info_ips info))"
    using assms(4) f ok(2)
    by (auto simp: Ipv4Auth_Valid_def split: sum.splits prod.splits if_splits option.splits)
qed

lemma Ipv6_step:
  assumes "auth_cache cops item" and "auth_cache.cache_ok item dec past t c" and "t \<le> now"
    and "Ipv6Auth_Valid cops R dec dyn now u p peer c = (r, c')"
  shows "auth_cache.cache_ok item dec (insert (now, R) past) now c'"
    and "p \<noteq> dynamic_password \<Longrightarrow> r = Inr x \<Longrightarrow>
      \<exists>info. seen_recently dec (insert (now, R) past) now (auth_key u) info \<and>
        i6_Username info = u \<and> i6_Password info = p \<and> \<not> i6_Banned info \<and> i6_Ip info = x \<and> x \<noteq> ''''"
proof -
  obtain r1 c1 where f: "fetch_auth cops R dec now (auth_key u) c = (r1, c1)" by fastforce
  note ok = auth_cache.fetch_ok [OF assms(1,2,3) f]
  have c: "auth_cache.cache_ok item dec (insert (now, R) past) now c"
    by (rule auth_cache.cache_ok_mono [OF assms(1,2)]) (use assms(3) in auto)
  have c1: "auth_cache.cache_ok item dec (insert (now, R) past) now c1"
    by (rule auth_cache.cache_ok_mono [OF assms(1) ok(1)]) auto
  show "auth_cache.cache_ok item dec (insert (now, R) past) now c'"
    using assms(4) f c c1 ok(3) auth_cache.set_ok [OF assms(1) ok(1)]
    by (auto simp: Ipv6Auth_Valid_def split: sum.splits prod.splits if_splits)
  show "p \<noteq> dynamic_password \<Longrightarrow> r = Inr x \<Longrightarrow>
      \<exists>info. seen_recently dec (insert (now, R) past) now (auth_key u) info \<and>
        i6_Username info = u \<and> i6_Password info = p \<and> \<not> i6_Banned info \<and> i6_Ip info = x \<and> x \<noteq> ''''"
    using assms(4) f ok(2)
    by (auto simp: Ipv6Auth_Valid_def split: sum.splits prod.splits if_splits)
qed


lemma run4_fold: "auth_run4 cops dec calls c = fold (\<lambda>(now, R, u, p, ip). snd \<circ> Ipv4Auth_Valid cops R dec now u p ip) calls c"
  by (induction cops dec calls c rule: auth_run4.induct) simp_all

lemma run6_fold: "auth_run6 cops dec dyn calls c = fold (\<lambda>(now, R, u, p, peer). snd \<circ> Ipv6Auth_Valid cops R dec dyn now u p peer) calls c"
  by (induction cops dec dyn calls c rule: auth_run6.induct) simp_all

lemma ss_run_fold: "ss_run cops calls c = fold (\<lambda>(now, R, ip). snd \<circ> Ipv4Auth_ValidShadowSocks cops R now ip) calls c"
  by (induction cops calls c rule: ss_run.induct) simp_all

context auth_cache begin

lemma run_ok:
  assumes step: "\<And>past t c now R q. cache_ok dec past t c \<Longrightarrow> t \<le> now \<Longrightarrow> cache_ok dec (insert (now, R) past) now (f (now, R, q) c)"
  shows "cache_ok dec past t c \<Longrightarrow> ascending t (calls @ [(now, q)]) \<Longrightarrow>
    cache_ok dec (past \<union> snapshots calls) now (fold f calls c)"
proof (induction calls arbitrary: past t c)
  case Nil
  then show ?case using cache_ok_mono by (auto simp: snapshots_def)
next
  case (Cons call calls)
  obtain n R q' where call: "call = (n, R, q')" by (metis prod_cases3)
  have "cache_ok dec (insert (n, R) past) n (f call c)"
    unfolding call by (rule step [OF Cons.prems(1)]) (use Cons.prems(2) call in simp)
  from Cons.IH [OF this] Cons.prems(2) call show ?case
    by (simp add: snapshots_def insert_commute Un_insert_left)
qed

end

lemma run4_ok:
  assumes "auth_cache cops item" and "auth_cache.cache_ok item dec past t c" and "ascending t (calls @ [(now, q)])"
  shows "auth_cache.cache_ok item dec (past \<union> snapshots calls) now (auth_run4 cops dec calls c)"
  unfolding run4_fold
  by (rule auth_cache.run_ok [OF assms(1) _ assms(2,3)]) (auto intro: Ipv4_step(1) [OF assms(1) _ _ prod.collapse [symmetric]])

lemma run6_ok:
  assumes "auth_cache cops item" and "auth_cache.cache_ok item dec past t c" and "ascending t (calls @ [(now, q)])"
  shows "auth_cache.cache_ok item dec (past \<union> snapshots calls) now (auth_run6 cops dec dyn calls c)"
  unfolding run6_fold
  by (rule auth_cache.run_ok [OF assms(1) _ assms(2,3)]) (auto intro: Ipv6_step(1) [OF assms(1) _ _ prod.collapse [symmetric]])

lemma ss_step:
  assumes "auth_cache cops item" and "auth_cache.cache_ok item Inr past t c" and "t \<le> now"
    and "Ipv4Auth_ValidShadowSocks cops R now ip c = (r, c')"
  shows "auth_cache.cache_ok item Inr (insert (now, R) past) now c'"
    and "r = Inr k \<Longrightarrow> k \<noteq> '''' \<Longrightarrow> seen_recently Inr (insert (now, R) past) now (ip @ '':ShadowSocks'') k"
proof -
  let ?key = "ip @ '':ShadowSocks''"
  obtain v c1 where g: "tc_get cops now ?key c = (v, c1)" by fastforce
  note ok = auth_cache.get_ok [OF assms(1,2,3), of ?key, unfolded g, simplified]
  have c1: "auth_cache.cache_ok item Inr (insert (now, R) past) now c1"
    by (rule auth_cache.cache_ok_mono [OF assms(1) ok(1)]) auto
  have put: "auth_cache.cache_ok item Inr (insert (now, R) past) now (tc_set cops now ?key s AuthTtl c1)" if "R ?key = Inr s" for s
    by (rule auth_cache.set_ok [OF assms(1) ok(1), of R ?key s]) (simp_all add: that)
  show "auth_cache.cache_ok item Inr (insert (now, R) past) now c'"
    using assms(4) g c1 put
    by (auto simp: Ipv4Auth_ValidShadowSocks_def Let_def split: sum.splits option.splits if_splits)
  have fresh: "seen_recently Inr (insert (now, R) past) now ?key s" if "R ?key = Inr s" for s
    by (rule auth_cache.fresh_seen [OF assms(1), of R ?key s]) (simp_all add: that)
  show "r = Inr k \<Longrightarrow> k \<noteq> '''' \<Longrightarrow> seen_recently Inr (insert (now, R) past) now ?key k"
    using assms(4) g ok(2) fresh
    by (auto simp: Ipv4Auth_ValidShadowSocks_def Let_def split: sum.splits option.splits if_splits)
qed

lemma ss_run_ok:
  assumes "auth_cache cops item" and "auth_cache.cache_ok item Inr past t c" and "ascending t (calls @ [(now, q)])"
  shows "auth_cache.cache_ok item Inr (past \<union> snapshots calls) now (ss_run cops calls c)"
  unfolding ss_run_fold
  by (rule auth_cache.run_ok [OF assms(1) _ assms(2,3)]) (auto intro: ss_step(1) [OF assms(1) _ _ prod.collapse [symmetric]])

subsection \<open>Properties\<close>

text \<open>
  C7. IPv4 authentication is sound with a bounded delay: in any sequence of calls from an empty
  cache, with Redis changing between them, a login that is accepted returns the local address
  and was backed, less than thirty seconds before, by a record in Redis with this user name, this
  password and this address; so a deleted or changed account stops working after at most thirty
  seconds.
\<close>

theorem Ipv4Auth_sound:
  assumes "ttl_cache cops item AuthTtl False" and "\<forall>t k. live (item c) t k = None"
    and "ascending t (calls @ [(now, R, u, p, ip)])"
    and "fst (Ipv4Auth_Valid cops R dec now u p ip (auth_run4 cops dec calls c)) = Inr x"
  shows "x = ip \<and> (\<exists>info. seen_recently dec (snapshots (calls @ [(now, R, u, p, ip)])) now (auth_key u) info \<and>
    ai_Username info = u \<and> ai_Password info = p \<and> ip \<in> set (info_ips info))"
proof -
  note A = auth_cache.intro [OF assms(1)]
  have "auth_cache.cache_ok item dec {} t c"
    using assms(2) by (simp add: auth_cache.cache_ok_def [OF A])
  from run4_ok [OF A this assms(3)]
  have c: "auth_cache.cache_ok item dec (snapshots calls) now (auth_run4 cops dec calls c)" by simp
  have s: "snapshots (calls @ [(now, R, u, p, ip)]) = insert (now, R) (snapshots calls)"
    by (simp add: snapshots_def)
  show ?thesis unfolding s
    by (rule Ipv4_step(2) [OF A c order_refl prod.collapse [symmetric] assms(4)])
qed

definition demo_info :: auth_info where
  "demo_info = \<lparr>ai_Username = ''bob'', ai_Password = ''pw'', ai_ProxyUsername = '''', ai_ProxyPassword = '''',
     ai_S5Addr = '''', ai_HttpAddr = '''', ai_UpdateUnix = 0, ai_Ips = Some [''10.0.0.1'']\<rparr>"

theorem Ipv4Auth_sound_witness:
  "fst (Ipv4Auth_Valid (map_ops AuthTtl False) (\<lambda>_. Inl ''nil'') (\<lambda>_. Inr demo_info) 20000 ''bob'' ''pw'' ''10.0.0.1''
     (auth_run4 (map_ops AuthTtl False) (\<lambda>_. Inr demo_info)
       [(0, \<lambda>_. Inr ''rec'', ''bob'', ''pw'', ''10.0.0.1'')] Map.empty)) = Inr ''10.0.0.1'' \<and>
   seen_recently (\<lambda>_. Inr demo_info) {(0, \<lambda>_. Inr ''rec''), (20000, \<lambda>_. Inl ''nil'')} 20000 (auth_key ''bob'') demo_info"
proof -
  let ?calls = "[(0, \<lambda>_. Inr ''rec'', ''bob'', ''pw'', ''10.0.0.1'')] :: auth_call list"
  have e: "fst (Ipv4Auth_Valid (map_ops AuthTtl False) (\<lambda>_. Inl ''nil'') (\<lambda>_. Inr demo_info) 20000 ''bob'' ''pw'' ''10.0.0.1''
     (auth_run4 (map_ops AuthTtl False) (\<lambda>_. Inr demo_info) ?calls Map.empty)) = Inr ''10.0.0.1''"
    by (simp add: Ipv4Auth_Valid_def fetch_auth_def map_ops_def map_get_def live_def demo_info_def AuthTtl_def
        info_ips_def auth_key_def)
  have emp: "\<forall>t k. live (Map.empty :: auth_info ttl_map) t k = None" by (simp add: live_def)
  from Ipv4Auth_sound [OF live_map_ops emp _ e, of 0] e show ?thesis
    by (auto simp: snapshots_def seen_recently_def)
qed

text \<open>
  C8. IPv6 authentication is sound with a bounded delay: a login (other than the gateway's
  dynamic one) that is accepted returns the non-empty exit address of a record that Redis held
  less than thirty seconds before, with this user name and password and not banned.
\<close>

theorem Ipv6Auth_sound:
  assumes "ttl_cache cops item AuthTtl False" and "\<forall>t k. live (item c) t k = None"
    and "ascending t (calls @ [(now, R, u, p, peer)])" and "p \<noteq> dynamic_password"
    and "fst (Ipv6Auth_Valid cops R dec dyn now u p peer (auth_run6 cops dec dyn calls c)) = Inr x"
  shows "\<exists>info. seen_recently dec (snapshots (calls @ [(now, R, u, p, peer)])) now (auth_key u) info \<and>
    i6_Username info = u \<and> i6_Password info = p \<and> \<not> i6_Banned info \<and> i6_Ip info = x \<and> x \<noteq> ''''"
proof -
  note A = auth_cache.intro [OF assms(1)]
  have "auth_cache.cache_ok item dec {} t c"
    using assms(2) by (simp add: auth_cache.cache_ok_def [OF A])
  from run6_ok [OF A this assms(3)]
  have c: "auth_cache.cache_ok item dec (snapshots calls) now (auth_run6 cops dec dyn calls c)" by simp
  have s: "snapshots (calls @ [(now, R, u, p, peer)]) = insert (now, R) (snapshots calls)"
    by (simp add: snapshots_def)
  show ?thesis unfolding s
    by (rule Ipv6_step(2) [OF A c order_refl prod.collapse [symmetric] assms(4,5)])
qed

theorem Ipv6Auth_sound_witness:
  "fst (Ipv6Auth_Valid (map_ops AuthTtl False) (\<lambda>_. Inr ''rec'')
     (\<lambda>_. Inr \<lparr>i6_Username = ''al'', i6_Password = ''pw'', i6_Ip = ''::1'', i6_Banned = False\<rparr>)
     (\<lambda>_ _. Inl BadUsername) 0 ''al'' ''pw'' ''1.1.1.1'' Map.empty) = Inr ''::1'' \<and> ''pw'' \<noteq> dynamic_password"
proof -
  let ?dec = "\<lambda>_ :: string. Inr \<lparr>i6_Username = ''al'', i6_Password = ''pw'', i6_Ip = ''::1'', i6_Banned = False\<rparr> :: string + ipv6_auth_info"
  have e: "fst (Ipv6Auth_Valid (map_ops AuthTtl False) (\<lambda>_. Inr ''rec'') ?dec (\<lambda>_ _. Inl BadUsername) 0
      ''al'' ''pw'' ''1.1.1.1'' (auth_run6 (map_ops AuthTtl False) ?dec (\<lambda>_ _. Inl BadUsername) [] Map.empty)) = Inr ''::1''"
    by (simp add: Ipv6Auth_Valid_def fetch_auth_def map_ops_def map_get_def live_def auth_key_def dynamic_password_def)
  have emp: "\<forall>t k. live (Map.empty :: ipv6_auth_info ttl_map) t k = None" by (simp add: live_def)
  have p: "''pw'' \<noteq> dynamic_password" by (simp add: dynamic_password_def)
  from Ipv6Auth_sound [OF live_map_ops emp _ p e, of 0] e p show ?thesis by simp
qed

lemma be_snoc: "be (bs @ [b]) = be bs * 256 + unat b"
  by (induction bs) (auto simp: algebra_simps)

lemma be_big_bytes: "be (big_bytes n) = n"
proof (induction n rule: big_bytes.induct)
  case (1 n)
  show ?case
  proof (cases "n = 0")
    case True
    then show ?thesis by (simp add: big_bytes.simps)
  next
    case False
    then have "be (big_bytes n) = be (big_bytes (n div 256)) * 256 + unat (of_nat (n mod 256) :: byte)"
      by (subst big_bytes.simps) (simp add: be_snoc)
    also have "\<dots> = n div 256 * 256 + n mod 256"
      using 1 False unat_of_nat_byte [of "n mod 256"] by simp
    finally show ?thesis by simp
  qed
qed

lemma length_big_bytes_less: "n < 256 ^ k \<Longrightarrow> length (big_bytes n) \<le> k"
proof (induction k arbitrary: n)
  case 0
  then show ?case by (simp add: big_bytes.simps)
next
  case (Suc k)
  then have "n div 256 < 256 ^ k" by (simp add: less_mult_imp_div_less mult.commute)
  with Suc.IH show ?case by (subst big_bytes.simps) simp
qed

lemma length_big_bytes: "256 ^ k \<le> n \<Longrightarrow> n < 256 ^ Suc k \<Longrightarrow> length (big_bytes n) = Suc k"
proof -
  assume n: "256 ^ k \<le> n" "n < 256 ^ Suc k"
  have "\<not> length (big_bytes n) \<le> k"
  proof
    assume "length (big_bytes n) \<le> k"
    then have "(256 :: nat) ^ length (big_bytes n) \<le> 256 ^ k" by (intro power_increasing) auto
    then have "n < 256 ^ k" using be_less [of "big_bytes n"] unfolding be_big_bytes by linarith
    with n(1) show False by simp
  qed
  with length_big_bytes_less [OF n(2)] show ?thesis by simp
qed

lemma div_add_small: "r < m \<Longrightarrow> (q * m + r) div m = (q :: nat)"
  by simp

text \<open>
  A generated IPv6 exit address lies in its segment: for a segment given as the network address
  of a /52 prefix that starts with a non-zero byte, and an offset below the size of the segment,
  the generated address has sixteen bytes and the same first 52 bits as the segment.
\<close>

theorem RandomIPv6Address_in_segment:
  assumes "parseCIDR (cidr @ ''/52'') = Some (ip, 52)" and "length ip = 16"
    and "be ip mod 2 ^ 76 = 0" and "hd ip \<noteq> 0" and "rnd (2 ^ 76) < 2 ^ 76"
  shows "\<exists>a. RandomIPv6Address parseCIDR rnd cidr = Some a \<and> length a = 16 \<and> be a div 2 ^ 76 = be ip div 2 ^ 76"
proof -
  let ?n = "be ip + rnd (2 ^ 76)"
  have r: "RandomIPv6Address parseCIDR rnd cidr = Some (big_bytes ?n)"
    using assms(1,2) by (simp add: RandomIPv6Address_def To16_def)
  have d: "be ip = be ip div 2 ^ 76 * 2 ^ 76" using assms(3) by (metis add_0_right div_mult_mod_eq)
  have div: "?n div 2 ^ 76 = be ip div 2 ^ 76"
    by (subst d) (rule div_add_small [OF assms(5)])
  obtain b bs where ip: "ip = b # bs" "length bs = 15" using assms(2) by (cases ip) auto
  have "0 < unat b" using assms(4) ip(1) by (simp add: unat_gt_0)
  then have low: "256 ^ 15 \<le> ?n" using ip by (simp add: trans_le_add1)
  have "be ip < 2 ^ 128" using be_less [of ip] assms(2) by simp
  then have "be ip div 2 ^ 76 < 2 ^ 52" by (simp add: less_mult_imp_div_less)
  then have "?n < 2 ^ 128" unfolding div [symmetric] by (simp add: div_less_iff_less_mult)
  then have "length (big_bytes ?n) = 16" using length_big_bytes [OF low] by simp
  with r div be_big_bytes show ?thesis by metis
qed

theorem RandomIPv6Address_in_segment_witness:
  "\<exists>a. RandomIPv6Address (\<lambda>s. if s = ''2a00::/52'' then Some ([42, 0, 0, 0, 0, 0, 0, 0, 0, 0, 0, 0, 0, 0, 0, 0], 52) else None)
       (\<lambda>_. 7) ''2a00::'' = Some a \<and>
     length a = 16 \<and> be a div 2 ^ 76 = be [42, 0, 0, 0, 0, 0, 0, 0, 0, 0, 0, 0, 0, 0, 0, 0] div 2 ^ 76"
  by (rule RandomIPv6Address_in_segment) simp_all

text \<open>
  C9. Shadowsocks keys are current: with the caches of a new \<^verbatim>\<open>Ipv4Auth\<close>, in any sequence of lookups with Redis
  changing between them, a key that is returned was stored in Redis for this address less than thirty
  seconds before; so a deleted key stops working after at most thirty seconds.
\<close>

theorem ShadowSocks_sound:
  assumes "ttl_cache cops item AuthTtl False" and "\<forall>t k. live (item (new_ss AuthTtl False)) t k = None"
    and "ascending t (calls @ [(now, R, ip)])"
    and "fst (Ipv4Auth_ValidShadowSocks cops R now ip
      (ss_run cops calls (a4_shadowSocksCache (NewIpv4Auth new_cache new_ss)))) = Inr key" and "key \<noteq> ''''"
  shows "seen_recently Inr (snapshots (calls @ [(now, R, ip)])) now (ip @ '':ShadowSocks'') key"
proof -
  note A = auth_cache.intro [OF assms(1)]
  let ?c = "a4_shadowSocksCache (NewIpv4Auth new_cache new_ss)"
  have "auth_cache.cache_ok item Inr {} t ?c"
    using assms(2) by (simp add: auth_cache.cache_ok_def [OF A] NewIpv4Auth_def)
  from ss_run_ok [OF A this assms(3)]
  have c: "auth_cache.cache_ok item Inr (snapshots calls) now (ss_run cops calls ?c)" by simp
  have s: "snapshots (calls @ [(now, R, ip)]) = insert (now, R) (snapshots calls)"
    by (simp add: snapshots_def)
  show ?thesis unfolding s
    by (rule ss_step(2) [OF A c order_refl prod.collapse [symmetric] assms(4,5)])
qed

theorem ShadowSocks_sound_witness:
  "seen_recently Inr (snapshots [(0, (\<lambda>_. Inr ''secret''), ''10.0.0.1''), (20000, (\<lambda>_. Inl ''nil''), ''10.0.0.1'')])
     20000 ''10.0.0.1:ShadowSocks'' ''secret''"
proof -
  let ?calls = "[(0 :: int, (\<lambda>_. Inr ''secret'') :: string \<Rightarrow> string + string, ''10.0.0.1'')]"
  let ?new = "(\<lambda>_ _. Map.empty) :: int \<Rightarrow> bool \<Rightarrow> string ttl_map"
  have e: "fst (Ipv4Auth_ValidShadowSocks (map_ops AuthTtl False) (\<lambda>_. Inl ''nil'') 20000 ''10.0.0.1''
      (ss_run (map_ops AuthTtl False) ?calls (a4_shadowSocksCache (NewIpv4Auth ?new ?new)))) = Inr ''secret''"
    by (simp add: Ipv4Auth_ValidShadowSocks_def Let_def NewIpv4Auth_def map_ops_def map_get_def live_def AuthTtl_def)
  have "\<forall>t k. live (?new AuthTtl False) t k = None" by (simp add: live_def)
  from ShadowSocks_sound [OF live_map_ops this _ e, of 0] show ?thesis by simp
qed

end
