(* ===== verification/AuthEvents.thy ===== *)
theory AuthEvents
  imports Auth Manager
begin

text \<open>
  \<^verbatim>\<open>server/rabbitmq_consume.go\<close> and the older per-queue consumers \<^verbatim>\<open>server/rabbitmq_*_consume.go\<close>:
  account events arriving over RabbitMQ change the account records in Redis and close user
  connections. Redis is a parameter: a record of the commands used, and the locale \<open>redis_store\<close>
  with what a command that reports success has done. The codecs (\<^verbatim>\<open>json\<close>, \<^verbatim>\<open>proto\<close>) are parameters
  too; \<open>Inl\<close> is an error. The state of a handler is Redis together with the map of user contexts.
\<close>

datatype redis_cmd = CSet string string | CDel string | CSAdd string string

record 'r redis_ops =
  r_get :: "'r \<Rightarrow> string \<Rightarrow> string + string"
  r_set :: "string \<Rightarrow> string \<Rightarrow> 'r \<Rightarrow> string option \<times> 'r"
  r_del :: "string \<Rightarrow> 'r \<Rightarrow> string option \<times> 'r"
  r_exec :: "redis_cmd list \<Rightarrow> 'r \<Rightarrow> string option \<times> 'r"

record codecs =
  json_enc :: "auth_info \<Rightarrow> string + string"
  json_dec :: "string \<Rightarrow> string + auth_info"
  proto_enc4 :: "auth_info \<Rightarrow> string + string"
  proto_dec4 :: "string \<Rightarrow> string + auth_info"
  proto_enc6 :: "ipv6_auth_info \<Rightarrow> string + string"
  proto_dec6 :: "string \<Rightarrow> string + ipv6_auth_info"

record disconnect_info =
  di_Username :: string
  di_Ips :: "string list"

record shadow_socks_data =
  ss_Ip :: string
  ss_Password :: string

datatype event_data = DAuthInfo auth_info | DIpv6AuthInfo ipv6_auth_info
  | DIpv6AuthInfoList "ipv6_auth_info list" | DDisconnectInfo disconnect_info
  | DShadowSocksData shadow_socks_data | DIpv6GEOInfo "(string \<times> string) list"

record auth_event =
  ev_Type :: int
  ev_Data :: "event_data option"

definition GetAuthInfo :: "auth_event \<Rightarrow> auth_info option" where
  "GetAuthInfo ev = (case ev_Data ev of Some (DAuthInfo x) \<Rightarrow> Some x | _ \<Rightarrow> None)"

definition GetIpv6AuthInfo :: "auth_event \<Rightarrow> ipv6_auth_info option" where
  "GetIpv6AuthInfo ev = (case ev_Data ev of Some (DIpv6AuthInfo x) \<Rightarrow> Some x | _ \<Rightarrow> None)"

definition GetIpv6AuthInfoList :: "auth_event \<Rightarrow> ipv6_auth_info list option" where
  "GetIpv6AuthInfoList ev = (case ev_Data ev of Some (DIpv6AuthInfoList x) \<Rightarrow> Some x | _ \<Rightarrow> None)"

definition GetDisconnectInfo :: "auth_event \<Rightarrow> disconnect_info option" where
  "GetDisconnectInfo ev = (case ev_Data ev of Some (DDisconnectInfo x) \<Rightarrow> Some x | _ \<Rightarrow> None)"

definition GetShadowSocksData :: "auth_event \<Rightarrow> shadow_socks_data option" where
  "GetShadowSocksData ev = (case ev_Data ev of Some (DShadowSocksData x) \<Rightarrow> Some x | _ \<Rightarrow> None)"

definition GetIpv6GeoInfo :: "auth_event \<Rightarrow> (string \<times> string) list option" where
  "GetIpv6GeoInfo ev = (case ev_Data ev of Some (DIpv6GEOInfo x) \<Rightarrow> Some x | _ \<Rightarrow> None)"

type_synonym ('r, 'm) ev_state = "'r \<times> 'm \<times> ctx_heap"
type_synonym ('r, 'm) ev_result = "(string option \<times> ('r, 'm) ev_state) outcome"

subsection \<open>IPv4 accounts\<close>

definition handlerAuthEventIpv4SetUserData :: "'r redis_ops \<Rightarrow> codecs \<Rightarrow> auth_info option \<Rightarrow> ('r, 'm) ev_state \<Rightarrow>
    ('r, 'm) ev_result" where
  "handlerAuthEventIpv4SetUserData rops cd info = (\<lambda>(r, um). case info of
     None \<Rightarrow> Ret (Some ''authInfo is nil'', r, um)
   | Some authInfo \<Rightarrow>
       if ai_Username authInfo = '''' then Ret (Some ''authInfo.username is nil'', r, um)
       else case json_enc cd authInfo of
         Inl e \<Rightarrow> Ret (Some e, r, um)
       | Inr data \<Rightarrow> (case r_set rops (auth_key (ai_Username authInfo)) data r of (e, r1) \<Rightarrow> Ret (e, r1, um)))"

text \<open>An error of \<^verbatim>\<open>DEL\<close> is logged and dropped.\<close>

definition handlerAuthEventIpv4DeleteUserData :: "'r redis_ops \<Rightarrow> auth_info option \<Rightarrow> ('r, 'm) ev_state \<Rightarrow>
    ('r, 'm) ev_result" where
  "handlerAuthEventIpv4DeleteUserData rops info = (\<lambda>(r, um). case info of
     None \<Rightarrow> Ret (Some ''authInfo is nil'', r, um)
   | Some authInfo \<Rightarrow>
       if ai_Username authInfo = '''' then Ret (Some ''authInfo.username is nil'', r, um)
       else (case r_del rops (auth_key (ai_Username authInfo)) r of (_, r1) \<Rightarrow> Ret (None, r1, um)))"

text \<open>The loop \<^verbatim>\<open>for k, v := range authInfo.Ips { saveInfo.Ips[k] = v }\<close>; writing to a nil map panics.\<close>

fun add_ips :: "string list \<Rightarrow> string list option \<Rightarrow> string list option outcome" where
  "add_ips [] dst = Ret dst"
| "add_ips (k # ks) None = Panic"
| "add_ips (k # ks) (Some ds) = add_ips ks (Some (if k \<in> set ds then ds else ds @ [k]))"

text \<open>When Redis has no record, \<^verbatim>\<open>saveInfo\<close> is the event's record itself, so the loop writes each key
  of a map into the same map.\<close>

definition merge_ips :: "auth_info \<Rightarrow> auth_info \<Rightarrow> auth_info outcome" where
  "merge_ips authInfo saveInfo =
     (case add_ips (info_ips authInfo) (ai_Ips saveInfo) of
        Panic \<Rightarrow> Panic
      | Ret ips \<Rightarrow> Ret (saveInfo\<lparr>ai_Ips := ips\<rparr>))"

definition handlerAuthEventIpv4AddUserData :: "'r redis_ops \<Rightarrow> codecs \<Rightarrow> int \<Rightarrow> auth_info option \<Rightarrow>
    ('r, 'm) ev_state \<Rightarrow> ('r, 'm) ev_result" where
  "handlerAuthEventIpv4AddUserData rops cd now info = (\<lambda>(r, um). case info of
     None \<Rightarrow> Ret (Some ''authInfo is nil'', r, um)
   | Some authInfo \<Rightarrow>
       if ai_Username authInfo = '''' then Ret (Some ''authInfo.username is nil'', r, um)
       else (case (case r_get rops r (auth_key (ai_Username authInfo)) of
                     Inl _ \<Rightarrow> Inr authInfo
                   | Inr str \<Rightarrow> json_dec cd str) of
           Inl e \<Rightarrow> Ret (Some e, r, um)
         | Inr saveInfo \<Rightarrow> (case merge_ips authInfo saveInfo of
             Panic \<Rightarrow> Panic
           | Ret merged \<Rightarrow>
               (let saved = merged\<lparr>ai_UpdateUnix := now\<rparr>;
                    data = (case json_enc cd saved of Inl _ \<Rightarrow> '''' | Inr d \<Rightarrow> d) in
                case r_set rops (auth_key (ai_Username saved)) data r of (e, r1) \<Rightarrow> Ret (e, r1, um)))))"

text \<open>\<^verbatim>\<open>Pop\<close> and \<^verbatim>\<open>cancel\<close> for every key of the iteration whose part before the first colon is the user.\<close>

definition user_of_key :: "string \<Rightarrow> string" where
  "user_of_key k = hd (split_on CHR '':'' k)"

fun close_keys :: "('m, addr, ctx_heap) cmap_ops \<Rightarrow> string list \<Rightarrow> 'm \<times> ctx_heap \<Rightarrow> 'm \<times> ctx_heap" where
  "close_keys ops [] s = s"
| "close_keys ops (k # ks) s = close_keys ops ks (snd (CloseUserConnections ops k s))"

definition disconnect :: "('m, addr, ctx_heap) cmap_ops \<Rightarrow> disconnect_info \<Rightarrow> 'm \<times> ctx_heap \<Rightarrow> 'm \<times> ctx_heap" where
  "disconnect ops info s =
     (if length (di_Ips info) = 0
      then close_keys ops (filter (\<lambda>k. user_of_key k = di_Username info) (map fst (cm_iter ops (fst s)))) s
      else close_keys ops (map (\<lambda>ip. di_Username info @ '':'' @ ip) (di_Ips info)) s)"

definition handlerAuthEventIpv4DisconnectUserData :: "('m, addr, ctx_heap) cmap_ops \<Rightarrow> disconnect_info option \<Rightarrow>
    ('r, 'm) ev_state \<Rightarrow> ('r, 'm) ev_result" where
  "handlerAuthEventIpv4DisconnectUserData ops info = (\<lambda>(r, um). case info of
     None \<Rightarrow> Ret (Some ''disconnectInfo is nil'', r, um)
   | Some di \<Rightarrow>
       if di_Username di = '''' then Ret (Some ''disconnectInfo.username is nil'', r, um)
       else Ret (None, r, disconnect ops di um))"

subsection \<open>IPv6 accounts\<close>

definition handlerAuthEventIpv6SetUserData :: "'r redis_ops \<Rightarrow> codecs \<Rightarrow> ipv6_auth_info option \<Rightarrow>
    ('r, 'm) ev_state \<Rightarrow> ('r, 'm) ev_result" where
  "handlerAuthEventIpv6SetUserData rops cd info = (\<lambda>(r, um). case info of
     None \<Rightarrow> Ret (Some ''ipv6AuthInfo is nil'', r, um)
   | Some i6 \<Rightarrow>
       if i6_Username i6 = '''' then Ret (Some ''ipv6AuthInfo.username is nil'', r, um)
       else case proto_enc6 cd i6 of
         Inl e \<Rightarrow> Ret (Some e, r, um)
       | Inr data \<Rightarrow> (case r_set rops (auth_key (i6_Username i6)) data r of (e, r1) \<Rightarrow> Ret (e, r1, um)))"

text \<open>The pipelined \<^verbatim>\<open>SET\<close>s of a batch: none is sent when a record fails to encode.\<close>

fun set_cmds :: "codecs \<Rightarrow> ipv6_auth_info list \<Rightarrow> string + redis_cmd list" where
  "set_cmds cd [] = Inr []"
| "set_cmds cd (i # is) = (case proto_enc6 cd i of
     Inl e \<Rightarrow> Inl e
   | Inr data \<Rightarrow> (case set_cmds cd is of
       Inl e \<Rightarrow> Inl e
     | Inr cs \<Rightarrow> Inr (CSet (auth_key (i6_Username i)) data # cs)))"

definition handlerAuthEventIpv6SetUserDataBatch :: "'r redis_ops \<Rightarrow> codecs \<Rightarrow> ipv6_auth_info list option \<Rightarrow>
    ('r, 'm) ev_state \<Rightarrow> ('r, 'm) ev_result" where
  "handlerAuthEventIpv6SetUserDataBatch rops cd infos = (\<lambda>(r, um). case infos of
     None \<Rightarrow> Ret (Some ''ipv6AuthInfo is nil'', r, um)
   | Some is \<Rightarrow>
       if length is \<le> 0 then Ret (Some ''ipv6AuthInfoList.Ipv6AuthInfoList is empty'', r, um)
       else case set_cmds cd is of
         Inl e \<Rightarrow> Ret (Some e, r, um)
       | Inr cmds \<Rightarrow> (case r_exec rops cmds r of (e, r1) \<Rightarrow> Ret (e, r1, um)))"

definition handlerAuthEventIpv6DeleteUserData :: "'r redis_ops \<Rightarrow> ipv6_auth_info option \<Rightarrow>
    ('r, 'm) ev_state \<Rightarrow> ('r, 'm) ev_result" where
  "handlerAuthEventIpv6DeleteUserData rops info = (\<lambda>(r, um). case info of
     None \<Rightarrow> Ret (Some ''ipv6AuthInfo is nil'', r, um)
   | Some i6 \<Rightarrow>
       if i6_Username i6 = '''' then Ret (Some ''ipv6AuthInfo.username is nil'', r, um)
       else (case r_del rops (auth_key (i6_Username i6)) r of (e, r1) \<Rightarrow> Ret (e, r1, um)))"

definition handlerAuthEventIpv6DeleteUserDataBatch :: "'r redis_ops \<Rightarrow> ipv6_auth_info list option \<Rightarrow>
    ('r, 'm) ev_state \<Rightarrow> ('r, 'm) ev_result" where
  "handlerAuthEventIpv6DeleteUserDataBatch rops infos = (\<lambda>(r, um). case infos of
     None \<Rightarrow> Ret (Some ''ipv6AuthInfo is nil'', r, um)
   | Some is \<Rightarrow>
       if length is \<le> 0 then Ret (Some ''ipv6AuthInfoList.Ipv6AuthInfoList is empty'', r, um)
       else (case r_exec rops (map (\<lambda>i. CDel (auth_key (i6_Username i))) is) r of (e, r1) \<Rightarrow> Ret (e, r1, um)))"

definition handlerAuthEventIpv6BanUserData :: "'r redis_ops \<Rightarrow> codecs \<Rightarrow> ('m, addr, ctx_heap) cmap_ops \<Rightarrow>
    ipv6_auth_info option \<Rightarrow> ('r, 'm) ev_state \<Rightarrow> ('r, 'm) ev_result" where
  "handlerAuthEventIpv6BanUserData rops cd ops info = (\<lambda>(r, um). case info of
     None \<Rightarrow> Ret (Some ''ipv6AuthInfo is nil'', r, um)
   | Some i6 \<Rightarrow>
       if i6_Username i6 = '''' then Ret (Some ''ipv6AuthInfo.username is nil'', r, um)
       else let banned = i6\<lparr>i6_Banned := True\<rparr>;
                data = (case proto_enc6 cd banned of Inl _ \<Rightarrow> '''' | Inr d \<Rightarrow> d) in
         case r_set rops (auth_key (i6_Username i6)) data r of
           (e, r1) \<Rightarrow> Ret (e, r1, snd (CloseUserConnections ops (i6_Username i6) um)))"

definition handlerAuthEventIpv6BanUserDataBatch :: "'r redis_ops \<Rightarrow> codecs \<Rightarrow> ('m, addr, ctx_heap) cmap_ops \<Rightarrow>
    ipv6_auth_info list option \<Rightarrow> ('r, 'm) ev_state \<Rightarrow> ('r, 'm) ev_result" where
  "handlerAuthEventIpv6BanUserDataBatch rops cd ops infos = (\<lambda>(r, um). case infos of
     None \<Rightarrow> Ret (Some ''ipv6AuthInfo is nil'', r, um)
   | Some is \<Rightarrow>
       if length is \<le> 0 then Ret (Some ''ipv6AuthInfoList.Ipv6AuthInfoList is empty'', r, um)
       else case set_cmds cd (map (\<lambda>i. i\<lparr>i6_Banned := True\<rparr>) is) of
         Inl e \<Rightarrow> Ret (Some e, r, um)
       | Inr cmds \<Rightarrow> (case r_exec rops cmds r of
           (Some e, r1) \<Rightarrow> Ret (Some e, r1, um)
         | (None, r1) \<Rightarrow> Ret (None, r1, close_keys ops (map i6_Username is) um)))"

subsection \<open>ShadowSocks passwords and city segments\<close>

definition shadow_key :: "string \<Rightarrow> string" where
  "shadow_key ip = ip @ '':ShadowSocks''"

definition handlerAuthEventAddShadowSocksData :: "'r redis_ops \<Rightarrow> shadow_socks_data option \<Rightarrow>
    ('r, 'm) ev_state \<Rightarrow> ('r, 'm) ev_result" where
  "handlerAuthEventAddShadowSocksData rops d = (\<lambda>(r, um). case d of
     None \<Rightarrow> Ret (Some ''data is nil'', r, um)
   | Some ss \<Rightarrow>
       if ss_Ip ss = '''' then Ret (Some ''data.ip is nil'', r, um)
       else (case r_set rops (shadow_key (ss_Ip ss)) (ss_Password ss) r of (e, r1) \<Rightarrow> Ret (e, r1, um)))"

definition handlerAuthEventDeleteShadowSocksData :: "'r redis_ops \<Rightarrow> shadow_socks_data option \<Rightarrow>
    ('r, 'm) ev_state \<Rightarrow> ('r, 'm) ev_result" where
  "handlerAuthEventDeleteShadowSocksData rops d = (\<lambda>(r, um). case d of
     None \<Rightarrow> Ret (Some ''data is nil'', r, um)
   | Some ss \<Rightarrow>
       if ss_Ip ss = '''' then Ret (Some ''data.ip is nil'', r, um)
       else (case r_del rops (shadow_key (ss_Ip ss)) r of (e, r1) \<Rightarrow> Ret (e, r1, um)))"

definition handlerAuthEventIpv6SEOData :: "'r redis_ops \<Rightarrow> (string \<times> string) list option \<Rightarrow>
    ('r, 'm) ev_state \<Rightarrow> ('r, 'm) ev_result" where
  "handlerAuthEventIpv6SEOData rops d = (\<lambda>(r, um). case d of
     None \<Rightarrow> Ret (Some ''authInfo is nil'', r, um)
   | Some citySeg \<Rightarrow>
       if length citySeg \<le> 0 then Ret (Some ''Ipv6GEOInfo.CitySeg is empty'', r, um)
       else (case r_exec rops
               (concat (map (\<lambda>(k, v). [CSet (CitySegPrefix @ k) v, CSAdd AllCitySegSetPrefix v]) citySeg)) r of
           (e, r1) \<Rightarrow> Ret (e, r1, um)))"

subsection \<open>Dispatch\<close>

text \<open>The types of account events.\<close>

definition AuthEventIpv4SetUserData :: int where [simp]: "AuthEventIpv4SetUserData = 1"
definition AuthEventIpv4DeleteUserData :: int where [simp]: "AuthEventIpv4DeleteUserData = 2"
definition AuthEventIpv4AddUserData :: int where [simp]: "AuthEventIpv4AddUserData = 3"
definition AuthEventIpv4DisconnectUserData :: int where [simp]: "AuthEventIpv4DisconnectUserData = 4"
definition AuthEventIpv6SetUserData :: int where [simp]: "AuthEventIpv6SetUserData = 5"
definition AuthEventIpv6SetUserDataBatch :: int where [simp]: "AuthEventIpv6SetUserDataBatch = 6"
definition AuthEventIpv6DeleteUserData :: int where [simp]: "AuthEventIpv6DeleteUserData = 7"
definition AuthEventIpv6DeleteUserDataBatch :: int where [simp]: "AuthEventIpv6DeleteUserDataBatch = 8"
definition AuthEventIpv6BanUserData :: int where [simp]: "AuthEventIpv6BanUserData = 9"
definition AuthEventIpv6BanUserDataBatch :: int where [simp]: "AuthEventIpv6BanUserDataBatch = 10"
definition AuthEventAddShadowSocksData :: int where [simp]: "AuthEventAddShadowSocksData = 11"
definition AuthEventDeleteShadowSocksData :: int where [simp]: "AuthEventDeleteShadowSocksData = 12"
definition AuthEventIpv6SEOData :: int where [simp]: "AuthEventIpv6SEOData = 13"

text \<open>\<open>decE\<close> is \<^verbatim>\<open>proto.Unmarshal\<close> into an \<^verbatim>\<open>AuthEvent\<close>. An event of an unknown type is accepted and ignored.\<close>

definition runRabbitmqAuthEventConsumeAction :: "(bytes \<Rightarrow> string + auth_event) \<Rightarrow> 'r redis_ops \<Rightarrow> codecs \<Rightarrow>
    ('m, addr, ctx_heap) cmap_ops \<Rightarrow> int \<Rightarrow> bytes \<Rightarrow> ('r, 'm) ev_state \<Rightarrow> ('r, 'm) ev_result" where
  "runRabbitmqAuthEventConsumeAction decE rops cd ops now body st = (case decE body of
     Inl e \<Rightarrow> Ret (Some e, st)
   | Inr ev \<Rightarrow>
       if ev_Type ev = AuthEventIpv4SetUserData then handlerAuthEventIpv4SetUserData rops cd (GetAuthInfo ev) st
       else if ev_Type ev = AuthEventIpv4DeleteUserData then handlerAuthEventIpv4DeleteUserData rops (GetAuthInfo ev) st
       else if ev_Type ev = AuthEventIpv4AddUserData then handlerAuthEventIpv4AddUserData rops cd now (GetAuthInfo ev) st
       else if ev_Type ev = AuthEventIpv4DisconnectUserData then handlerAuthEventIpv4DisconnectUserData ops (GetDisconnectInfo ev) st
       else if ev_Type ev = AuthEventIpv6SetUserData then handlerAuthEventIpv6SetUserData rops cd (GetIpv6AuthInfo ev) st
       else if ev_Type ev = AuthEventIpv6SetUserDataBatch then handlerAuthEventIpv6SetUserDataBatch rops cd (GetIpv6AuthInfoList ev) st
       else if ev_Type ev = AuthEventIpv6DeleteUserData then handlerAuthEventIpv6DeleteUserData rops (GetIpv6AuthInfo ev) st
       else if ev_Type ev = AuthEventIpv6DeleteUserDataBatch then handlerAuthEventIpv6DeleteUserDataBatch rops (GetIpv6AuthInfoList ev) st
       else if ev_Type ev = AuthEventIpv6BanUserData then handlerAuthEventIpv6BanUserData rops cd ops (GetIpv6AuthInfo ev) st
       else if ev_Type ev = AuthEventIpv6BanUserDataBatch then handlerAuthEventIpv6BanUserDataBatch rops cd ops (GetIpv6AuthInfoList ev) st
       else if ev_Type ev = AuthEventAddShadowSocksData then handlerAuthEventAddShadowSocksData rops (GetShadowSocksData ev) st
       else if ev_Type ev = AuthEventDeleteShadowSocksData then handlerAuthEventDeleteShadowSocksData rops (GetShadowSocksData ev) st
       else if ev_Type ev = AuthEventIpv6SEOData then handlerAuthEventIpv6SEOData rops (GetIpv6GeoInfo ev) st
       else Ret (None, st))"

text \<open>\<^verbatim>\<open>EventSuccess\<close> of the event consumer: false asks for a retry.\<close>

definition authEvent_EventSuccess :: "string option \<Rightarrow> bool" where
  "authEvent_EventSuccess err = (if err \<noteq> None then False else True)"

subsection \<open>The per-queue consumers\<close>

datatype ack = Ack | Nack | AutoAck

definition runRabbitmqSetUserDataQueueConsumeAction :: "'r redis_ops \<Rightarrow> codecs \<Rightarrow> string \<Rightarrow> 'r \<Rightarrow> ack \<times> 'r" where
  "runRabbitmqSetUserDataQueueConsumeAction rops cd body r = (case proto_dec4 cd body of
     Inl _ \<Rightarrow> (Nack, r)
   | Inr info \<Rightarrow> (case r_set rops (auth_key (ai_Username info)) body r of
       (Some _, r1) \<Rightarrow> (Nack, r1) | (None, r1) \<Rightarrow> (Ack, r1)))"

definition runRabbitmqSetUserIpv6DataQueueConsumeAction :: "'r redis_ops \<Rightarrow> codecs \<Rightarrow> string \<Rightarrow> 'r \<Rightarrow> ack \<times> 'r" where
  "runRabbitmqSetUserIpv6DataQueueConsumeAction rops cd body r = (case proto_dec6 cd body of
     Inl _ \<Rightarrow> (Nack, r)
   | Inr info \<Rightarrow> (case r_set rops (auth_key (i6_Username info)) body r of
       (Some _, r1) \<Rightarrow> (Nack, r1) | (None, r1) \<Rightarrow> (Ack, r1)))"

definition runRabbitmqAddUserDataQueueConsumeAction :: "'r redis_ops \<Rightarrow> codecs \<Rightarrow> int \<Rightarrow> string \<Rightarrow> 'r \<Rightarrow>
    (ack \<times> 'r) outcome" where
  "runRabbitmqAddUserDataQueueConsumeAction rops cd now body r = (case proto_dec4 cd body of
     Inl _ \<Rightarrow> Ret (Nack, r)
   | Inr info \<Rightarrow> (case (case r_get rops r (auth_key (ai_Username info)) of
         Inl _ \<Rightarrow> Inr info | Inr str \<Rightarrow> proto_dec4 cd str) of
       Inl _ \<Rightarrow> Ret (Nack, r)
     | Inr authInfo \<Rightarrow> (case merge_ips info authInfo of
         Panic \<Rightarrow> Panic
       | Ret merged \<Rightarrow>
           (let saved = merged\<lparr>ai_UpdateUnix := now\<rparr>;
                data = (case proto_enc4 cd saved of Inl _ \<Rightarrow> '''' | Inr d \<Rightarrow> d) in
            case r_set rops (auth_key (ai_Username saved)) data r of
              (Some _, r1) \<Rightarrow> Ret (Nack, r1) | (None, r1) \<Rightarrow> Ret (Ack, r1)))))"

definition runRabbitmqDeleteUserDataQueueConsumeAction :: "'r redis_ops \<Rightarrow> codecs \<Rightarrow> string \<Rightarrow> 'r \<Rightarrow> 'r" where
  "runRabbitmqDeleteUserDataQueueConsumeAction rops cd body r = (case proto_dec4 cd body of
     Inl _ \<Rightarrow> r | Inr info \<Rightarrow> snd (r_del rops (auth_key (ai_Username info)) r))"

definition runRabbitmqDeleteUserIpv6DataQueueConsumeAction :: "'r redis_ops \<Rightarrow> codecs \<Rightarrow> string \<Rightarrow> 'r \<Rightarrow> 'r" where
  "runRabbitmqDeleteUserIpv6DataQueueConsumeAction rops cd body r = (case proto_dec6 cd body of
     Inl _ \<Rightarrow> r | Inr info \<Rightarrow> snd (r_del rops (auth_key (i6_Username info)) r))"

definition runRabbitmqDisconnectQueueConsumeAction :: "('m, addr, ctx_heap) cmap_ops \<Rightarrow>
    (string \<Rightarrow> string + disconnect_info) \<Rightarrow> string \<Rightarrow> 'm \<times> ctx_heap \<Rightarrow> 'm \<times> ctx_heap" where
  "runRabbitmqDisconnectQueueConsumeAction ops dec body s = (case dec body of
     Inl _ \<Rightarrow> s
   | Inr di \<Rightarrow> if di_Username di = '''' then s else disconnect ops di s)"

text \<open>The blacklist broadcast replaces the list; a message that does not decode leaves it.\<close>

definition SetBlackMap :: "string list \<Rightarrow> string list option" where
  "SetBlackMap bm = Some bm"

definition runRabbitmqBlacklistConsumeAction :: "(bytes \<Rightarrow> string + string list) \<Rightarrow> bytes \<Rightarrow>
    string list option \<Rightarrow> string list option" where
  "runRabbitmqBlacklistConsumeAction dec body blackMap = (case dec body of
     Inl _ \<Rightarrow> blackMap | Inr bl \<Rightarrow> SetBlackMap bl)"

subsection \<open>The contract of the store\<close>

locale redis_store =
  fixes rops :: "'r redis_ops"
    and content :: "'r \<Rightarrow> string \<Rightarrow> string option"
  assumes get_law: "r_get rops r k = (case content r k of Some v \<Rightarrow> Inr v | None \<Rightarrow> Inl ''redis: nil'')"
    and set_law: "r_set rops k v r = (None, r') \<Longrightarrow> content r' = (content r)(k \<mapsto> v)"
    and del_law: "r_del rops k r = (None, r') \<Longrightarrow> content r' = (content r)(k := None)"

definition map_redis :: "(string \<Rightarrow> string option) redis_ops" where
  "map_redis = \<lparr>r_get = (\<lambda>r k. case r k of Some v \<Rightarrow> Inr v | None \<Rightarrow> Inl ''redis: nil''),
     r_set = (\<lambda>k v r. (None, r(k \<mapsto> v))), r_del = (\<lambda>k r. (None, r(k := None))),
     r_exec = (\<lambda>cs r. (None, fold (\<lambda>c r. case c of CSet k v \<Rightarrow> r(k \<mapsto> v) | CDel k \<Rightarrow> r(k := None)
       | CSAdd _ _ \<Rightarrow> r) cs r))\<rparr>"

interpretation mr: redis_store map_redis "\<lambda>r. r"
  by unfold_locales (auto simp: map_redis_def)

subsection \<open>Lemmas\<close>

lemma uncached_fetch:
  assumes "ttl_cache cops item ttl touch" and "live (item c) now k = None"
  shows "fst (fetch_auth cops R dec now k c) =
    (case R k of Inl e \<Rightarrow> Inl (StoreErr e)
     | Inr str \<Rightarrow> (case dec str of Inl e \<Rightarrow> Inl (StoreErr e) | Inr i \<Rightarrow> Inr (i, True)))"
proof -
  have "fst (tc_get cops now k c) = None" using ttl_cache.get_res [OF assms(1)] assms(2) by simp
  then show ?thesis by (cases "tc_get cops now k c") (auto simp: fetch_auth_def split: sum.splits)
qed

lemma uncached_Valid4:
  assumes "ttl_cache cops item ttl touch" and "live (item c) now (auth_key u) = None"
  shows "fst (Ipv4Auth_Valid cops R dec now u p ip c) =
    (case R (auth_key u) of Inl e \<Rightarrow> Inl (StoreErr e)
     | Inr str \<Rightarrow> (case dec str of Inl e \<Rightarrow> Inl (StoreErr e)
       | Inr i \<Rightarrow> if ai_Username i \<noteq> u \<or> ai_Password i \<noteq> p then Inl WrongPassword
           else if ip \<notin> set (info_ips i) then Inl WrongIp else Inr ip))"
  using uncached_fetch [OF assms, of R dec]
  by (cases "fetch_auth cops R dec now (auth_key u) c") (auto simp: Ipv4Auth_Valid_def split: sum.splits prod.splits)

lemma close_keys_exact:
  assumes "user_map ops lookup minv"
  shows "minv m \<Longrightarrow> user_inv lookup (m, h) regs \<Longrightarrow> (k, q) \<in> set regs \<Longrightarrow>
    ctx_cancelled (ctxs (snd (close_keys ops ks (m, h))) q) \<longleftrightarrow> k \<in> set ks \<or> ctx_cancelled (ctxs h q)"
proof (induction ks arbitrary: m h)
  case (Cons k1 ks)
  obtain b m1 h1 where c: "CloseUserConnections ops k1 (m, h) = (b, m1, h1)" by (metis prod_cases3)
  have i: "minv m1 \<and> user_inv lookup (m1, h1) regs"
    by (rule user_map.close_inv [OF assms Cons.prems(1,2) c])
  have "ctx_cancelled (ctxs h1 q) \<longleftrightarrow> k = k1 \<or> ctx_cancelled (ctxs h q)"
    by (rule user_map.close_cancels [OF assms Cons.prems(1,2) c Cons.prems(3)])
  with Cons.IH [of m1 h1] i Cons.prems(3) c show ?case by auto
qed simp

lemma disconnect_exact:
  assumes "user_map ops lookup minv" and "minv m" and "user_inv lookup (m, h) regs" and "(k, q) \<in> set regs"
  shows "ctx_cancelled (ctxs (snd (disconnect ops di (m, h))) q) \<longleftrightarrow>
    (if di_Ips di = [] then user_of_key k = di_Username di
     else k \<in> (\<lambda>ip. di_Username di @ '':'' @ ip) ` set (di_Ips di)) \<or> ctx_cancelled (ctxs h q)"
proof (cases "di_Ips di = []")
  case True
  note P = user_map.axioms [OF assms(1)]
  have "lookup m k = None \<or> k \<in> set (map fst (cm_iter ops m))"
    using concurrent_map.iter_lookup [OF cmap_provider.map_laws [OF P] assms(2)]
    by (metis (no_types, lifting) in_set_zip map_of_SomeD not_None_eq list.set_map image_eqI fst_conv)
  moreover have "lookup m k = None \<Longrightarrow> ctx_cancelled (ctxs h q)"
    using user_inv_reg(2) [OF assms(3,4)] by simp
  ultimately show ?thesis
    using close_keys_exact [OF assms, of "filter (\<lambda>k. user_of_key k = di_Username di) (map fst (cm_iter ops m))"] True
    by (auto simp: disconnect_def)
next
  case False
  then show ?thesis
    using close_keys_exact [OF assms, of "map (\<lambda>ip. di_Username di @ '':'' @ ip) (di_Ips di)"]
    by (auto simp: disconnect_def)
qed

lemma add_ips_Panic: "add_ips ks dst = Panic \<longleftrightarrow> ks \<noteq> [] \<and> dst = None"
  by (induction ks dst rule: add_ips.induct) auto

lemma add_ips_None: "add_ips ks None = Ret x \<Longrightarrow> ks = []"
  by (cases ks) auto

lemma close_user_key: "snd (CloseUserConnections ops k s) = close_keys ops [k] s"
  by simp

subsection \<open>Properties\<close>


text \<open>A codec for the witnesses: strings prefixed by their length in unary.\<close>

definition enc_s :: "string \<Rightarrow> string" where
  "enc_s s = replicate (length s) CHR ''1'' @ CHR ''0'' # s"

definition dec_s :: "string \<Rightarrow> string \<times> string" where
  "dec_s t = (let n = length (takeWhile (\<lambda>c. c = CHR ''1'') t); u = drop (Suc n) t in (take n u, drop n u))"

definition enc6 :: "ipv6_auth_info \<Rightarrow> string" where
  "enc6 i = (if i6_Banned i then CHR ''b'' else CHR ''n'') # enc_s (i6_Username i) @ enc_s (i6_Password i) @ enc_s (i6_Ip i)"

definition dec6 :: "string \<Rightarrow> ipv6_auth_info" where
  "dec6 t = (let (u, t1) = dec_s (tl t); (p, t2) = dec_s t1; (a, t3) = dec_s t2
     in \<lparr>i6_Username = u, i6_Password = p, i6_Ip = a, i6_Banned = (hd t = CHR ''b'')\<rparr>)"

lemma dec_enc_s: "dec_s (enc_s s @ r) = (s, r)"
proof -
  have "takeWhile (\<lambda>c. c = CHR ''1'') (replicate n CHR ''1'' @ CHR ''0'' # xs) = replicate n CHR ''1''" for n xs
    by (induction n) auto
  then show ?thesis by (simp add: dec_s_def enc_s_def Let_def)
qed

lemma dec_enc6: "dec6 (enc6 i) = i"
  using dec_enc_s [of "i6_Ip i" "[]"] by (simp add: dec6_def enc6_def dec_enc_s)

definition toy_codecs :: codecs where
  "toy_codecs = \<lparr>json_enc = (\<lambda>i. if i = demo_info then Inr ''bob-record'' else Inl ''unsupported''),
     json_dec = (\<lambda>s. Inr demo_info), proto_enc4 = (\<lambda>_. Inl ''unsupported''), proto_dec4 = (\<lambda>_. Inl ''unsupported''),
     proto_enc6 = (\<lambda>i. Inr (enc6 i)), proto_dec6 = (\<lambda>s. Inr (dec6 s))\<rparr>"




text \<open>
  Disconnecting is exact: for a disconnect event without addresses, a registered connection is
  cancelled exactly when the part of its key before the first colon is the user (or it already
  was); for one with addresses, exactly when its key is the user name, a colon and one of them.
\<close>

theorem disconnect_spec:
  assumes "cmap_provider ops lookup minv" and "minv m0" and "lookup m0 = Map.empty"
    and "(user_step ops ^^ n) ((m0, h0), []) ((m, h), regs)" and "n < 2 ^ 64"
    and "handlerAuthEventIpv4DisconnectUserData ops (Some di) (r, m, h) = Ret (None, r1, m1, h1)"
    and "(k, q) \<in> set regs"
  shows "r1 = r \<and> (ctx_cancelled (ctxs h1 q) \<longleftrightarrow>
    (if di_Ips di = [] then user_of_key k = di_Username di
     else \<exists>ip \<in> set (di_Ips di). k = di_Username di @ '':'' @ ip) \<or> ctx_cancelled (ctxs h q))"
proof -
  note U = user_map.intro [OF assms(1)]
  have i: "minv m" "user_inv lookup (m, h) regs"
    using user_map.user_run_inv [OF U assms(4)] assms(2,3,5) by simp_all
  from assms(6) have e: "r1 = r" "disconnect ops di (m, h) = (m1, h1)"
    by (auto simp: handlerAuthEventIpv4DisconnectUserData_def split: if_splits)
  with disconnect_exact [OF U i assms(7), of di] show ?thesis by auto
qed

theorem disconnect_spec_witness:
  "\<exists>m h. addUserConnection sharded_ops default_nacos 0 ''u'' (New_cmap, ctx_heap0) = (0, m, h) \<and>
     ctx_cancelled (ctxs (snd (disconnect sharded_ops \<lparr>di_Username = ''u'', di_Ips = []\<rparr> (m, h))) 0)"
proof -
  let ?di = "\<lparr>di_Username = ''u'', di_Ips = []\<rparr>"
  obtain m h where mh: "addUserConnection sharded_ops default_nacos 0 ''u'' (New_cmap, ctx_heap0) = (0, m, h)"
    "(user_step sharded_ops ^^ 1) ((New_cmap, ctx_heap0), []) ((m, h), [(''u'', 0)])"
    using one_registration by blast
  obtain m1 h1 where d: "disconnect sharded_ops ?di (m, h) = (m1, h1)" by fastforce
  then have e: "handlerAuthEventIpv4DisconnectUserData sharded_ops (Some ?di) ((), m, h) = Ret (None, (), m1, h1)"
    by (simp add: handlerAuthEventIpv4DisconnectUserData_def)
  have n: "(1 :: nat) < 2 ^ 64" by simp
  from disconnect_spec [OF sharded.cmap_provider_axioms new_cmap_ok mh(2) n e, of "''u''" 0]
  have "ctx_cancelled (ctxs h1 0)" by (simp add: user_of_key_def)
  with mh(1) d show ?thesis by (intro exI [of _ m] exI [of _ h]) simp
qed



text \<open>
  C17. When adding addresses panics: the add-account event panics exactly when it names at least one
  address and the stored record of that user decodes to one without an address map.
\<close>

theorem AddUserData_panics_iff:
  assumes "ai_Username info \<noteq> ''''"
  shows "handlerAuthEventIpv4AddUserData rops cd now (Some info) (r, um) = Panic \<longleftrightarrow>
    info_ips info \<noteq> [] \<and> (\<exists>str saved. r_get rops r (auth_key (ai_Username info)) = Inr str \<and>
      json_dec cd str = Inr saved \<and> ai_Ips saved = None)"
proof -
  have "ai_Ips info = None \<Longrightarrow> info_ips info = []" by (simp add: info_ips_def)
  then show ?thesis using assms
    by (auto simp: handlerAuthEventIpv4AddUserData_def merge_ips_def Let_def add_ips_Panic
        dest: add_ips_None split: sum.splits outcome.splits prod.splits)
qed

theorem AddUserData_panics_iff_witness:
  "handlerAuthEventIpv4AddUserData map_redis (toy_codecs\<lparr>json_dec := (\<lambda>_. Inr (demo_info\<lparr>ai_Ips := None\<rparr>))\<rparr>) 0
     (Some demo_info) ([auth_key ''bob'' \<mapsto> ''x''], (), ctx_heap0) = Panic"
  using AddUserData_panics_iff [of demo_info map_redis "toy_codecs\<lparr>json_dec := (\<lambda>_. Inr (demo_info\<lparr>ai_Ips := None\<rparr>))\<rparr>" 0
      "[auth_key ''bob'' \<mapsto> ''x'']" "((), ctx_heap0)"]
  by (simp add: demo_info_def info_ips_def map_redis_def)

end
