(* ===== verification/Product.thy ===== *)
theory Product
  imports MQueue
begin

text \<open>
  \<^verbatim>\<open>server/rabbitmq_product.go\<close> and \<^verbatim>\<open>utils/rabbitMQ/rabbitMQData.go\<close>: the messages the proxy sends
  and the eight queues that hold them until a worker hands them to RabbitMQ. Pushing takes the
  next queue in turn by a 64-bit counter that wraps. \<open>marshal\<close> stands for \<^verbatim>\<open>proto.Marshal\<close> (\<open>None\<close> is
  its error), \<open>unique\<close> for the message id made of the time and random letters, \<open>pick\<close> for the choice
  of the queue's node pool.
\<close>

definition RabbitmqSendQueueSlicesShareSize :: nat where
  "RabbitmqSendQueueSlicesShareSize = 8"

record rabbit_mq_data =
  ExchangeName :: string
  ExchangeType :: string
  QueueName :: string
  Route :: string
  Data :: bytes
  MessageId :: string

definition GetRabbitMqDataFormat ::
    "string \<Rightarrow> string \<Rightarrow> string \<Rightarrow> string \<Rightarrow> bytes \<Rightarrow> string \<Rightarrow> rabbit_mq_data" where
  "GetRabbitMqDataFormat exChangeName exChangeType queueName route data messageId =
     \<lparr>ExchangeName = exChangeName, ExchangeType = exChangeType, QueueName = queueName, Route = route,
      Data = data, MessageId = messageId\<rparr>"

definition GetRabbitMqDataFormatExpire ::
    "string \<Rightarrow> string \<Rightarrow> string \<Rightarrow> string \<Rightarrow> bytes \<Rightarrow> rabbit_mq_data" where
  "GetRabbitMqDataFormatExpire exChangeName exChangeType queueName route data =
     \<lparr>ExchangeName = exChangeName, ExchangeType = exChangeType, QueueName = queueName, Route = route,
      Data = data, MessageId = ''''\<rparr>"

text \<open>The queues hold pointers; \<open>None\<close> is the nil pointer, their zero value.\<close>

record producer =
  rabbitmqSendQueueSlices :: "rabbit_mq_data option mqueue list"
  rabbitmqSendQueueSlicesCounter :: "64 word"

definition initRabbitmqSendQueueSlices :: "producer \<Rightarrow> producer" where
  "initRabbitmqSendQueueSlices p = p\<lparr>rabbitmqSendQueueSlices :=
     rabbitmqSendQueueSlices p @ replicate RabbitmqSendQueueSlicesShareSize (NewMQueue None)\<rparr>"

text \<open>\<^verbatim>\<open>Close\<close> on the first eight queues; indexing past the end of the slice panics.\<close>

definition closeRabbitmqSendQueueSlices :: "producer \<Rightarrow> producer outcome" where
  "closeRabbitmqSendQueueSlices p =
     (let qs = rabbitmqSendQueueSlices p; n = RabbitmqSendQueueSlicesShareSize in
      if length qs < n then Panic
      else Ret (p\<lparr>rabbitmqSendQueueSlices := map MQueue_Close (take n qs) @ drop n qs\<rparr>))"

definition pushRabbitmqSendQueue :: "nat option \<Rightarrow> rabbit_mq_data \<Rightarrow> producer \<Rightarrow> producer outcome" where
  "pushRabbitmqSendQueue pick data p =
     (let c = rabbitmqSendQueueSlicesCounter p + 1;
          i = unat (c mod of_nat RabbitmqSendQueueSlicesShareSize);
          qs = rabbitmqSendQueueSlices p in
      if length qs \<le> i then Panic
      else Ret (p\<lparr>rabbitmqSendQueueSlicesCounter := c,
        rabbitmqSendQueueSlices := qs[i := snd (MQueue_Enqueue pick (Some data) (qs ! i))]\<rparr>))"

text \<open>
  One worker of \<^verbatim>\<open>handleRabbitmqSendQueue\<close>: \<open>push\<close> is the pool's \<^verbatim>\<open>Push\<close>, whose error is only logged, so
  the callback always asks for the next message.
\<close>

definition processFunc :: "(rabbit_mq_data option \<Rightarrow> bool) \<Rightarrow> rabbit_mq_data option \<Rightarrow> bool \<Rightarrow> bool" where
  "processFunc push pkg isClose = (if push pkg then True else True)"

definition handleRabbitmqSendQueue :: "(rabbit_mq_data option \<Rightarrow> bool) \<Rightarrow>
    rabbit_mq_data option list \<times> func_state \<times> rabbit_mq_data option mqueue \<Rightarrow>
    rabbit_mq_data option list \<times> func_state \<times> rabbit_mq_data option mqueue" where
  "handleRabbitmqSendQueue push = DequeueFunc_step (processFunc push)"

record blacklist_access_log =
  bl_Site :: string
  bl_AccountType :: int
  bl_Account :: string
  bl_ExitIp :: string

record access_record =
  ar_UserName :: string
  ar_Domain :: string
  ar_Ip :: string
  ar_ProxyType :: string

definition SendAccessLogMessageToInfluxDB ::
    "string \<Rightarrow> string \<Rightarrow> nat option \<Rightarrow> bytes \<Rightarrow> producer \<Rightarrow> producer outcome" where
  "SendAccessLogMessageToInfluxDB queue unique pick body =
     pushRabbitmqSendQueue pick (GetRabbitMqDataFormat '''' '''' queue '''' body unique)"

definition SendBlackListAccessLogMessage ::
    "string \<Rightarrow> string \<Rightarrow> nat option \<Rightarrow> bytes \<Rightarrow> producer \<Rightarrow> producer outcome" where
  "SendBlackListAccessLogMessage queue unique pick body =
     pushRabbitmqSendQueue pick (GetRabbitMqDataFormat '''' '''' queue '''' body unique)"

text \<open>The record built by \<^verbatim>\<open>SendBlackListAccessLogMessageData\<close>, and the call; true is the error.\<close>

definition black_list_record :: "string \<Rightarrow> string \<Rightarrow> string \<Rightarrow> int \<Rightarrow> string \<Rightarrow> string \<Rightarrow> blacklist_access_log" where
  "black_list_record proxyUserName proxyServerIpStr black accountType account exitIp =
     \<lparr>bl_Site = black, bl_AccountType = accountType, bl_Account = proxyUserName, bl_ExitIp = proxyServerIpStr\<rparr>"

definition SendBlackListAccessLogMessageData :: "(blacklist_access_log \<Rightarrow> bytes option) \<Rightarrow> string \<Rightarrow> string \<Rightarrow>
    nat option \<Rightarrow> string \<Rightarrow> string \<Rightarrow> string \<Rightarrow> int \<Rightarrow> string \<Rightarrow> string \<Rightarrow> producer \<Rightarrow> (bool \<times> producer) outcome" where
  "SendBlackListAccessLogMessageData marshal queue unique pick proxyUserName proxyServerIpStr black
     accountType account exitIp p =
     (case marshal (black_list_record proxyUserName proxyServerIpStr black accountType account exitIp) of
        Some sendByte \<Rightarrow> bind_outcome (SendBlackListAccessLogMessage queue unique pick sendByte p) (\<lambda>p1. Ret (False, p1))
      | None \<Rightarrow> Ret (True, p))"

definition access_record_of :: "string \<Rightarrow> string \<Rightarrow> string \<Rightarrow> string \<Rightarrow> access_record" where
  "access_record_of mode user domain ip = \<lparr>ar_UserName = user, ar_Domain = domain, ar_Ip = ip, ar_ProxyType = mode\<rparr>"

text \<open>The error of \<^verbatim>\<open>proto.Marshal\<close> is dropped, so a failed encoding sends an empty body.\<close>

definition ReportAccessLogToInfluxDB :: "(access_record \<Rightarrow> bytes option) \<Rightarrow> string \<Rightarrow> string \<Rightarrow> string \<Rightarrow>
    nat option \<Rightarrow> string \<Rightarrow> string \<Rightarrow> string \<Rightarrow> producer \<Rightarrow> producer outcome" where
  "ReportAccessLogToInfluxDB marshal mode queue unique pick user domain ip =
     SendAccessLogMessageToInfluxDB queue unique pick
       (case marshal (access_record_of mode user domain ip) of Some b \<Rightarrow> b | None \<Rightarrow> [])"

subsection \<open>Runs\<close>

text \<open>Messages pushed one after the other, each with a choice of the pool.\<close>

fun push_all :: "(nat option \<times> rabbit_mq_data) list \<Rightarrow> producer \<Rightarrow> producer outcome" where
  "push_all [] p = Ret p"
| "push_all ((pick, d) # ds) p = bind_outcome (pushRabbitmqSendQueue pick d p) (push_all ds)"

definition producer0 :: producer where
  "producer0 = initRabbitmqSendQueueSlices \<lparr>rabbitmqSendQueueSlices = [], rabbitmqSendQueueSlicesCounter = 0\<rparr>"

text \<open>The messages that fall to queue \<open>j\<close> when \<open>n\<close> have been pushed before.\<close>

fun turn :: "nat \<Rightarrow> nat \<Rightarrow> 'a list \<Rightarrow> 'a list" where
  "turn n j [] = []"
| "turn n j (x # xs) = (if Suc n mod RabbitmqSendQueueSlicesShareSize = j then [x] else []) @ turn (Suc n) j xs"

definition producer_ok :: "nat \<Rightarrow> producer \<Rightarrow> bool" where
  "producer_ok n p \<longleftrightarrow> rabbitmqSendQueueSlicesCounter p = of_nat n \<and>
     length (rabbitmqSendQueueSlices p) = RabbitmqSendQueueSlicesShareSize \<and>
     (\<forall>q \<in> set (rabbitmqSendQueueSlices p). mq_inv q \<and> q_status q)"

subsection \<open>Lemmas\<close>

lemma unat_word64_mod8: "unat ((of_nat n :: 64 word) mod 8) = n mod 8"
proof -
  have "unat ((of_nat n :: 64 word) mod 8) = (n mod 2 ^ 64) mod 8"
    by (simp add: unat_mod unat_of_nat take_bit_eq_mod)
  also have "\<dots> = n mod 8" by (rule mod_mod_cancel) simp
  finally show ?thesis .
qed

lemma push_turn:
  assumes "producer_ok n p"
  obtains p1 where "pushRabbitmqSendQueue pick d p = Ret p1" "producer_ok (Suc n) p1"
    "\<And>j. j < RabbitmqSendQueueSlicesShareSize \<Longrightarrow> q_items (rabbitmqSendQueueSlices p1 ! j) =
      q_items (rabbitmqSendQueueSlices p ! j) @ (if Suc n mod RabbitmqSendQueueSlicesShareSize = j then [Some d] else [])"
proof -
  let ?qs = "rabbitmqSendQueueSlices p" and ?i = "Suc n mod 8"
  have ok: "rabbitmqSendQueueSlicesCounter p + 1 = of_nat (Suc n)" "length ?qs = 8"
    "\<And>q. q \<in> set ?qs \<Longrightarrow> mq_inv q \<and> q_status q"
    using assms by (auto simp: producer_ok_def RabbitmqSendQueueSlicesShareSize_def)
  have i: "unat ((of_nat (Suc n) :: 64 word) mod 8) = ?i" by (rule unat_word64_mod8)
  have il: "?i < length ?qs" using ok(2) by simp
  note e = mq_enq_open [of "?qs ! ?i" pick "Some d"]
  let ?q = "snd (MQueue_Enqueue pick (Some d) (?qs ! ?i))"
  have q: "q_items ?q = q_items (?qs ! ?i) @ [Some d]" "mq_inv ?q" "q_status ?q"
    using e ok(3) [OF nth_mem [OF il]] by (auto simp: mq_enq_def split: prod.splits)
  let ?p = "p\<lparr>rabbitmqSendQueueSlicesCounter := of_nat (Suc n), rabbitmqSendQueueSlices := ?qs[?i := ?q]\<rparr>"
  have "pushRabbitmqSendQueue pick d p = Ret ?p"
    using il unfolding pushRabbitmqSendQueue_def ok(1) Let_def RabbitmqSendQueueSlicesShareSize_def
    by (simp add: i del: of_nat_Suc)
  moreover have "producer_ok (Suc n) ?p"
    using ok q by (auto simp: producer_ok_def RabbitmqSendQueueSlicesShareSize_def dest!: set_update_subset_insert [THEN subsetD])
  ultimately show ?thesis
    by (rule that) (use q(1) il ok(2) in \<open>auto simp: RabbitmqSendQueueSlicesShareSize_def nth_list_update\<close>)
qed

lemma push_all_turn:
  assumes "producer_ok n p"
  shows "\<exists>p1. push_all ds p = Ret p1 \<and> producer_ok (n + length ds) p1 \<and>
    (\<forall>j < RabbitmqSendQueueSlicesShareSize. q_items (rabbitmqSendQueueSlices p1 ! j) =
      q_items (rabbitmqSendQueueSlices p ! j) @ turn n j (map (Some \<circ> snd) ds))"
  using assms
proof (induction ds arbitrary: n p)
  case (Cons x ds)
  obtain pick d where x: "x = (pick, d)" by fastforce
  obtain p1 where p1: "pushRabbitmqSendQueue pick d p = Ret p1" "producer_ok (Suc n) p1"
    "\<And>j. j < RabbitmqSendQueueSlicesShareSize \<Longrightarrow> q_items (rabbitmqSendQueueSlices p1 ! j) =
      q_items (rabbitmqSendQueueSlices p ! j) @ (if Suc n mod RabbitmqSendQueueSlicesShareSize = j then [Some d] else [])"
    using push_turn [OF Cons.prems] by blast
  obtain p2 where "push_all ds p1 = Ret p2" "producer_ok (Suc n + length ds) p2"
    "\<forall>j < RabbitmqSendQueueSlicesShareSize. q_items (rabbitmqSendQueueSlices p2 ! j) =
      q_items (rabbitmqSendQueueSlices p1 ! j) @ turn (Suc n) j (map (Some \<circ> snd) ds)"
    using Cons.IH [OF p1(2)] by blast
  with p1 x show ?case by (intro exI [of _ p2]) (simp add: comp_def)
qed simp

lemma turn_mset: "(\<Sum>j<RabbitmqSendQueueSlicesShareSize. count_list (turn n j xs) x) = count_list xs x"
proof (induction xs arbitrary: n)
  case (Cons y ys)
  have "(\<Sum>j<RabbitmqSendQueueSlicesShareSize. count_list (if Suc n mod RabbitmqSendQueueSlicesShareSize = j then [y] else []) x)
      = (\<Sum>j<RabbitmqSendQueueSlicesShareSize. if Suc n mod RabbitmqSendQueueSlicesShareSize = j then (if y = x then 1 else 0) else 0)"
    by (rule sum.cong) auto
  also have "\<dots> = (if y = x then 1 else 0)"
    by (simp add: RabbitmqSendQueueSlicesShareSize_def)
  finally show ?case using Cons.IH [of "Suc n"] by (simp add: sum.distrib)
qed simp

lemma producer0_ok: "producer_ok 0 producer0"
  "j < RabbitmqSendQueueSlicesShareSize \<Longrightarrow> q_items (rabbitmqSendQueueSlices producer0 ! j) = []"
  using NewMQueue_inv [of "None :: rabbit_mq_data option"]
  by (auto simp: producer_ok_def producer0_def initRabbitmqSendQueueSlices_def NewMQueue_def)

subsection \<open>Properties\<close>

text \<open>
  Sent messages are spread over the eight queues in turn and none is lost, also when the 64-bit
  counter wraps: after any number of pushes to new queues, queue \<open>j\<close> holds, in order, exactly the
  messages whose number is \<open>j\<close> modulo eight.
\<close>

theorem push_round_robin:
  "\<exists>p. push_all ds producer0 = Ret p \<and>
     map q_items (rabbitmqSendQueueSlices p) =
       map (\<lambda>j. turn 0 j (map (Some \<circ> snd) ds)) [0..<RabbitmqSendQueueSlicesShareSize] \<and>
     (\<forall>m. (\<Sum>q\<leftarrow>rabbitmqSendQueueSlices p. count_list (q_items q) m) = count_list (map (Some \<circ> snd) ds) m)"
proof -
  obtain p where p: "push_all ds producer0 = Ret p" "producer_ok (length ds) p"
    "\<And>j. j < RabbitmqSendQueueSlicesShareSize \<Longrightarrow>
      q_items (rabbitmqSendQueueSlices p ! j) = turn 0 j (map (Some \<circ> snd) ds)"
    using push_all_turn [OF producer0_ok(1), of ds] producer0_ok(2) by auto
  then have e: "map q_items (rabbitmqSendQueueSlices p) =
      map (\<lambda>j. turn 0 j (map (Some \<circ> snd) ds)) [0..<RabbitmqSendQueueSlicesShareSize]"
    by (auto simp: producer_ok_def intro!: nth_equalityI)
  have "(\<Sum>q\<leftarrow>rabbitmqSendQueueSlices p. count_list (q_items q) m) = count_list (map (Some \<circ> snd) ds) m" for m
  proof -
    have "(\<Sum>q\<leftarrow>rabbitmqSendQueueSlices p. count_list (q_items q) m) =
        (\<Sum>xs\<leftarrow>map q_items (rabbitmqSendQueueSlices p). count_list xs m)" by (simp add: comp_def)
    also have "\<dots> = (\<Sum>j\<leftarrow>[0..<RabbitmqSendQueueSlicesShareSize]. count_list (turn 0 j (map (Some \<circ> snd) ds)) m)"
      unfolding e by (simp add: comp_def)
    also have "\<dots> = count_list (map (Some \<circ> snd) ds) m"
      using turn_mset [of 0 "map (Some \<circ> snd) ds" m] by (simp only: sum_list_distinct_conv_sum_set distinct_upt set_upt atLeast0LessThan)
    finally show ?thesis .
  qed
  with p(1) e show ?thesis by blast
qed

text \<open>
  Shutting down sends what was queued: after \<^verbatim>\<open>closeRabbitmqSendQueueSlices\<close> every worker returns
  after finitely many steps, having handed every queued message of its queue to the pool in order,
  whether or not the pool accepts them; a message pushed after the close is dropped.
\<close>

theorem producer_shutdown:
  assumes "producer_ok n p" and "closeRabbitmqSendQueueSlices p = Ret p1" and "q \<in> set (rabbitmqSendQueueSlices p)"
  shows "MQueue_Close q \<in> set (rabbitmqSendQueueSlices p1) \<and>
    (\<exists>k q'. (handleRabbitmqSendQueue push ^^ k) ([], FTry, MQueue_Close q) =
       (q_items q, FRet (Some QueueCloseAndEmpty), q')) \<and>
    map_outcome rabbitmqSendQueueSlices (pushRabbitmqSendQueue pick d p1) = Ret (rabbitmqSendQueueSlices p1)"
proof -
  have ok: "length (rabbitmqSendQueueSlices p) = 8" "mq_inv q"
    using assms(1,3) by (auto simp: producer_ok_def RabbitmqSendQueueSlicesShareSize_def)
  have p1: "rabbitmqSendQueueSlices p1 = map MQueue_Close (rabbitmqSendQueueSlices p)"
    using assms(2) ok(1) by (auto simp: closeRabbitmqSendQueueSlices_def RabbitmqSendQueueSlicesShareSize_def split: if_splits)
  have fn: "processFunc push x c" for x c by (simp add: processFunc_def)
  have q: "mq_inv (MQueue_Close q)" "\<not> q_status (MQueue_Close q)" "q_items (MQueue_Close q) = q_items q"
    using ok(2) mq_close [of q] by simp_all
  obtain k q' where "(handleRabbitmqSendQueue push ^^ k) ([], FTry, MQueue_Close q) =
      (q_items q, FRet (Some QueueCloseAndEmpty), q')"
    using DequeueFunc_drain [OF q(1,2), of "processFunc push" "[]"] fn
    by (auto simp: handleRabbitmqSendQueue_def fed_all q(3))
  moreover have "map_outcome rabbitmqSendQueueSlices (pushRabbitmqSendQueue pick d p1) = Ret (rabbitmqSendQueueSlices p1)"
  proof -
    let ?i = "unat ((rabbitmqSendQueueSlicesCounter p1 + 1) mod 8)"
    have i: "?i < 8" by (simp add: unat_mod)
    have "snd (MQueue_Enqueue pick (Some d) (rabbitmqSendQueueSlices p1 ! ?i)) = rabbitmqSendQueueSlices p1 ! ?i"
      using i ok(1) unfolding p1 by (simp add: MQueue_Enqueue_def MQueue_Close_def)
    then have "(rabbitmqSendQueueSlices p1)[?i := snd (MQueue_Enqueue pick (Some d) (rabbitmqSendQueueSlices p1 ! ?i))] =
        rabbitmqSendQueueSlices p1" by simp
    moreover have "?i < length (rabbitmqSendQueueSlices p1)" using i ok(1) p1 by simp
    ultimately show ?thesis
      by (simp add: pushRabbitmqSendQueue_def RabbitmqSendQueueSlicesShareSize_def Let_def)
  qed
  ultimately show ?thesis using p1 assms(3) by auto
qed

definition demo_message :: rabbit_mq_data where
  "demo_message = GetRabbitMqDataFormat '''' '''' ''access_log'' '''' [104, 105] ''1''"

theorem producer_shutdown_witness:
  "\<exists>p p1 k q'. push_all [(None, demo_message)] producer0 = Ret p \<and> closeRabbitmqSendQueueSlices p = Ret p1 \<and>
     (handleRabbitmqSendQueue (\<lambda>_. False) ^^ k) ([], FTry, MQueue_Close (rabbitmqSendQueueSlices p ! 1)) =
       ([Some demo_message], FRet (Some QueueCloseAndEmpty), q')"
proof -
  obtain p where p: "push_all [(None, demo_message)] producer0 = Ret p" "producer_ok 1 p"
    "q_items (rabbitmqSendQueueSlices p ! 1) = [Some demo_message]"
    using push_all_turn [OF producer0_ok(1), of "[(None, demo_message)]"] producer0_ok(2) [of 1]
    by (auto simp: RabbitmqSendQueueSlicesShareSize_def)
  have l: "length (rabbitmqSendQueueSlices p) = 8"
    using p(2) by (simp add: producer_ok_def RabbitmqSendQueueSlicesShareSize_def)
  then have q: "rabbitmqSendQueueSlices p ! 1 \<in> set (rabbitmqSendQueueSlices p)" by simp
  from l obtain p1 where c: "closeRabbitmqSendQueueSlices p = Ret p1"
    by (simp add: closeRabbitmqSendQueueSlices_def RabbitmqSendQueueSlicesShareSize_def Let_def)
  show ?thesis using producer_shutdown [OF p(2) c q, of "\<lambda>_. False"] p(1,3) c by auto
qed

end
