(* ===== verification/Handlers.thy ===== *)
theory Handlers
  imports Manager Tracker Auth Sniffing Socks5 Product
begin

text \<open>
  The connection handlers: \<^verbatim>\<open>server/tcp_conn_handler.go\<close>, \<^verbatim>\<open>server/http_proxy_handler.go\<close>,
  \<^verbatim>\<open>server/socks_proxy_handler.go\<close> and \<^verbatim>\<open>server/shadowsocks_handler.go\<close>.

  A handler is a \<open>proc\<close>: the calls it makes on the shared manager, on its client connection and on
  the network, in the order of the code, each with the rest of the handler as a function of the
  answer. \<^verbatim>\<open>defer\<close> is \<open>CDefer\<close>, \<^verbatim>\<open>return\<close> is \<open>CReturn\<close>: the deferred calls are kept on a stack and
  run, last one first, when the handler returns. \<open>CRelay\<close> is the loop that runs while the two copy
  goroutines move data. \<open>exec\<close> runs one call, which is one atomic step, so handlers interleave
  between any two calls.

  Logging, deadlines and the close of the channels local to a handler are left out. The window
  between leaving the loop and waiting for the goroutine that sniffs the domain is folded into the
  loop: what the goroutine stores there is stored before the loop is left.
\<close>

subsection \<open>Library functions\<close>

text \<open>\<^verbatim>\<open>strings.Replace(s, old, "", 1)\<close>\<close>

fun replace_first :: "string \<Rightarrow> string \<Rightarrow> string" where
  "replace_first old [] = []"
| "replace_first old (c # cs) =
     (if is_prefix old (c # cs) then drop (length old) (c # cs) else c # replace_first old cs)"

text \<open>\<^verbatim>\<open>base64.StdEncoding.DecodeString\<close>\<close>

definition b64_val :: "char \<Rightarrow> nat option" where
  "b64_val c = (let n = of_char c :: nat in
     if 65 \<le> n \<and> n \<le> 90 then Some (n - 65)
     else if 97 \<le> n \<and> n \<le> 122 then Some (n - 71)
     else if 48 \<le> n \<and> n \<le> 57 then Some (n + 4)
     else if c = CHR ''+'' then Some 62 else if c = CHR ''/'' then Some 63 else None)"

fun b64_quads :: "string \<Rightarrow> bytes option" where
  "b64_quads [] = Some []"
| "b64_quads (a # b # c # d # rest) =
     (case (b64_val a, b64_val b) of
        (Some va, Some vb) \<Rightarrow>
          if d = CHR ''='' \<and> rest \<noteq> [] then None
          else if c = CHR ''='' \<and> d = CHR ''='' then Some [of_nat (va * 4 + vb div 16)]
          else (case b64_val c of
              None \<Rightarrow> None
            | Some vc \<Rightarrow>
                (let b0 = of_nat (va * 4 + vb div 16); b1 = of_nat (vb mod 16 * 16 + vc div 4) in
                 if d = CHR ''='' then Some [b0, b1]
                 else (case (b64_val d, b64_quads rest) of
                     (Some vd, Some bs) \<Rightarrow> Some (b0 # b1 # of_nat (vc mod 4 * 64 + vd) # bs)
                   | _ \<Rightarrow> None)))
      | _ \<Rightarrow> None)"
| "b64_quads _ = None"

definition base64_decode :: "string \<Rightarrow> bytes option" where
  "base64_decode s = b64_quads (filter (\<lambda>c. c \<noteq> CHR 0x0D \<and> c \<noteq> CHR 0x0A) s)"

subsection \<open>Handlers as sequences of calls\<close>

text \<open>\<^verbatim>\<open>DialContext\<close>: the local address of the new connection, or the error's text and whether it is a timeout.\<close>

datatype dial_result = DialOk ip int | DialErr string bool

datatype deferred = DReduceIp string | DCloseTarget | DDeleteUser string addr
  | DReport string string string

text \<open>
  What the loop of a handler works with: the user's context, whether the sniffing goroutine waits for
  the first bytes, and the arguments of the blacklist report.
\<close>

record relay =
  rl_ctx :: addr
  rl_sniff :: bool
  rl_name :: string
  rl_ip :: string
  rl_account :: string
  rl_exit :: string

datatype proc =
    CReturn
  | CConn "conn \<Rightarrow> proc \<times> conn"
  | CValid string string string string "auth_error + string \<Rightarrow> proc"
  | CValidShadowSocks string "auth_error + string \<Rightarrow> proc"
  | CTarget string "bool \<Rightarrow> proc"
  | CAddIp string "bool \<times> int \<Rightarrow> proc"
  | CBlack string "string \<times> bool \<Rightarrow> proc"
  | CSendBlack string string string int string string proc
  | CAlarm string proc
  | CStore string proc
  | CDial string ip "dial_result \<Rightarrow> proc"
  | CRecordFail string proc
  | CTargetWrite bytes "bool \<Rightarrow> proc"
  | CAddUser string "addr \<Rightarrow> proc"
  | CDefer deferred proc
  | CRelay relay

text \<open>Write a last message to the client and return, whether or not the write fails.\<close>

definition say :: "bytes \<Rightarrow> proc" where
  "say msg = CConn (\<lambda>c. (CReturn, snd (Write msg c)))"

definition reply :: "byte \<Rightarrow> proc" where
  "reply resp = CConn (\<lambda>c. (CReturn, snd (SendReply resp None c)))"

definition crlf :: string where "crlf = [CHR 0x0D, CHR 0x0A]"

definition http407 :: bytes where
  "http407 = bytes_of (''HTTP/1.1 407 Proxy Authorization Required'' @ crlf @
     ''Proxy-Authenticate: Basic realm='' @ [CHR 0x22] @ ''Secure Proxys'' @ [CHR 0x22] @ crlf @ crlf)"

definition http503 :: bytes where
  "http503 = bytes_of (''HTTP/1.1 503 Service Unavailable'' @ crlf @ crlf)"

definition http200 :: bytes where
  "http200 = bytes_of (''HTTP/1.1 200 Connection Established'' @ crlf @ crlf)"

subsection \<open>HTTP\<close>

text \<open>
  A parsed request: the \<^verbatim>\<open>Proxy-Authorization\<close> header, host and method, and what \<^verbatim>\<open>req.Write\<close> sends once that
  header is deleted (\<open>None\<close> is its error). \<open>parseIP\<close> is \<^verbatim>\<open>net.ParseIP\<close>, with \<open>[]\<close> for nil.
\<close>

record http_request =
  rq_auth :: string
  rq_Host :: string
  rq_Method :: string
  rq_bytes :: "bytes option"

definition http_serve :: "string \<Rightarrow> string \<Rightarrow> string \<Rightarrow> string \<Rightarrow> string \<Rightarrow> string \<Rightarrow> proc" where
  "http_serve proxyUserName proxyPassword exitIpStr address domain reqMethod =
     (let key = proxyUserName in
      CAddUser key (\<lambda>connCtx.
        CDefer (DDeleteUser key connCtx)
          (CDefer (DReport proxyUserName address exitIpStr)
            (CRelay \<lparr>rl_ctx = connCtx, rl_sniff = (domain = '''' \<and> reqMethod = ''CONNECT''),
               rl_name = proxyUserName, rl_ip = proxyPassword, rl_account = proxyUserName,
               rl_exit = exitIpStr\<rparr>))))"

definition http_dial :: "http_request \<Rightarrow> string \<Rightarrow> string \<Rightarrow> string \<Rightarrow> ip \<Rightarrow> string \<Rightarrow> string \<Rightarrow> string \<Rightarrow> proc" where
  "http_dial req proxyUserName proxyPassword exitIpStr exitIp ipAndTarget address domain =
     CStore domain
       (CDial address exitIp (\<lambda>r. case r of
          DialErr msg isTimeout \<Rightarrow> if isTimeout then CRecordFail ipAndTarget (say http503) else say http503
        | DialOk _ _ \<Rightarrow>
            CDefer DCloseTarget
              (let serve = http_serve proxyUserName proxyPassword exitIpStr address domain (rq_Method req) in
               if rq_Method req = ''CONNECT'' then
                 CConn (\<lambda>c. case Write http200 c of
                   (Some _, c1) \<Rightarrow> (CReturn, c1)
                 | (None, c1) \<Rightarrow> (serve, c1))
               else (case rq_bytes req of
                   None \<Rightarrow> CReturn
                 | Some buf \<Rightarrow> CTargetWrite buf (\<lambda>ok. if ok then serve else CReturn)))))"

definition http_address :: "http_request \<Rightarrow> string" where
  "http_address req =
     (let port = (case SplitHostPort (rq_Host req) of Some (_, p) \<Rightarrow> p | None \<Rightarrow> '''') in
      if rq_Method req = ''CONNECT'' then (if port = '''' then rq_Host req @ '':443'' else rq_Host req)
      else (if port = '''' then rq_Host req @ '':80'' else rq_Host req))"

definition http_admit :: "(string \<Rightarrow> ip) \<Rightarrow> http_request \<Rightarrow> string \<Rightarrow> string \<Rightarrow> string \<Rightarrow> proc" where
  "http_admit parseIP req proxyUserName proxyPassword exitIpStr =
     (let exitIp = parseIP exitIpStr; targetHost = rq_Host req; ipAndTarget = exitIpStr @ ''-'' @ targetHost in
      CTarget ipAndTarget (\<lambda>isIn.
        if isIn then say http503
        else CAddIp exitIpStr (\<lambda>(ok, ipCount).
          if ok then
            CDefer (DReduceIp exitIpStr)
              (let address = http_address req; domain = regexpDomain address;
                   go = http_dial req proxyUserName proxyPassword exitIpStr exitIp ipAndTarget address domain in
               if domain \<noteq> '''' then
                 CBlack domain (\<lambda>(black, isIn).
                   if isIn then
                     CSendBlack proxyUserName proxyPassword black 1 proxyUserName exitIpStr (say http503)
                   else go)
               else go)
          else say http503)))"

definition httpTcpConn :: "(string \<Rightarrow> ip) \<Rightarrow> string \<Rightarrow> string \<Rightarrow> http_request \<Rightarrow> proc" where
  "httpTcpConn parseIP proxyServerIpStr peerIp req =
     (case base64_decode (replace_first ''Basic '' (rq_auth req)) of
        None \<Rightarrow> say http407
      | Some authData \<Rightarrow>
          (let userPasswdPair = split_on CHR '':'' (string_of authData) in
           if length userPasswdPair \<noteq> 2 then say http407
           else
             (let proxyUserName = userPasswdPair ! 0; proxyPassword = userPasswdPair ! 1 in
              CValid proxyUserName proxyPassword proxyServerIpStr peerIp (\<lambda>r. case r of
                Inl err \<Rightarrow> say http407
              | Inr exitIpStr \<Rightarrow> http_admit parseIP req proxyUserName proxyPassword exitIpStr))))"

subsection \<open>SOCKS5\<close>

definition socks_auth_failure :: bytes where
  "socks_auth_failure = [UserAuthVersion, AuthFailure]"

definition socks_serve :: "string \<Rightarrow> string \<Rightarrow> string \<Rightarrow> string \<Rightarrow> string \<Rightarrow> proc" where
  "socks_serve user pwd exitIpStr address domain =
     (let key = user in
      CAddUser key (\<lambda>connCtx.
        CDefer (DDeleteUser key connCtx)
          (CDefer (DReport user address exitIpStr)
            (CRelay \<lparr>rl_ctx = connCtx, rl_sniff = (domain = ''''), rl_name = user, rl_ip = pwd,
               rl_account = user, rl_exit = exitIpStr\<rparr>))))"

definition dial_reply :: "string \<Rightarrow> byte" where
  "dial_reply msg =
     (if contains_str msg ''refused'' then ConnectionRefused
      else if contains_str msg ''network is unreachable'' then NetworkUnreachable
      else HostUnreachable)"

definition socks_dial :: "(string \<Rightarrow> ip) \<Rightarrow> string \<Rightarrow> string \<Rightarrow> string \<Rightarrow> string \<Rightarrow> string \<Rightarrow> string \<Rightarrow> proc" where
  "socks_dial parseIP user pwd exitIpStr ipAndTarget address domain =
     (let exitIp = parseIP exitIpStr; isIpv4 = (To4 exitIp \<noteq> None) in
      CStore domain
        (CDial address exitIp (\<lambda>r. case r of
           DialErr msg isTimeout \<Rightarrow>
             (let resp = dial_reply msg in
              if isTimeout then CRecordFail ipAndTarget (reply resp) else reply resp)
         | DialOk localIP localPort \<Rightarrow>
             CDefer DCloseTarget
               (let bind = (if \<not> isIpv4 then \<lparr>FQDN = '''', IP = parseIP ''0.0.0.0'', Port = 0\<rparr>
                            else \<lparr>FQDN = '''', IP = localIP, Port = localPort\<rparr>) in
                CConn (\<lambda>c. case SendReply SuccessReply (Some bind) c of
                  (Some _, c1) \<Rightarrow> (CReturn, c1)
                | (None, c1) \<Rightarrow> (socks_serve user pwd exitIpStr address domain, c1))))))"

definition socks_request :: "(string \<Rightarrow> ip) \<Rightarrow> string \<Rightarrow> string \<Rightarrow> string \<Rightarrow> addr_spec \<Rightarrow> proc" where
  "socks_request parseIP user pwd exitIpStr destAddr =
     (let ipAndTarget = exitIpStr @ ''-'' @ AddrSpec_String destAddr in
      CTarget ipAndTarget (\<lambda>isIn.
        if isIn then reply NetworkUnreachable
        else
          (let address = AddrSpec_Address destAddr; domain = regexpDomain address;
               go = socks_dial parseIP user pwd exitIpStr ipAndTarget address domain in
           if domain \<noteq> '''' then
             CBlack domain (\<lambda>(black, isIn).
               if isIn then CSendBlack user pwd black 1 user exitIpStr (reply HostUnreachable) else go)
           else go)))"

definition socksTcpConn :: "(string \<Rightarrow> ip) \<Rightarrow> string \<Rightarrow> string \<Rightarrow> proc" where
  "socksTcpConn parseIP proxyServerIpStr peerIp =
     CConn (\<lambda>c. case GetUserPassword c of
       (Inl _, c1) \<Rightarrow> (say socks_auth_failure, c1)
     | (Inr (user, pwd), c1) \<Rightarrow>
         (CValid user pwd proxyServerIpStr peerIp (\<lambda>r. case r of
            Inl _ \<Rightarrow> say socks_auth_failure
          | Inr exitIpStr \<Rightarrow>
              CAddIp exitIpStr (\<lambda>(ok, ipCount).
                if ok then
                  CDefer (DReduceIp exitIpStr)
                    (CConn (\<lambda>c. case Write [UserAuthVersion, AuthSuccess] c of
                      (Some _, c1) \<Rightarrow> (CReturn, c1)
                    | (None, c1) \<Rightarrow> (case ReadDestAddr c1 of
                        (Inl e, c2) \<Rightarrow>
                          (if e = UnrecognizedAddrType then reply AddrTypeNotSupported else CReturn, c2)
                      | (Inr destAddr, c2) \<Rightarrow> (socks_request parseIP user pwd exitIpStr destAddr, c2))))
                else reply ConnectionRefused)), c1))"

subsection \<open>Shadowsocks\<close>

text \<open>
  The Shadowsocks library is a parameter: \<open>pickCipher\<close> tells whether \<^verbatim>\<open>core.PickCipher\<close> accepts the
  password, \<open>readAddr\<close> is \<^verbatim>\<open>socks.ReadAddr\<close> on the deciphered stream (the target's text form).
\<close>

definition discardConn :: "conn \<Rightarrow> conn" where
  "discardConn c = c\<lparr>in_bytes := []\<rparr>"

definition ss_discard :: proc where
  "ss_discard = CConn (\<lambda>c. (CReturn, discardConn c))"

definition ss_serve :: "string \<Rightarrow> string \<Rightarrow> string \<Rightarrow> proc" where
  "ss_serve ip tgt domain =
     (let user = ''shadowSocks''; key = user @ '':'' @ ip in
      CAddUser key (\<lambda>connCtx.
        CDefer (DDeleteUser key connCtx)
          (CDefer (DReport user tgt ip)
            (CRelay \<lparr>rl_ctx = connCtx, rl_sniff = (domain = ''''), rl_name = ip, rl_ip = ip,
               rl_account = '''', rl_exit = ip\<rparr>))))"

definition ss_dial :: "(string \<Rightarrow> ip) \<Rightarrow> string \<Rightarrow> string \<Rightarrow> string \<Rightarrow> string \<Rightarrow> proc" where
  "ss_dial parseIP ip ipAndTarget tgt domain =
     CStore domain
       (let ipByte = (case To4 (parseIP ip) of Some q \<Rightarrow> q | None \<Rightarrow> []) in
        CDial tgt ipByte (\<lambda>r. case r of
          DialErr msg isTimeout \<Rightarrow> if isTimeout then CRecordFail ipAndTarget CReturn else CReturn
        | DialOk _ _ \<Rightarrow> CDefer DCloseTarget (ss_serve ip tgt domain)))"

definition ss_request :: "(string \<Rightarrow> ip) \<Rightarrow> string \<Rightarrow> string \<Rightarrow> proc" where
  "ss_request parseIP ip tgt =
     (let ipAndTarget = ip @ ''-'' @ tgt in
      CTarget ipAndTarget (\<lambda>isIn.
        if isIn then CReturn
        else CAddIp ip (\<lambda>(ok, ipCount).
          if ok then
            CDefer (DReduceIp ip)
              (let domain = regexpDomain tgt; go = ss_dial parseIP ip ipAndTarget tgt domain in
               if domain \<noteq> '''' then
                 CBlack domain (\<lambda>(black, isIn).
                   if isIn then CSendBlack ip ip black 1 '''' ip CReturn else go)
               else go)
          else CAlarm ip CReturn)))"

definition runShadowSocks :: "(string \<Rightarrow> ip) \<Rightarrow> (string \<Rightarrow> bool) \<Rightarrow>
    (string \<Rightarrow> conn \<Rightarrow> (string + string) \<times> conn) \<Rightarrow> string \<Rightarrow> proc" where
  "runShadowSocks parseIP pickCipher readAddr ip =
     CValidShadowSocks ip (\<lambda>r. case r of
       Inl _ \<Rightarrow> ss_discard
     | Inr password \<Rightarrow>
         if \<not> pickCipher password then ss_discard
         else CConn (\<lambda>c. case readAddr password c of
           (Inl _, c1) \<Rightarrow> (ss_discard, c1)
         | (Inr tgt, c1) \<Rightarrow> (ss_request parseIP ip tgt, c1)))"

subsection \<open>Dispatch\<close>

text \<open>
  \<open>n\<close> is the number of bytes the network has ready for the first read, which takes at most the
  2048 bytes of its buffer; \<open>readRequest\<close> is \<^verbatim>\<open>http.ReadRequest\<close> on those bytes.
\<close>

definition first_read :: "nat \<Rightarrow> conn \<Rightarrow> (net_error + bytes) \<times> conn" where
  "first_read n c =
     (if in_bytes c = [] then (Inl (in_err c), c)
      else (let k = min (max 1 n) 2048 in (Inr (take k (in_bytes c)), c\<lparr>in_bytes := drop k (in_bytes c)\<rparr>)))"

definition handlerTcpConn :: "(string \<Rightarrow> ip) \<Rightarrow> (bytes \<Rightarrow> http_request option) \<Rightarrow> nat \<Rightarrow> string \<Rightarrow> string \<Rightarrow> proc" where
  "handlerTcpConn parseIP readRequest n proxyServerIpStr peerIp =
     CConn (\<lambda>c. case first_read n c of
       (Inl _, c1) \<Rightarrow> (CReturn, c1)
     | (Inr buffer, c1) \<Rightarrow>
         (if length buffer \<le> 8 then socksTcpConn parseIP proxyServerIpStr peerIp
          else (case readRequest buffer of
              None \<Rightarrow> CReturn
            | Some req \<Rightarrow> httpTcpConn parseIP proxyServerIpStr peerIp req), c1))"

definition handleShadowSocks :: "(string \<Rightarrow> ip) \<Rightarrow> (string \<Rightarrow> bool) \<Rightarrow>
    (string \<Rightarrow> conn \<Rightarrow> (string + string) \<times> conn) \<Rightarrow> string \<Rightarrow> proc" where
  "handleShadowSocks parseIP pickCipher readAddr ip = runShadowSocks parseIP pickCipher readAddr ip"

end
