(* ===== verification/Server.thy ===== *)
theory Server
  imports Handlers
begin

text \<open>
  The running server: the state the handlers share (\<^verbatim>\<open>manager\<close> in \<^verbatim>\<open>server/manager.go\<close>), the handlers
  in progress, and the steps of the whole. \<open>exec\<close> runs the next call of a handler on the shared
  state; what the clock, the network and the other parties answer is its \<open>input\<close>. \<open>sys_step\<close>
  interleaves any number of handlers with the administration of the server: accepting
  connections, closing a user's connections, new configuration, a new domain blacklist, changes of
  the stored accounts, and shutdown.
\<close>

record ('m, 'u, 'c, 'b, 'a) srv_ops =
  o_ip :: "('m, addr, ip_cb_state) cmap_ops"
  o_user :: "('u, addr, ctx_heap) cmap_ops"
  o_cache :: "('c, stats_addr) ttl_ops"
  o_black :: "('b, int) ttl_ops"
  o_valid :: "int \<Rightarrow> string \<Rightarrow> string \<Rightarrow> string \<Rightarrow> string \<Rightarrow> 'a \<Rightarrow> (auth_error + string) \<times> 'a"
  o_validss :: "int \<Rightarrow> string \<Rightarrow> 'a \<Rightarrow> (auth_error + string) \<times> 'a"
  o_cb :: cb_ops
  o_http_host :: "bytes \<Rightarrow> string option"

text \<open>
  \<open>m_auth\<close> is the authentication object together with the stored accounts; \<open>m_reports\<close> and
  \<open>m_accesses\<close> are the messages handed to the producer of theory \<open>Product\<close>, \<open>m_alarms\<close> the alarms
  (address, threshold printed, seconds until the next one).
\<close>

record ('m, 'u, 'c, 'b, 'a) manager =
  m_ip :: "'m \<times> ip_heap"
  m_user :: "'u \<times> ctx_heap"
  m_conf :: nacos_config
  m_blackMap :: "string list option"
  m_tracker :: "('c, 'b) dial_fail_tracker"
  m_auth :: 'a
  m_reports :: "blacklist_access_log list"
  m_accesses :: "(string \<times> string \<times> string) list"
  m_alarms :: "(string \<times> int \<times> int) list"
  m_stop :: bool
  m_crashed :: bool

text \<open>The calls of a handler with their answers, as they happened.\<close>

datatype act =
    AValid string string string string "auth_error + string"
  | AValidShadowSocks string "auth_error + string"
  | ATarget string bool
  | AAddIp string bool
  | ABlack string "string \<times> bool"
  | ASendBlack string string string int string string
  | ADial string ip dial_result
  | ARecordFail string

record thread =
  th_proc :: proc
  th_defer :: "deferred list"
  th_conn :: conn
  th_domain :: string
  th_trace :: "act list"

definition new_thread :: "proc \<Rightarrow> conn \<Rightarrow> thread" where
  "new_thread p c = \<lparr>th_proc = p, th_defer = [], th_conn = c, th_domain = '''', th_trace = []\<rparr>"

definition finished :: "thread \<Rightarrow> bool" where
  "finished th \<longleftrightarrow> th_proc th = CReturn \<and> th_defer th = []"

definition goto :: "act \<Rightarrow> proc \<Rightarrow> thread \<Rightarrow> thread" where
  "goto a p th = th\<lparr>th_proc := p, th_trace := th_trace th @ [a]\<rparr>"

text \<open>
  What a step takes from outside: the clock, a yes-or-no answer (the alarm cache, a write to the
  target), the result of dialling, what concurrent records of the same pair do, and the event the
  loop selects.
\<close>

datatype event = Tick | CopyDone | CtxDone | UserDone | Sniff bytes

record input =
  i_now :: int
  i_flag :: bool
  i_dial :: dial_result
  i_env :: "nat \<Rightarrow> dial_fail_stats \<Rightarrow> dial_fail_stats"
  i_event :: event

definition send_black :: "string \<Rightarrow> string \<Rightarrow> string \<Rightarrow> int \<Rightarrow> string \<Rightarrow> string \<Rightarrow>
    ('m, 'u, 'c, 'b, 'a) manager \<Rightarrow> ('m, 'u, 'c, 'b, 'a) manager" where
  "send_black u ip black ty acc exitIp m =
     m\<lparr>m_reports := m_reports m @ [black_list_record u ip black ty acc exitIp]\<rparr>"

text \<open>The deferred calls; the access log names the domain if one is known, else the host of the address.\<close>

definition access_domain :: "string \<Rightarrow> string \<Rightarrow> string" where
  "access_domain domain address = (if domain \<noteq> '''' then domain else split_on CHR '':'' address ! 0)"

fun run_deferred :: "('m, 'u, 'c, 'b, 'a) srv_ops \<Rightarrow> string \<Rightarrow> deferred \<Rightarrow>
    ('m, 'u, 'c, 'b, 'a) manager \<Rightarrow> ('m, 'u, 'c, 'b, 'a) manager" where
  "run_deferred P dm (DReduceIp ip) m = m\<lparr>m_ip := ReduceIpConnCount (o_ip P) ip (m_ip m)\<rparr>"
| "run_deferred P dm DCloseTarget m = m"
| "run_deferred P dm (DDeleteUser k ctx) m = m\<lparr>m_user := deleteUserConnection (o_user P) k ctx (m_user m)\<rparr>"
| "run_deferred P dm (DReport user address ip) m =
     m\<lparr>m_accesses := m_accesses m @ [(user, access_domain dm address, ip)]\<rparr>"

text \<open>One turn of the loop of a handler, and the sniffing goroutine. A panic there ends the process.\<close>

fun relay_step :: "('m, 'u, 'c, 'b, 'a) srv_ops \<Rightarrow> event \<Rightarrow> relay \<Rightarrow> ('m, 'u, 'c, 'b, 'a) manager \<Rightarrow> thread \<Rightarrow>
    (('m, 'u, 'c, 'b, 'a) manager \<times> thread) option" where
  "relay_step P Tick r m th =
     (if th_domain th = '''' then Some (m, th)
      else case IsInBlacklist (m_blackMap m) (th_domain th) of (black, isIn) \<Rightarrow>
        if isIn then Some (send_black (rl_name r) (rl_ip r) black 1 (rl_account r) (rl_exit r) m,
          goto (ASendBlack (rl_name r) (rl_ip r) black 1 (rl_account r) (rl_exit r)) CReturn th)
        else Some (m, th))"
| "relay_step P CopyDone r m th = Some (m, th\<lparr>th_proc := CReturn\<rparr>)"
| "relay_step P CtxDone r m th = (if m_stop m then Some (m, th\<lparr>th_proc := CReturn\<rparr>) else None)"
| "relay_step P UserDone r m th =
     (if ctx_cancelled (ctxs (snd (m_user m)) (rl_ctx r)) then Some (m, th\<lparr>th_proc := CReturn\<rparr>) else None)"
| "relay_step P (Sniff buf) r m th =
     (if \<not> rl_sniff r then None
      else case sniff_domain (o_cb P) (o_http_host P) buf of
        Panic \<Rightarrow> Some (m\<lparr>m_crashed := True\<rparr>, th)
      | Ret d \<Rightarrow> Some (m, th\<lparr>th_domain := (case d of Some x \<Rightarrow> x | None \<Rightarrow> th_domain th),
          th_proc := CRelay (r\<lparr>rl_sniff := False\<rparr>)\<rparr>))"

fun exec :: "('m, 'u, 'c, 'b, 'a) srv_ops \<Rightarrow> input \<Rightarrow> proc \<Rightarrow> ('m, 'u, 'c, 'b, 'a) manager \<Rightarrow> thread \<Rightarrow>
    (('m, 'u, 'c, 'b, 'a) manager \<times> thread) option" where
  "exec P i CReturn m th = (case th_defer th of
     [] \<Rightarrow> None
   | d # ds \<Rightarrow> Some (run_deferred P (th_domain th) d m, th\<lparr>th_defer := ds\<rparr>))"
| "exec P i (CConn f) m th = (case f (th_conn th) of (p, c) \<Rightarrow> Some (m, th\<lparr>th_proc := p, th_conn := c\<rparr>))"
| "exec P i (CValid u p lip peer k) m th = (case o_valid P (i_now i) u p lip peer (m_auth m) of
     (r, a) \<Rightarrow> Some (m\<lparr>m_auth := a\<rparr>, goto (AValid u p lip peer r) (k r) th))"
| "exec P i (CValidShadowSocks ip k) m th = (case o_validss P (i_now i) ip (m_auth m) of
     (r, a) \<Rightarrow> Some (m\<lparr>m_auth := a\<rparr>, goto (AValidShadowSocks ip r) (k r) th))"
| "exec P i (CTarget s k) m th =
     (case IsBlacklisted (o_black P) (i_now i) s (m_tracker m) of (b, t) \<Rightarrow>
        (let isIn = IpAndTargetIsInBlacklist (m_conf m) (\<lambda>_. b) s in
         Some (m\<lparr>m_tracker := (if s \<in> set (WhiteList (m_conf m)) then m_tracker m else t)\<rparr>,
               goto (ATarget s isIn) (k isIn) th)))"
| "exec P i (CAddIp ip k) m th = (case AddIpConnCount (o_ip P) (OneIpMaxConn (m_conf m)) ip (m_ip m) of
     ((ok, n), s) \<Rightarrow> Some (m\<lparr>m_ip := s\<rparr>, goto (AAddIp ip ok) (k (ok, n)) th))"
| "exec P i (CBlack d k) m th =
     (let r = IsInBlacklist (m_blackMap m) d in Some (m, goto (ABlack d r) (k r) th))"
| "exec P i (CSendBlack u ip black ty acc exitIp p) m th =
     Some (send_black u ip black ty acc exitIp m, goto (ASendBlack u ip black ty acc exitIp) p th)"
| "exec P i (CAlarm ip p) m th =
     (let thr = AlarmOneIPMaxThreshold (m_conf m); ttl = (if thr \<noteq> 0 then thr else 300) in
      Some (if i_flag i then m else m\<lparr>m_alarms := m_alarms m @ [(ip, thr, ttl)]\<rparr>, th\<lparr>th_proc := p\<rparr>))"
| "exec P i (CStore d p) m th = Some (m, th\<lparr>th_domain := d, th_proc := p\<rparr>)"
| "exec P i (CDial address lip k) m th = Some (m, goto (ADial address lip (i_dial i)) (k (i_dial i)) th)"
| "exec P i (CRecordFail s p) m th =
     Some (m\<lparr>m_tracker := RecordDialFailConnection (o_cache P) (o_black P) (i_env i) (i_now i) s (m_tracker m)\<rparr>,
           goto (ARecordFail s) p th)"
| "exec P i (CTargetWrite buf k) m th = Some (m, th\<lparr>th_proc := k (i_flag i)\<rparr>)"
| "exec P i (CAddUser key k) m th = (case addUserConnection (o_user P) (m_conf m) (i_now i) key (m_user m) of
     (p, s) \<Rightarrow> Some (m\<lparr>m_user := s\<rparr>, th\<lparr>th_proc := k p\<rparr>))"
| "exec P i (CDefer d p) m th = Some (m, th\<lparr>th_defer := d # th_defer th, th_proc := p\<rparr>)"
| "exec P i (CRelay r) m th = relay_step P (i_event i) r m th"

subsection \<open>The server\<close>

text \<open>The handlers of the listeners, for every connection they may be given.\<close>

definition handlers :: "(string \<Rightarrow> ip) \<Rightarrow> (bytes \<Rightarrow> http_request option) \<Rightarrow> (string \<Rightarrow> bool) \<Rightarrow>
    (string \<Rightarrow> conn \<Rightarrow> (string + string) \<times> conn) \<Rightarrow> proc set" where
  "handlers parseIP readRequest pickCipher readAddr =
     {handlerTcpConn parseIP readRequest n lip peer | n lip peer. True} \<union>
     {handleShadowSocks parseIP pickCipher readAddr ip | ip. True}"

inductive sys_step :: "('m, 'u, 'c, 'b, 'a) srv_ops \<Rightarrow> proc set \<Rightarrow>
    ('m, 'u, 'c, 'b, 'a) manager \<times> thread list \<Rightarrow> ('m, 'u, 'c, 'b, 'a) manager \<times> thread list \<Rightarrow> bool"
  for P H where
  run: "\<not> m_crashed m \<Longrightarrow> j < length ths \<Longrightarrow> exec P i (th_proc (ths ! j)) m (ths ! j) = Some (m', th') \<Longrightarrow>
    sys_step P H (m, ths) (m', ths[j := th'])"
| accept: "p \<in> H \<Longrightarrow> sys_step P H (m, ths) (m, ths @ [new_thread p c])"
| close_user: "CloseUserConnections (o_user P) k (m_user m) = (b, s) \<Longrightarrow>
    sys_step P H (m, ths) (m\<lparr>m_user := s\<rparr>, ths)"
| set_conf: "sys_step P H (m, ths) (m\<lparr>m_conf := conf\<rparr>, ths)"
| push_limits: "sys_step P H (m, ths)
    (m\<lparr>m_user := updateLimitedReaderAction (o_user P) (m_conf m) (m_user m)\<rparr>, ths)"
| set_black: "sys_step P H (m, ths) (m\<lparr>m_blackMap := Some bm\<rparr>, ths)"
| accounts: "sys_step P H (m, ths) (m\<lparr>m_auth := a\<rparr>, ths)"
| stop: "sys_step P H (m, ths) (m\<lparr>m_stop := True\<rparr>, ths)"

subsection \<open>Every acquisition is followed by its deferred release\<close>

text \<open>
  A handler is balanced if it defers the release of an address slot or of a user registration right
  after acquiring it, and never otherwise.
\<close>

inductive balanced :: "proc \<Rightarrow> bool" where
  bal_Return: "balanced CReturn"
| bal_Conn: "(\<And>c. balanced (fst (f c))) \<Longrightarrow> balanced (CConn f)"
| bal_Valid: "(\<And>r. balanced (k r)) \<Longrightarrow> balanced (CValid u p lip peer k)"
| bal_ValidSS: "(\<And>r. balanced (k r)) \<Longrightarrow> balanced (CValidShadowSocks ip k)"
| bal_Target: "(\<And>b. balanced (k b)) \<Longrightarrow> balanced (CTarget s k)"
| bal_AddIp: "(\<And>n. \<exists>p. k (True, n) = CDefer (DReduceIp ip) p \<and> balanced p) \<Longrightarrow>
    (\<And>n. balanced (k (False, n))) \<Longrightarrow> balanced (CAddIp ip k)"
| bal_Black: "(\<And>r. balanced (k r)) \<Longrightarrow> balanced (CBlack d k)"
| bal_SendBlack: "balanced p \<Longrightarrow> balanced (CSendBlack u ip black ty acc exitIp p)"
| bal_Alarm: "balanced p \<Longrightarrow> balanced (CAlarm ip p)"
| bal_Store: "balanced p \<Longrightarrow> balanced (CStore d p)"
| bal_Dial: "(\<And>r. balanced (k r)) \<Longrightarrow> balanced (CDial address lip k)"
| bal_RecordFail: "balanced p \<Longrightarrow> balanced (CRecordFail s p)"
| bal_TargetWrite: "(\<And>b. balanced (k b)) \<Longrightarrow> balanced (CTargetWrite buf k)"
| bal_AddUser: "(\<And>a. \<exists>p. k a = CDefer (DDeleteUser key a) p \<and> balanced p) \<Longrightarrow> balanced (CAddUser key k)"
| bal_CloseTarget: "balanced p \<Longrightarrow> balanced (CDefer DCloseTarget p)"
| bal_Report: "balanced p \<Longrightarrow> balanced (CDefer (DReport user address ip) p)"
| bal_Relay: "balanced (CRelay r)"

inductive_cases balanced_elims: "balanced (CConn f)" "balanced (CValid u p lip peer k)"
  "balanced (CValidShadowSocks ip k)" "balanced (CTarget s k)" "balanced (CAddIp ip k)" "balanced (CBlack d k)"
  "balanced (CSendBlack u ip black ty acc exitIp p)" "balanced (CAlarm ip p)" "balanced (CStore d p)"
  "balanced (CDial address lip k)" "balanced (CRecordFail s p)" "balanced (CTargetWrite buf k)"
  "balanced (CAddUser key k)" "balanced (CDefer d p)"

lemmas serve_defs = http_serve_def socks_serve_def ss_serve_def

lemma balanced_say [simp, intro]: "balanced (say msg)" "balanced (reply r)" "balanced ss_discard"
  by (auto simp: say_def reply_def ss_discard_def intro!: balanced.intros)

lemma balanced_serve [simp, intro]:
  "balanced (http_serve u pw ip addr dm mth)" "balanced (socks_serve u pw ip addr dm)" "balanced (ss_serve ip addr dm)"
  by (auto simp: serve_defs Let_def intro!: balanced.intros)

lemma balanced_dial [simp, intro]:
  "balanced (http_dial req u pw ips ip tgt addr dm)" "balanced (socks_dial parseIP u pw ips tgt addr dm)"
  "balanced (ss_dial parseIP ips tgt addr dm)"
  unfolding http_dial_def socks_dial_def ss_dial_def Let_def
  by (auto intro!: balanced.intros split: dial_result.splits option.splits prod.splits)

lemma balanced_admit [simp, intro]:
  "balanced (http_admit parseIP req u pw ips)" "balanced (socks_request parseIP u pw ips a)"
  "balanced (ss_request parseIP ips tgt)"
  unfolding http_admit_def socks_request_def ss_request_def Let_def
  by (auto intro!: balanced.intros split: prod.splits)

lemma balanced_httpTcpConn [simp, intro]: "balanced (httpTcpConn parseIP lip peer req)"
  unfolding httpTcpConn_def Let_def by (auto intro!: balanced.intros split: option.splits sum.splits)

lemma balanced_socksTcpConn [simp, intro]: "balanced (socksTcpConn parseIP lip peer)"
  unfolding socksTcpConn_def Let_def
  by (auto intro!: balanced.intros split: option.splits sum.splits prod.splits)

lemma balanced_handlers: "p \<in> handlers parseIP readRequest pickCipher readAddr \<Longrightarrow> balanced p"
  unfolding handlers_def handlerTcpConn_def handleShadowSocks_def runShadowSocks_def
  by (auto intro!: balanced.intros split: option.splits sum.splits prod.splits)

subsection \<open>What a handler holds\<close>

fun head_deferred :: "proc \<Rightarrow> deferred list" where
  "head_deferred (CDefer d p) = [d]"
| "head_deferred _ = []"

definition pends :: "thread \<Rightarrow> deferred list" where
  "pends th = head_deferred (th_proc th) @ th_defer th"

definition held :: "thread list \<Rightarrow> deferred \<Rightarrow> nat" where
  "held ths d = (\<Sum>th\<leftarrow>ths. count_list (pends th) d)"

definition thread_ok :: "thread \<Rightarrow> bool" where
  "thread_ok th \<longleftrightarrow> balanced (th_proc th) \<or> (\<exists>d p. th_proc th = CDefer d p \<and> balanced p)"

definition acquired :: "deferred \<Rightarrow> bool" where
  "acquired d \<longleftrightarrow> (\<exists>ip. d = DReduceIp ip) \<or> (\<exists>k p. d = DDeleteUser k p)"

lemma balanced_head: "balanced p \<Longrightarrow> acquired d \<Longrightarrow> count_list (head_deferred p) d = 0"
  by (cases p) (auto simp: acquired_def elim!: balanced_elims)

lemma held_update:
  assumes "j < length ths"
  shows "held (ths[j := th]) d + count_list (pends (ths ! j)) d = held ths d + count_list (pends th) d"
proof -
  have "(\<Sum>t\<leftarrow>ths[j := th]. f t) + f (ths ! j) = (\<Sum>t\<leftarrow>ths. f t) + f th" for f :: "thread \<Rightarrow> nat"
    using assms by (induction ths arbitrary: j) (auto split: nat.splits)
  then show ?thesis unfolding held_def .
qed

lemma held_append [simp]: "held (ths @ us) d = held ths d + held us d"
  by (simp add: held_def)

text \<open>
  The effect of a step on the two maps: at most one call of the accounting, matched by what the
  handler holds.
\<close>

datatype effect = Quiet | Admit string | Leave string | Register string addr | Unregister string addr

fun matches :: "('m, 'u, 'c, 'b, 'a) srv_ops \<Rightarrow> effect \<Rightarrow> (deferred \<Rightarrow> nat) \<Rightarrow> ('m, 'u, 'c, 'b, 'a) manager \<Rightarrow>
    (deferred \<Rightarrow> nat) \<Rightarrow> ('m, 'u, 'c, 'b, 'a) manager \<Rightarrow> bool" where
  "matches P Quiet h m h' m' \<longleftrightarrow> m_user m' = m_user m \<and> (\<forall>d. acquired d \<longrightarrow> h' d = h d) \<and>
     (m_ip m' = m_ip m \<or> (\<exists>N ip n. AddIpConnCount (o_ip P) N ip (m_ip m) = ((False, n), m_ip m')))"
| "matches P (Admit ip) h m h' m' \<longleftrightarrow> m_user m' = m_user m \<and>
     (\<exists>N n. AddIpConnCount (o_ip P) N ip (m_ip m) = ((True, n), m_ip m')) \<and>
     (\<forall>d. acquired d \<longrightarrow> h' d = (h(DReduceIp ip := Suc (h (DReduceIp ip)))) d)"
| "matches P (Leave ip) h m h' m' \<longleftrightarrow> m_user m' = m_user m \<and> 0 < h (DReduceIp ip) \<and>
     m_ip m' = ReduceIpConnCount (o_ip P) ip (m_ip m) \<and>
     (\<forall>d. acquired d \<longrightarrow> h' d = (h(DReduceIp ip := h (DReduceIp ip) - 1)) d)"
| "matches P (Register k p) h m h' m' \<longleftrightarrow> m_ip m' = m_ip m \<and>
     (\<exists>conf now. addUserConnection (o_user P) conf now k (m_user m) = (p, m_user m')) \<and>
     (\<forall>d. acquired d \<longrightarrow> h' d = (h(DDeleteUser k p := Suc (h (DDeleteUser k p)))) d)"
| "matches P (Unregister k p) h m h' m' \<longleftrightarrow> m_ip m' = m_ip m \<and> 0 < h (DDeleteUser k p) \<and>
     m_user m' = deleteUserConnection (o_user P) k p (m_user m) \<and>
     (\<forall>d. acquired d \<longrightarrow> h' d = (h(DDeleteUser k p := h (DDeleteUser k p) - 1)) d)"

lemma relay_step_quiet:
  assumes "relay_step P e r m th = Some (m', th')" and "th_proc th = CRelay r"
  shows "thread_ok th' \<and> m_ip m' = m_ip m \<and> m_user m' = m_user m \<and> pends th' = pends th"
  using assms by (cases e) (auto simp: thread_ok_def pends_def goto_def send_black_def
      intro: balanced.intros split: if_splits prod.splits outcome.splits)

lemma exec_return:
  assumes "exec P i (th_proc th) m th = Some (m', th')" and "thread_ok th" and CReturn: "th_proc th = CReturn"
  shows "thread_ok th' \<and> (\<exists>e. matches P e (count_list (pends th)) m (count_list (pends th')) m')"
proof -
  from assms(1) CReturn obtain d ds where d: "th_defer th = d # ds" "m' = run_deferred P (th_domain th) d m"
    "th' = th\<lparr>th_defer := ds\<rparr>" by (auto split: list.splits)
  have "\<exists>e. matches P e (count_list (pends th)) m (count_list (pends th')) m'"
  proof (cases d)
    case (DReduceIp ip)
    with d CReturn show ?thesis by (intro exI [of _ "Leave ip"]) (auto simp: pends_def)
  next
    case (DDeleteUser k p)
    with d CReturn show ?thesis by (intro exI [of _ "Unregister k p"]) (auto simp: pends_def)
  qed (use d CReturn in \<open>auto simp: pends_def acquired_def intro!: exI [of _ Quiet]\<close>)
  with d(3) CReturn show ?thesis by (simp add: thread_ok_def balanced.intros)
qed

lemma exec_add_ip:
  assumes "exec P i (th_proc th) m th = Some (m', th')" and "thread_ok th" and CAddIp: "th_proc th = CAddIp ip k"
  shows "thread_ok th' \<and> (\<exists>e. matches P e (count_list (pends th)) m (count_list (pends th')) m')"
proof -
  obtain ok n s where r: "AddIpConnCount (o_ip P) (OneIpMaxConn (m_conf m)) ip (m_ip m) = ((ok, n), s)"
    by (metis prod.collapse)
  with assms(1) CAddIp have e: "m' = m\<lparr>m_ip := s\<rparr>" "th' = goto (AAddIp ip ok) (k (ok, n)) th" by auto
  have b: "balanced (CAddIp ip k)" using assms(2) CAddIp by (simp add: thread_ok_def)
  show ?thesis
  proof (cases ok)
    case True
    with b obtain p where "k (ok, n) = CDefer (DReduceIp ip) p" "balanced p" by (auto elim!: balanced_elims)
    moreover have "\<exists>N n. AddIpConnCount (o_ip P) N ip (m_ip m) = ((True, n), m_ip m')"
      using r e(1) True by auto
    ultimately have "thread_ok th'" "matches P (Admit ip) (count_list (pends th)) m (count_list (pends th')) m'"
      using e CAddIp by (auto simp: thread_ok_def goto_def pends_def)
    then show ?thesis by blast
  next
    case False
    with b have "balanced (k (ok, n))" by (auto elim!: balanced_elims)
    with e r False CAddIp balanced_head [OF this] show ?thesis
      by (auto simp: thread_ok_def goto_def pends_def intro!: exI [of _ Quiet])
  qed
qed

lemma exec_add_user:
  assumes "exec P i (th_proc th) m th = Some (m', th')" and "thread_ok th" and CAddUser: "th_proc th = CAddUser key k"
  shows "thread_ok th' \<and> (\<exists>e. matches P e (count_list (pends th)) m (count_list (pends th')) m')"
proof -
  obtain a s where r: "addUserConnection (o_user P) (m_conf m) (i_now i) key (m_user m) = (a, s)"
    by (metis prod.collapse)
  obtain p where "k a = CDefer (DDeleteUser key a) p" "balanced p"
    using assms(2) CAddUser by (auto simp: thread_ok_def elim!: balanced_elims)
  moreover have e: "m' = m\<lparr>m_user := s\<rparr>" "th' = th\<lparr>th_proc := k a\<rparr>" using assms(1) r CAddUser by auto
  moreover have "\<exists>conf now. addUserConnection (o_user P) conf now key (m_user m) = (a, m_user m')"
    using r e(1) by auto
  ultimately have "thread_ok th'" "matches P (Register key a) (count_list (pends th)) m (count_list (pends th')) m'"
    using CAddUser by (auto simp: thread_ok_def pends_def)
  then show ?thesis by blast
qed

lemma exec_effect:
  assumes "exec P i (th_proc th) m th = Some (m', th')" and "thread_ok th"
  shows "thread_ok th' \<and> (\<exists>e. matches P e (count_list (pends th)) m (count_list (pends th')) m')"
proof -
  have bal: "balanced (th_proc th)" if "\<And>d p. th_proc th \<noteq> CDefer d p"
    using assms(2) that by (auto simp: thread_ok_def)
  have quiet: "\<exists>e. matches P e (count_list (pends th)) m (count_list (pends th')) m'"
    if "m_user m' = m_user m" "m_ip m' = m_ip m" "balanced (th_proc th')"
      "head_deferred (th_proc th) = []" "th_defer th' = th_defer th"
    using that balanced_head [OF that(3)] by (intro exI [of _ Quiet]) (simp add: pends_def)
  show ?thesis
  proof (cases "th_proc th")
    case CReturn
    with exec_return [OF assms] show ?thesis by blast
  next
    case (CAddIp ip k)
    with exec_add_ip [OF assms] show ?thesis by blast
  next
    case (CAddUser key k)
    with exec_add_user [OF assms] show ?thesis by blast
  next
    case (CDefer d p)
    with assms have "balanced p" by (auto simp: thread_ok_def elim: balanced_elims)
    with assms(1) CDefer balanced_head [OF this] show ?thesis
      by (auto simp: thread_ok_def pends_def intro!: exI [of _ Quiet])
  next
    case (CRelay r)
    with assms(1) relay_step_quiet [of P "i_event i" r m th m' th'] show ?thesis
      by (auto intro!: exI [of _ Quiet])
  next
    case (CConn f)
    obtain p c where f: "f (th_conn th) = (p, c)" by fastforce
    have "balanced (fst (f (th_conn th)))" using bal CConn by (auto elim!: balanced_elims)
    with f assms(1) CConn quiet show ?thesis by (auto simp: thread_ok_def)
  qed (use assms(1) bal quiet in \<open>auto simp: thread_ok_def goto_def send_black_def Let_def
      split: prod.splits if_splits elim!: balanced_elims\<close>)
qed

lemma held_ge: "j < length ths \<Longrightarrow> count_list (pends (ths ! j)) d \<le> held ths d"
  unfolding held_def by (rule member_le_sum_list) simp_all

lemma matches_lift:
  assumes "matches P e (count_list (pends (ths ! j))) m (count_list (pends th)) m'" and "j < length ths"
  shows "matches P e (held ths) m (held (ths[j := th])) m'"
  using assms(1)
proof (cases e)
  case Quiet
  have "held (ths[j := th]) d = held ths d" if "acquired d" for d
    using assms(1) Quiet that held_update [OF assms(2), of th d] by auto
  with Quiet assms(1) show ?thesis by simp
next
  case (Admit ip)
  have "held (ths[j := th]) d = ((held ths)(DReduceIp ip := Suc (held ths (DReduceIp ip)))) d" if "acquired d" for d
    using assms(1) Admit that held_update [OF assms(2), of th d] by auto
  with Admit assms(1) show ?thesis by simp
next
  case (Leave ip)
  have "held (ths[j := th]) d = ((held ths)(DReduceIp ip := held ths (DReduceIp ip) - 1)) d" if "acquired d" for d
    using assms(1) Leave that held_update [OF assms(2), of th d] by auto
  with Leave assms(1) held_ge [OF assms(2), of "DReduceIp ip"] show ?thesis by simp
next
  case (Register k p)
  have "held (ths[j := th]) d = ((held ths)(DDeleteUser k p := Suc (held ths (DDeleteUser k p)))) d" if "acquired d" for d
    using assms(1) Register that held_update [OF assms(2), of th d] by auto
  with Register assms(1) show ?thesis by simp
next
  case (Unregister k p)
  have "held (ths[j := th]) d = ((held ths)(DDeleteUser k p := held ths (DDeleteUser k p) - 1)) d" if "acquired d" for d
    using assms(1) Unregister that held_update [OF assms(2), of th d] by auto
  with Unregister assms(1) held_ge [OF assms(2), of "DDeleteUser k p"] show ?thesis by simp
qed

definition slots :: "(deferred \<Rightarrow> nat) \<Rightarrow> string \<Rightarrow> nat" where
  "slots h ip = h (DReduceIp ip)"

definition covers :: "(deferred \<Rightarrow> nat) \<Rightarrow> (string \<times> addr) list \<Rightarrow> bool" where
  "covers h regs \<longleftrightarrow> (\<forall>k p. count_list regs (k, p) = h (DDeleteUser k p))"

lemma acquired_simps [simp]: "acquired (DReduceIp ip)" "acquired (DDeleteUser k p)"
  by (auto simp: acquired_def)

lemma count_list_pos: "0 < count_list xs x \<Longrightarrow> x \<in> set xs"
  by (metis count_list_0_iff less_irrefl)

lemma matches_ip:
  assumes "matches P e h m h' m'"
  shows "(ip_step (o_ip P) UNIV)\<^sup>=\<^sup>= (m_ip m, slots h) (m_ip m', slots h')"
proof (cases e)
  case Quiet
  then have "slots h' = slots h" using assms by (auto simp: slots_def fun_eq_iff)
  with Quiet assms show ?thesis by (auto intro: ip_step.refuse)
next
  case (Admit ip)
  then have "slots h' = (slots h)(ip := Suc (slots h ip))" using assms by (auto simp: slots_def fun_eq_iff)
  with Admit assms show ?thesis by (auto intro: ip_step.admit)
next
  case (Leave ip)
  then have "slots h' = (slots h)(ip := slots h ip - 1)" "0 < slots h ip"
    using assms by (auto simp: slots_def fun_eq_iff)
  with Leave assms ip_step.leave [of "slots h" ip "o_ip P" UNIV "m_ip m"] show ?thesis by simp
next
  case (Register k p)
  then have "slots h' = slots h" using assms by (auto simp: slots_def fun_eq_iff)
  with Register assms show ?thesis by simp
next
  case (Unregister k p)
  then have "slots h' = slots h" using assms by (auto simp: slots_def fun_eq_iff)
  with Unregister assms show ?thesis by simp
qed

lemma matches_user:
  assumes "matches P e h m h' m'" and "covers h regs"
  shows "\<exists>regs'. (user_step (o_user P))\<^sup>=\<^sup>= (m_user m, regs) (m_user m', regs') \<and> covers h' regs'"
proof (cases e)
  case (Register k p)
  then have "user_step (o_user P) (m_user m, regs) (m_user m', (k, p) # regs)" "covers h' ((k, p) # regs)"
    using assms by (auto simp: covers_def intro: user_step.register)
  then show ?thesis by blast
next
  case (Unregister k p)
  then have "(k, p) \<in> set regs" using assms by (auto simp: covers_def intro: count_list_pos)
  from user_step.unregister [OF this, of "o_user P" "m_user m"]
  have "user_step (o_user P) (m_user m, regs) (m_user m', remove1 (k, p) regs)" using Unregister assms(1) by simp
  moreover have "covers h' (remove1 (k, p) regs)"
    using Unregister assms by (auto simp: covers_def count_list_remove1)
  ultimately show ?thesis by blast
next
  case Quiet
  with assms show ?thesis by (intro exI [of _ regs]) (auto simp: covers_def)
next
  case (Admit ip)
  with assms show ?thesis by (intro exI [of _ regs]) (auto simp: covers_def)
next
  case (Leave ip)
  with assms show ?thesis by (intro exI [of _ regs]) (auto simp: covers_def)
qed

lemma held_new: "balanced p \<Longrightarrow> acquired d \<Longrightarrow> held [new_thread p c] d = 0"
  using balanced_head [of p d] by (simp add: held_def pends_def new_thread_def)

lemma sys_step_accounting:
  assumes "sys_step P H (m, ths) (m', ths')" and "\<And>p. p \<in> H \<Longrightarrow> balanced p"
    and "\<And>th. th \<in> set ths \<Longrightarrow> thread_ok th" and "covers (held ths) regs"
  shows "(\<forall>th \<in> set ths'. thread_ok th) \<and>
    (ip_step (o_ip P) UNIV)\<^sup>=\<^sup>= (m_ip m, slots (held ths)) (m_ip m', slots (held ths')) \<and>
    (\<exists>regs'. (user_step (o_user P))\<^sup>=\<^sup>= (m_user m, regs) (m_user m', regs') \<and> covers (held ths') regs')"
  using assms(1)
proof (cases rule: sys_step.cases)
  case (run j i th')
  have "thread_ok (ths ! j)" using run(3) assms(3) by simp
  from exec_effect [OF run(4) this] obtain e where e: "thread_ok th'"
    "matches P e (count_list (pends (ths ! j))) m (count_list (pends th')) m'" by blast
  from matches_lift [OF e(2) run(3)] have lm: "matches P e (held ths) m (held ths') m'" using run(1) by simp
  moreover have "thread_ok th" if "th \<in> set ths'" for th
    using that run(1) e(1) assms(3) set_update_subset_insert [of ths j th'] by auto
  ultimately show ?thesis using matches_ip [OF lm] matches_user [OF lm assms(4)] by blast
next
  case (accept p c)
  then have b: "balanced p" using assms(2) by blast
  have "held ths' d = held ths d" if "acquired d" for d using accept held_new [OF b that] by simp
  then have "slots (held ths') = slots (held ths)" "covers (held ths') regs"
    using assms(4) by (auto simp: slots_def covers_def fun_eq_iff)
  moreover have "thread_ok (new_thread p c)" using b by (simp add: thread_ok_def new_thread_def)
  ultimately show ?thesis using accept assms(3) by auto
next
  case (close_user k b s)
  then show ?thesis using assms(3,4) by (auto intro!: exI [of _ regs] user_step.close_user)
next
  case push_limits
  then show ?thesis using assms(3,4) by (auto intro!: exI [of _ regs] user_step.reconfigure)
qed (use assms(3,4) in auto)

lemma relpowp_reflclp: "(R ^^ n) x y \<Longrightarrow> R\<^sup>=\<^sup>= y z \<Longrightarrow> \<exists>k \<le> Suc n. (R ^^ k) x z"
proof -
  assume "(R ^^ n) x y" "R\<^sup>=\<^sup>= y z"
  then consider "(R ^^ n) x z" | "(R ^^ Suc n) x z" by auto
  then show ?thesis by cases (meson le_SucI order_refl)+
qed

lemma server_run:
  assumes "(sys_step P H ^^ n) (m0, []) (m, ths)" and "\<And>p. p \<in> H \<Longrightarrow> balanced p"
  shows "(\<forall>th \<in> set ths. thread_ok th) \<and>
    (ip_step (o_ip P) UNIV)\<^sup>*\<^sup>* (m_ip m0, \<lambda>_. 0) (m_ip m, slots (held ths)) \<and>
    (\<exists>k \<le> n. \<exists>regs. (user_step (o_user P) ^^ k) (m_user m0, []) (m_user m, regs) \<and> covers (held ths) regs)"
  using assms(1)
proof (induction n arbitrary: m ths)
  case 0
  then show ?case by (simp add: held_def slots_def covers_def fun_eq_iff)
next
  case (Suc n)
  from Suc.prems obtain m1 ths1 where s: "(sys_step P H ^^ n) (m0, []) (m1, ths1)"
    "sys_step P H (m1, ths1) (m, ths)" by auto
  from Suc.IH [OF s(1)] obtain k regs where ih: "\<forall>th \<in> set ths1. thread_ok th"
    "(ip_step (o_ip P) UNIV)\<^sup>*\<^sup>* (m_ip m0, \<lambda>_. 0) (m_ip m1, slots (held ths1))" "k \<le> n"
    "(user_step (o_user P) ^^ k) (m_user m0, []) (m_user m1, regs)" "covers (held ths1) regs" by blast
  from sys_step_accounting [OF s(2) assms(2) _ ih(5)] ih(1) obtain regs' where
    st: "\<forall>th \<in> set ths. thread_ok th"
    "(ip_step (o_ip P) UNIV)\<^sup>=\<^sup>= (m_ip m1, slots (held ths1)) (m_ip m, slots (held ths))"
    "(user_step (o_user P))\<^sup>=\<^sup>= (m_user m1, regs) (m_user m, regs')" "covers (held ths) regs'" by blast
  have "(ip_step (o_ip P) UNIV)\<^sup>*\<^sup>* (m_ip m0, \<lambda>_. 0) (m_ip m, slots (held ths))"
    using ih(2) st(2) by auto
  moreover obtain k' where "k' \<le> Suc k" "(user_step (o_user P) ^^ k') (m_user m0, []) (m_user m, regs')"
    using relpowp_reflclp [OF ih(4) st(3)] by blast
  ultimately show ?case using st(1,4) ih(3) by (meson Suc_le_mono order_trans)
qed

subsection \<open>Every dial is authorised\<close>

definition authenticated :: "act list \<Rightarrow> string \<Rightarrow> bool" where
  "authenticated tr exitIp \<longleftrightarrow> (\<exists>u p lip peer. AValid u p lip peer (Inr exitIp) \<in> set tr) \<or>
     (\<exists>pw. AValidShadowSocks exitIp (Inr pw) \<in> set tr)"

text \<open>
  A dial is authorised by the calls before it: authentication returned the exit address it dials
  from; the pair of exit address and target was not blacklisted; the exit address had a free slot;
  and the domain of the address, if it has one, was not blacklisted.
\<close>

definition authorised :: "(string \<Rightarrow> ip) \<Rightarrow> act list \<Rightarrow> string \<Rightarrow> ip \<Rightarrow> bool" where
  "authorised parseIP tr address lip \<longleftrightarrow> (\<exists>exitIp tgt. authenticated tr exitIp \<and>
     (lip = parseIP exitIp \<or> lip = (case To4 (parseIP exitIp) of Some q \<Rightarrow> q | None \<Rightarrow> [])) \<and>
     ATarget (exitIp @ ''-'' @ tgt) False \<in> set tr \<and> AAddIp exitIp True \<in> set tr \<and>
     (regexpDomain address = '''' \<or> (\<exists>b. ABlack (regexpDomain address) (b, False) \<in> set tr)))"

text \<open>
  \<open>safe\<close>: from here on, after the calls \<open>tr\<close> and with the calls \<open>ds\<close> deferred, the handler dials only
  when authorised, enters its loop only after a successful dial and with the release of its user
  context deferred.
\<close>

inductive safe :: "(string \<Rightarrow> ip) \<Rightarrow> act list \<Rightarrow> deferred list \<Rightarrow> proc \<Rightarrow> bool" for parseIP where
  safe_Return: "safe parseIP tr ds CReturn"
| safe_Conn: "(\<And>c. safe parseIP tr ds (fst (f c))) \<Longrightarrow> safe parseIP tr ds (CConn f)"
| safe_Valid: "(\<And>r. safe parseIP (tr @ [AValid u p lip peer r]) ds (k r)) \<Longrightarrow> safe parseIP tr ds (CValid u p lip peer k)"
| safe_ValidSS: "(\<And>r. safe parseIP (tr @ [AValidShadowSocks ip r]) ds (k r)) \<Longrightarrow> safe parseIP tr ds (CValidShadowSocks ip k)"
| safe_Target: "(\<And>b. safe parseIP (tr @ [ATarget s b]) ds (k b)) \<Longrightarrow> safe parseIP tr ds (CTarget s k)"
| safe_AddIp: "(\<And>ok n. safe parseIP (tr @ [AAddIp ip ok]) ds (k (ok, n))) \<Longrightarrow> safe parseIP tr ds (CAddIp ip k)"
| safe_Black: "(\<And>r. safe parseIP (tr @ [ABlack d r]) ds (k r)) \<Longrightarrow> safe parseIP tr ds (CBlack d k)"
| safe_SendBlack: "safe parseIP (tr @ [ASendBlack u ip black ty acc exitIp]) ds p \<Longrightarrow>
    safe parseIP tr ds (CSendBlack u ip black ty acc exitIp p)"
| safe_Alarm: "safe parseIP tr ds p \<Longrightarrow> safe parseIP tr ds (CAlarm ip p)"
| safe_Store: "safe parseIP tr ds p \<Longrightarrow> safe parseIP tr ds (CStore d p)"
| safe_Dial: "authorised parseIP tr address lip \<Longrightarrow>
    (\<And>r. safe parseIP (tr @ [ADial address lip r]) ds (k r)) \<Longrightarrow> safe parseIP tr ds (CDial address lip k)"
| safe_RecordFail: "safe parseIP (tr @ [ARecordFail s]) ds p \<Longrightarrow> safe parseIP tr ds (CRecordFail s p)"
| safe_TargetWrite: "(\<And>b. safe parseIP tr ds (k b)) \<Longrightarrow> safe parseIP tr ds (CTargetWrite buf k)"
| safe_AddUser: "(\<And>a. safe parseIP tr ds (k a)) \<Longrightarrow> safe parseIP tr ds (CAddUser key k)"
| safe_Defer: "safe parseIP tr (d # ds) p \<Longrightarrow> safe parseIP tr ds (CDefer d p)"
| safe_Relay: "\<exists>k. DDeleteUser k (rl_ctx r) \<in> set ds \<Longrightarrow> \<exists>a lip la lp. ADial a lip (DialOk la lp) \<in> set tr \<Longrightarrow>
    safe parseIP tr ds (CRelay r)"

inductive_cases safe_elims: "safe parseIP tr ds (CConn f)" "safe parseIP tr ds (CValid u p lip peer k)"
  "safe parseIP tr ds (CValidShadowSocks ip k)" "safe parseIP tr ds (CTarget s k)" "safe parseIP tr ds (CAddIp ip k)"
  "safe parseIP tr ds (CBlack d k)" "safe parseIP tr ds (CSendBlack u ip black ty acc exitIp p)"
  "safe parseIP tr ds (CAlarm ip p)" "safe parseIP tr ds (CStore d p)" "safe parseIP tr ds (CDial address lip k)"
  "safe parseIP tr ds (CRecordFail s p)" "safe parseIP tr ds (CTargetWrite buf k)"
  "safe parseIP tr ds (CAddUser key k)" "safe parseIP tr ds (CDefer d p)" "safe parseIP tr ds (CRelay r)"

lemma safe_say [simp, intro]: "safe parseIP tr ds (say msg)" "safe parseIP tr ds (reply r)" "safe parseIP tr ds ss_discard"
  by (auto simp: say_def reply_def ss_discard_def intro!: safe.intros)

lemma safe_serve:
  "safe parseIP (tr @ [ADial a lip (DialOk la lp)]) ds (http_serve u pw ip addr dm mth)"
  "safe parseIP (tr @ [ADial a lip (DialOk la lp)]) ds (socks_serve u pw ip addr dm)"
  "safe parseIP (tr @ [ADial a lip (DialOk la lp)]) ds (ss_serve ip addr dm)"
  by (auto simp: serve_defs Let_def ex_disj_distrib intro!: safe.intros)

lemma authenticated_append [simp]: "authenticated tr ips \<Longrightarrow> authenticated (tr @ xs) ips"
  by (auto simp: authenticated_def)

lemma authorisedI:
  assumes "authenticated tr ips" and "ATarget (ips @ ''-'' @ tgt) False \<in> set tr" and "AAddIp ips True \<in> set tr"
    and "lip = parseIP ips \<or> lip = (case To4 (parseIP ips) of Some q \<Rightarrow> q | None \<Rightarrow> [])"
    and "regexpDomain address = '''' \<or> (\<exists>b. ABlack (regexpDomain address) (b, False) \<in> set tr)"
  shows "authorised parseIP tr address lip"
  using assms unfolding authorised_def by blast

lemma safe_http_dial:
  assumes "authorised parseIP tr addr ip"
  shows "safe parseIP tr ds (http_dial req u pw ips ip tgt addr dm)"
  unfolding http_dial_def Let_def using assms
  by (auto intro!: safe.intros safe_serve split: dial_result.splits option.splits prod.splits)

lemma safe_socks_dial:
  assumes "authorised parseIP tr addr (parseIP ips)"
  shows "safe parseIP tr ds (socks_dial parseIP u pw ips tgt addr dm)"
  unfolding socks_dial_def Let_def using assms
  by (auto intro!: safe.intros safe_serve split: dial_result.splits option.splits prod.splits)

lemma safe_ss_dial:
  assumes "authorised parseIP tr addr (case To4 (parseIP ips) of Some q \<Rightarrow> q | None \<Rightarrow> [])"
  shows "safe parseIP tr ds (ss_dial parseIP ips tgt addr dm)"
  unfolding ss_dial_def Let_def using assms
  by (auto intro!: safe.intros safe_serve split: dial_result.splits)

lemma safe_http_admit:
  assumes "authenticated tr ips"
  shows "safe parseIP tr ds (http_admit parseIP req u pw ips)"
  unfolding http_admit_def Let_def using assms
  by (auto intro!: safe.intros safe_http_dial authorisedI [of _ ips "rq_Host req"] simp: ex_disj_distrib split: prod.splits)

lemma safe_socks_request:
  assumes "authenticated tr ips" and "AAddIp ips True \<in> set tr"
  shows "safe parseIP tr ds (socks_request parseIP u pw ips a)"
  unfolding socks_request_def Let_def using assms
  by (auto intro!: safe.intros safe_socks_dial authorisedI [of _ ips "AddrSpec_String a"] simp: ex_disj_distrib split: prod.splits)

lemma safe_ss_request:
  assumes "authenticated tr ips"
  shows "safe parseIP tr ds (ss_request parseIP ips tgt)"
  unfolding ss_request_def Let_def using assms
  by (auto intro!: safe.intros safe_ss_dial authorisedI [of _ ips tgt] simp: ex_disj_distrib split: prod.splits)

lemma safe_httpTcpConn: "safe parseIP tr ds (httpTcpConn parseIP lip peer req)"
  unfolding httpTcpConn_def Let_def
  by (auto intro!: safe.intros safe_http_admit simp: authenticated_def ex_disj_distrib all_conj_distrib split: option.splits sum.splits)

lemma safe_socksTcpConn: "safe parseIP tr ds (socksTcpConn parseIP lip peer)"
  unfolding socksTcpConn_def Let_def
  by (auto intro!: safe.intros safe_socks_request simp: authenticated_def ex_disj_distrib all_conj_distrib split: option.splits sum.splits prod.splits)

lemma safe_handlers: "p \<in> handlers parseIP readRequest pickCipher readAddr \<Longrightarrow> safe parseIP tr ds p"
  unfolding handlers_def handlerTcpConn_def handleShadowSocks_def runShadowSocks_def
  by (auto intro!: safe.intros safe_httpTcpConn safe_socksTcpConn safe_ss_request simp: authenticated_def ex_disj_distrib all_conj_distrib
      split: option.splits sum.splits prod.splits)

lemma authorised_append: "authorised parseIP tr a lip \<Longrightarrow> authorised parseIP (tr @ xs) a lip"
  unfolding authorised_def by auto (metis authenticated_append)+

definition thread_safe :: "(string \<Rightarrow> ip) \<Rightarrow> thread \<Rightarrow> bool" where
  "thread_safe parseIP th \<longleftrightarrow> safe parseIP (th_trace th) (th_defer th) (th_proc th) \<and>
     (\<forall>a lip r. ADial a lip r \<in> set (th_trace th) \<longrightarrow> authorised parseIP (th_trace th) a lip)"

lemma thread_safe_goto:
  assumes "thread_safe parseIP th" and "safe parseIP (th_trace th @ [a]) (th_defer th) p"
    and "\<And>ad lip r. a = ADial ad lip r \<Longrightarrow> authorised parseIP (th_trace th) ad lip"
  shows "thread_safe parseIP (goto a p th)"
proof -
  have "authorised parseIP (th_trace th @ [a]) ad lip" if "ADial ad lip r \<in> set (th_trace th @ [a])" for ad lip r
  proof (rule authorised_append)
    have "ADial ad lip r \<in> set (th_trace th) \<or> a = ADial ad lip r" using that by auto
    then show "authorised parseIP (th_trace th) ad lip" using assms(1,3) unfolding thread_safe_def by blast
  qed
  with assms(2) show ?thesis by (simp add: thread_safe_def goto_def)
qed

lemma thread_safe_same:
  assumes "thread_safe parseIP th" and "safe parseIP (th_trace th) (th_defer th') (th_proc th')"
    and "th_trace th' = th_trace th"
  shows "thread_safe parseIP th'"
  using assms by (simp add: thread_safe_def)

lemma relay_step_safe:
  assumes "relay_step P e r m th = Some (m', th')" and "th_proc th = CRelay r" and "thread_safe parseIP th"
  shows "thread_safe parseIP th'"
proof (cases e)
  case Tick
  with assms show ?thesis
    by (auto intro!: thread_safe_goto safe.intros split: if_splits prod.splits)
next
  case (Sniff buf)
  have "safe parseIP (th_trace th) (th_defer th) (CRelay (r\<lparr>rl_sniff := False\<rparr>))"
    using assms(2,3) by (auto simp: thread_safe_def elim!: safe_elims intro!: safe.intros)
  with Sniff assms show ?thesis
    by (auto intro!: thread_safe_same [OF assms(3)] split: if_splits outcome.splits)
qed (use assms in \<open>auto intro!: thread_safe_same [OF assms(3)] safe.intros split: if_splits\<close>)

lemma exec_safe:
  assumes "exec P i (th_proc th) m th = Some (m', th')" and "thread_safe parseIP th"
  shows "thread_safe parseIP th'"
proof -
  have s: "safe parseIP (th_trace th) (th_defer th) (th_proc th)" using assms(2) by (simp add: thread_safe_def)
  show ?thesis
  proof (cases "th_proc th")
    case (CRelay r)
    with assms show ?thesis using relay_step_safe by simp
  next
    case (CConn f)
    obtain p c where f: "f (th_conn th) = (p, c)" by fastforce
    have "safe parseIP (th_trace th) (th_defer th) (fst (f (th_conn th)))"
      using s CConn by (auto elim!: safe_elims)
    with f CConn assms(1) show ?thesis by (auto intro!: thread_safe_same [OF assms(2)])
  next
    case CReturn
    with assms(1) show ?thesis
      by (auto intro!: thread_safe_same [OF assms(2)] safe.intros split: list.splits)
  qed (use assms(1) s in \<open>auto intro!: thread_safe_same [OF assms(2)] thread_safe_goto [OF assms(2)]
        simp: Let_def split: prod.splits if_splits elim!: safe_elims\<close>)
qed

lemma server_safe:
  assumes "(sys_step P H ^^ n) (m0, []) (m, ths)" and "\<And>p. p \<in> H \<Longrightarrow> safe parseIP [] [] p" and "th \<in> set ths"
  shows "thread_safe parseIP th"
  using assms(1,3)
proof (induction n arbitrary: m ths th)
  case (Suc n)
  from Suc.prems(1) obtain m1 ths1 where s: "(sys_step P H ^^ n) (m0, []) (m1, ths1)"
    "sys_step P H (m1, ths1) (m, ths)" by auto
  note ih = Suc.IH [OF s(1)]
  from s(2) show ?case
  proof (cases rule: sys_step.cases)
    case (run j i th')
    then have "thread_safe parseIP th'" using exec_safe ih [of "ths1 ! j"] by auto
    with run(1) Suc.prems(2) ih set_update_subset_insert [of ths1 j th'] show ?thesis by blast
  next
    case (accept p c)
    then have "thread_safe parseIP (new_thread p c)" using assms(2) by (simp add: thread_safe_def new_thread_def)
    with accept Suc.prems(2) ih show ?thesis by auto
  qed (use Suc.prems(2) ih in auto)
qed simp

subsection \<open>Handlers end\<close>

text \<open>What is left of a handler after one call.\<close>

inductive continues :: "proc \<Rightarrow> proc \<Rightarrow> bool" where
  "continues (fst (f c)) (CConn f)"
| "continues (k r) (CValid u p lip peer k)"
| "continues (k r) (CValidShadowSocks ip k)"
| "continues (k b) (CTarget s k)"
| "continues (k a) (CAddIp ip k)"
| "continues (k r) (CBlack d k)"
| "continues q (CSendBlack u ip black ty acc exitIp q)"
| "continues q (CAlarm ip q)"
| "continues q (CStore d q)"
| "continues (k dr) (CDial address lip k)"
| "continues q (CRecordFail s q)"
| "continues (k b) (CTargetWrite buf k)"
| "continues (k x) (CAddUser key k)"
| "continues q (CDefer dd q)"

inductive_cases continues_elims: "continues q CReturn" "continues q (CConn f)" "continues q (CValid u p lip peer k)"
  "continues q (CValidShadowSocks ip k)" "continues q (CTarget s k)" "continues q (CAddIp ip k)" "continues q (CBlack d k)"
  "continues q (CSendBlack u ip black ty acc exitIp p)" "continues q (CAlarm ip p)" "continues q (CStore d p)"
  "continues q (CDial address lip k)" "continues q (CRecordFail s p)" "continues q (CTargetWrite buf k)"
  "continues q (CAddUser key k)" "continues q (CDefer dd p)" "continues q (CRelay r)"

lemma continues_accp: "Wellfounded.accp continues p"
proof (induction p)
  case (CConn f)
  show ?case
  proof (rule accpI)
    fix q assume "continues q (CConn f)"
    then obtain c where "q = fst (f c)" by (auto elim: continues_elims)
    then show "Wellfounded.accp continues q" using CConn [of "f c" q] by (cases "f c") (metis fst_conv fsts.intros rangeI)
  qed
qed (rule accpI, (erule continues_elims; simp))+

lemma continues_wf: "wfP continues"
  by (rule accp_wfpI) (simp add: continues_accp)

definition handler_order :: "(thread \<times> thread) set" where
  "handler_order = inv_image ({(p, q). continues p q} <*lex*> less_than) (\<lambda>th. (th_proc th, length (th_defer th)))"

lemma handler_order_wf: "wf handler_order"
  using continues_wf unfolding handler_order_def wfp_def by (intro wf_inv_image wf_lex_prod) simp_all

definition in_loop :: "thread \<Rightarrow> bool" where
  "in_loop th \<longleftrightarrow> (\<exists>r. th_proc th = CRelay r)"

lemma exec_decreases:
  assumes "exec P i (th_proc th) m th = Some (m', th')" and "\<not> in_loop th"
  shows "(th', th) \<in> handler_order"
proof (cases "th_proc th")
  case (CConn f)
  then show ?thesis using assms continues.intros(1) [of f "th_conn th"]
    by (auto simp: handler_order_def split: prod.splits)
qed (use assms in \<open>auto simp: handler_order_def in_loop_def goto_def Let_def continues.intros
    split: prod.splits list.splits\<close>)

lemma exec_progress:
  assumes "\<not> finished th" and "\<not> in_loop th"
  shows "\<exists>m' th'. exec P i (th_proc th) m th = Some (m', th')"
  using assms by (cases "th_proc th") (auto simp: finished_def in_loop_def Let_def split: prod.splits list.splits)

text \<open>A step of one handler, whatever the outside answers.\<close>

definition handler_step :: "('m, 'u, 'c, 'b, 'a) srv_ops \<Rightarrow> ('m, 'u, 'c, 'b, 'a) manager \<times> thread \<Rightarrow>
    ('m, 'u, 'c, 'b, 'a) manager \<times> thread \<Rightarrow> bool" where
  "handler_step P s s' \<longleftrightarrow> (\<exists>i. exec P i (th_proc (snd s)) (fst s) (snd s) = Some s')"

lemma drain_deferred:
  assumes "th_proc th = CReturn"
  shows "\<exists>m' th'. (handler_step P ^^ length (th_defer th)) (m, th) (m', th') \<and> finished th'"
  using assms
proof (induction "th_defer th" arbitrary: th m)
  case Nil
  then have "(handler_step P ^^ length (th_defer th)) (m, th) (m, th) \<and> finished th"
    by (simp add: finished_def flip: Nil.hyps)
  then show ?case by blast
next
  case (Cons d ds)
  let ?m = "run_deferred P (th_domain th) d m" and ?th = "th\<lparr>th_defer := ds\<rparr>"
  have "handler_step P (m, th) (?m, ?th)" using Cons.prems Cons.hyps(2) [symmetric] by (simp add: handler_step_def)
  moreover from Cons.hyps(1) [of ?th ?m] Cons.prems obtain m' th' where
    "(handler_step P ^^ length ds) (?m, ?th) (m', th')" "finished th'" by auto
  ultimately have "(handler_step P ^^ Suc (length ds)) (m, th) (m', th')" by (metis relpowp_Suc_I2)
  with \<open>finished th'\<close> show ?case by (metis Cons.hyps(2) length_Cons)
qed

subsection \<open>A run on a concrete server\<close>

text \<open>One handler alone, for a list of inputs.\<close>

fun run_inputs :: "('m, 'u, 'c, 'b, 'a) srv_ops \<Rightarrow> input list \<Rightarrow> ('m, 'u, 'c, 'b, 'a) manager \<Rightarrow> thread \<Rightarrow>
    (('m, 'u, 'c, 'b, 'a) manager \<times> thread) option" where
  "run_inputs P [] m th = Some (m, th)"
| "run_inputs P (i # is) m th = (if m_crashed m then None else
     case exec P i (th_proc th) m th of None \<Rightarrow> None | Some (m', th') \<Rightarrow> run_inputs P is m' th')"

lemma run_inputs_sys:
  "run_inputs P is m th = Some (m', th') \<Longrightarrow> (sys_step P H ^^ length is) (m, [th]) (m', [th'])"
proof (induction "is" arbitrary: m th)
  case (Cons i "is")
  then obtain m1 th1 where e: "\<not> m_crashed m" "exec P i (th_proc th) m th = Some (m1, th1)"
    "run_inputs P is m1 th1 = Some (m', th')" by (auto split: if_splits option.splits)
  from sys_step.run [of m 0 "[th]" P i m1 th1 H] e(1,2) have "sys_step P H (m, [th]) (m1, [th1])" by simp
  from relpowp_Suc_I2 [of "sys_step P H", OF this Cons.IH [OF e(3)]] show ?case by simp
qed simp

definition demo_ops :: "((string, addr) cmap, (string, addr) cmap, stats_addr ttl_map, int ttl_map, unit) srv_ops" where
  "demo_ops = \<lparr>o_ip = sharded_ops, o_user = sharded_ops, o_cache = map_ops dialFailCacheTTL True,
     o_black = map_ops blacklistTTL False, o_valid = (\<lambda>_ _ _ ip _ a. (Inr ip, a)),
     o_validss = (\<lambda>_ _ a. (Inr ''key'', a)), o_cb = big_endian_readers, o_http_host = (\<lambda>_. None)\<rparr>"

definition demo_manager :: "((string, addr) cmap, (string, addr) cmap, stats_addr ttl_map, int ttl_map, unit) manager" where
  "demo_manager = \<lparr>m_ip = (New_cmap, heap0), m_user = (New_cmap, ctx_heap0), m_conf = default_nacos,
     m_blackMap = None, m_tracker = NewDialFailTracker Map.empty Map.empty, m_auth = (), m_reports = [],
     m_accesses = [], m_alarms = [], m_stop = False, m_crashed = False\<rparr>"

definition demo_input :: input where
  "demo_input = \<lparr>i_now = 0, i_flag = True, i_dial = DialOk [1, 2, 3, 4] 5000, i_env = (\<lambda>_ s. s), i_event = UserDone\<rparr>"

definition demo_proc :: proc where
  "demo_proc = handleShadowSocks (\<lambda>_. [1, 2, 3, 4]) (\<lambda>_. True) (\<lambda>_ c. (Inr ''8.8.8.8:80'', c)) ''1.2.3.4''"

definition demo_conn :: conn where
  "demo_conn = \<lparr>in_bytes = [], in_err = NetEOF, out_msgs = [], w_errs = (\<lambda>_. None)\<rparr>"

abbreviation "demo_handlers \<equiv> handlers (\<lambda>_. [1, 2, 3, 4]) (\<lambda>_. None) (\<lambda>_. True) (\<lambda>_ c. (Inr ''8.8.8.8:80'', c))"

definition demo_relay :: relay where
  "demo_relay = \<lparr>rl_ctx = 0, rl_sniff = True, rl_name = ''1.2.3.4'', rl_ip = ''1.2.3.4'', rl_account = '''',
     rl_exit = ''1.2.3.4''\<rparr>"

lemma demo_fields: "o_ip demo_ops = sharded_ops" "o_user demo_ops = sharded_ops"
  "m_ip demo_manager = (New_cmap, heap0)" "m_user demo_manager = (New_cmap, ctx_heap0)"
  by (simp_all add: demo_ops_def demo_manager_def)

lemma demo_no_domain: "regexpDomain ''8.8.8.8:80'' = ''''"
  by (rule regexpDomain_no_letter) (simp add: letter_def)

lemma demo_admit: "\<exists>s. AddIpConnCount sharded_ops 10000 ''1.2.3.4'' (New_cmap, heap0) = ((True, 1), s)"
proof -
  have "fst (AddIpConnCount sharded_ops 10000 ''1.2.3.4'' (New_cmap, heap0)) = (True, 1)"
    using sharded_ip.Add_result [OF new_cmap_ok(1)
        ip_inv_empty [of cmap_Get New_cmap heap0, OF new_cmap_ok(2)], of 10000 "''1.2.3.4''"] by simp
  then show ?thesis by (metis prod.collapse)
qed

lemma demo_register:
  "\<exists>m h. addUserConnection sharded_ops default_nacos 0 ''shadowSocks:1.2.3.4'' (New_cmap, ctx_heap0) = (0, m, h) \<and>
     \<not> ctx_cancelled (ctxs h 0) \<and> cmap_Get m ''shadowSocks:1.2.3.4'' = Some 0"
  using sharded_user.register_conv [OF new_cmap_ok(1), of default_nacos 0 "''shadowSocks:1.2.3.4''" ctx_heap0]
  by (auto simp: add_user_cb_def ctx_heap0_def new_cmap_ok(2))

lemma demo_run:
  "\<exists>m th. (sys_step demo_ops demo_handlers ^^ 12) (demo_manager, []) (m, [th]) \<and> th_proc th = CRelay demo_relay \<and>
     th_defer th = [DReport ''shadowSocks'' ''8.8.8.8:80'' ''1.2.3.4'', DDeleteUser ''shadowSocks:1.2.3.4'' 0,
       DCloseTarget, DReduceIp ''1.2.3.4''] \<and>
     ADial ''8.8.8.8:80'' [1, 2, 3, 4] (DialOk [1, 2, 3, 4] 5000) \<in> set (th_trace th) \<and>
     \<not> ctx_cancelled (ctxs (snd (m_user m)) 0) \<and> cmap_Get (fst (m_user m)) ''shadowSocks:1.2.3.4'' = Some 0"
proof -
  obtain s where s: "AddIpConnCount sharded_ops 10000 ''1.2.3.4'' (New_cmap, heap0) = ((True, 1), s)"
    using demo_admit by blast
  obtain u h where u: "addUserConnection sharded_ops default_nacos 0 ''shadowSocks:1.2.3.4'' (New_cmap, ctx_heap0) = (0, u, h)"
    "\<not> ctx_cancelled (ctxs h 0)" "cmap_Get u ''shadowSocks:1.2.3.4'' = Some 0" using demo_register by blast
  let ?th = "new_thread demo_proc demo_conn"
  have acc: "sys_step demo_ops demo_handlers (demo_manager, []) (demo_manager, [?th])"
    using sys_step.accept [of demo_proc demo_handlers demo_ops demo_manager "[]" demo_conn]
    by (auto simp: handlers_def demo_proc_def)
  have "\<exists>m th. run_inputs demo_ops (replicate 11 demo_input) demo_manager ?th = Some (m, th) \<and>
     th_proc th = CRelay demo_relay \<and>
     th_defer th = [DReport ''shadowSocks'' ''8.8.8.8:80'' ''1.2.3.4'', DDeleteUser ''shadowSocks:1.2.3.4'' 0,
       DCloseTarget, DReduceIp ''1.2.3.4''] \<and>
     ADial ''8.8.8.8:80'' [1, 2, 3, 4] (DialOk [1, 2, 3, 4] 5000) \<in> set (th_trace th) \<and>
     \<not> ctx_cancelled (ctxs (snd (m_user m)) 0) \<and> cmap_Get (fst (m_user m)) ''shadowSocks:1.2.3.4'' = Some 0"
    using s u demo_no_domain
    by (simp add: numeral_eq_Suc demo_ops_def demo_manager_def demo_input_def demo_proc_def demo_conn_def demo_relay_def
        new_thread_def goto_def handleShadowSocks_def runShadowSocks_def ss_request_def ss_dial_def ss_serve_def
        To4_def default_nacos_def IsBlacklisted_def IpAndTargetIsInBlacklist_def NewDialFailTracker_def
        map_ops_def map_get_def live_def Let_def del: regexpDomain.simps)
  then obtain m th where r: "run_inputs demo_ops (replicate 11 demo_input) demo_manager ?th = Some (m, th)"
     "th_proc th = CRelay demo_relay"
     "th_defer th = [DReport ''shadowSocks'' ''8.8.8.8:80'' ''1.2.3.4'', DDeleteUser ''shadowSocks:1.2.3.4'' 0,
       DCloseTarget, DReduceIp ''1.2.3.4'']"
     "ADial ''8.8.8.8:80'' [1, 2, 3, 4] (DialOk [1, 2, 3, 4] 5000) \<in> set (th_trace th)"
     "\<not> ctx_cancelled (ctxs (snd (m_user m)) 0)" "cmap_Get (fst (m_user m)) ''shadowSocks:1.2.3.4'' = Some 0" by blast
  from relpowp_Suc_I2 [of "sys_step demo_ops demo_handlers", OF acc run_inputs_sys [OF r(1)]]
  have "(sys_step demo_ops demo_handlers ^^ 12) (demo_manager, []) (m, [th])" by simp
  with r(2-) show ?thesis by blast
qed

subsection \<open>Properties\<close>

lemma server_handlers_safe:
  assumes "(sys_step P (handlers parseIP readRequest pickCipher readAddr) ^^ n) (m0, []) (m, ths)" and "th \<in> set ths"
  shows "thread_safe parseIP th"
  by (rule server_safe [OF assms(1) _ assms(2)]) (rule safe_handlers)

lemma slots_fun: "slots h = (\<lambda>ip. h (DReduceIp ip))"
  by (simp add: slots_def fun_eq_iff)

lemma server_handlers_run:
  assumes "(sys_step P (handlers parseIP readRequest pickCipher readAddr) ^^ n) (m0, []) (m, ths)"
  shows "(ip_step (o_ip P) UNIV)\<^sup>*\<^sup>* (m_ip m0, \<lambda>_. 0) (m_ip m, slots (held ths)) \<and>
    (\<exists>k \<le> n. \<exists>regs. (user_step (o_user P) ^^ k) (m_user m0, []) (m_user m, regs) \<and> covers (held ths) regs)"
  using server_run [OF assms] balanced_handlers by blast

text \<open>
  C3. The server refines the accounting: every run of the server, with any number of handlers
  interleaved with the administration, performs on the two shared maps a run of the accounting
  steps of theory \<open>Manager\<close>, in which the handlers admitted and registered are exactly those whose
  release is deferred.
\<close>

theorem server_refines_accounting:
  assumes "(sys_step P (handlers parseIP readRequest pickCipher readAddr) ^^ n) (m0, []) (m, ths)"
  shows "(ip_step (o_ip P) UNIV)\<^sup>*\<^sup>* (m_ip m0, \<lambda>_. 0) (m_ip m, \<lambda>ip. held ths (DReduceIp ip)) \<and>
    (\<exists>k \<le> n. \<exists>regs. (user_step (o_user P) ^^ k) (m_user m0, []) (m_user m, regs) \<and>
       (\<forall>u p. count_list regs (u, p) = held ths (DDeleteUser u p)))"
  using server_handlers_run [OF assms] by (simp add: slots_fun covers_def)

theorem server_refines_accounting_witness:
  "\<exists>s. (ip_step sharded_ops UNIV)\<^sup>*\<^sup>* ((New_cmap, heap0), \<lambda>_. 0) (s, \<lambda>ip. if ip = ''1.2.3.4'' then 1 else 0)"
proof -
  obtain m th where r: "(sys_step demo_ops demo_handlers ^^ 12) (demo_manager, []) (m, [th])"
    and "th_proc th = CRelay demo_relay"
    "th_defer th = [DReport ''shadowSocks'' ''8.8.8.8:80'' ''1.2.3.4'', DDeleteUser ''shadowSocks:1.2.3.4'' 0,
       DCloseTarget, DReduceIp ''1.2.3.4'']" using demo_run by blast
  then have "(\<lambda>ip. held [th] (DReduceIp ip)) = (\<lambda>ip. if ip = ''1.2.3.4'' then 1 else 0)"
    by (auto simp: held_def pends_def fun_eq_iff)
  with server_refines_accounting [OF r] show ?thesis unfolding demo_fields by (intro exI) (rule conjunct1, simp)
qed

text \<open>
  C2. Nothing leaks: in every reachable state of the server the counter of an exit address is the
  number of handlers that hold a slot for it, and the counter of a user's context the number of
  handlers registered under it, on every path through the handlers; so once all handlers have
  finished both maps are empty.
\<close>

theorem server_no_leak:
  assumes "cmap_provider (o_ip P) ilookup iinv" and "iinv (fst (m_ip m0))" and "ilookup (fst (m_ip m0)) = Map.empty"
    and "cmap_provider (o_user P) ulookup uinv" and "uinv (fst (m_user m0))" and "ulookup (fst (m_user m0)) = Map.empty"
    and "(sys_step P (handlers parseIP readRequest pickCipher readAddr) ^^ n) (m0, []) (m, ths)" and "n < 2 ^ 64"
  shows "(\<forall>ip p. ilookup (fst (m_ip m)) ip = Some p \<longrightarrow> counts (snd (m_ip m)) p = int (held ths (DReduceIp ip))) \<and>
    (\<forall>u p. ulookup (fst (m_user m)) u = Some p \<longrightarrow>
       unat (cx_c (ctxs (snd (m_user m)) p)) = held ths (DDeleteUser u p)) \<and>
    ((\<forall>th \<in> set ths. finished th) \<longrightarrow>
       ilookup (fst (m_ip m)) = Map.empty \<and> ulookup (fst (m_user m)) = Map.empty)"
proof -
  obtain k regs where r: "(ip_step (o_ip P) UNIV)\<^sup>*\<^sup>* (m_ip m0, \<lambda>_. 0) (m_ip m, slots (held ths))" "k \<le> n"
    "(user_step (o_user P) ^^ k) (m_user m0, []) (m_user m, regs)" "covers (held ths) regs"
    using server_handlers_run [OF assms(7)] by blast
  have ip: "ip_inv ilookup (m_ip m) (slots (held ths))"
    using ip_map.run_inv [OF ip_map.intro [OF assms(1)] r(1)] assms(2,3) by simp
  have us: "user_inv ulookup (m_user m) regs" "length regs < 2 ^ 64"
    using user_map.user_run_inv [OF user_map.intro [OF assms(4)] r(3)] assms(5,6,8) r(2) by simp_all
  have a: "\<forall>ip p. ilookup (fst (m_ip m)) ip = Some p \<longrightarrow> counts (snd (m_ip m)) p = int (held ths (DReduceIp ip))"
    "\<forall>ip p. ilookup (fst (m_ip m)) ip = Some p \<longrightarrow> 0 < held ths (DReduceIp ip)"
    using ip by (auto simp: ip_inv_def slots_def split: prod.splits)
  have "unat (of_nat (count_list regs (u, p)) :: 64 word) = count_list regs (u, p)" for u p
    using count_le_length [of regs "(u, p)"] us(2) by (simp add: unat_of_nat take_bit_eq_mod)
  moreover have "count_list regs (u, p) = held ths (DDeleteUser u p)" for u p using r(4) by (simp add: covers_def)
  moreover have "0 < count_list regs x" if "x \<in> set regs" for x
    using that by (metis count_list_0_iff gr0I)
  ultimately have b: "\<forall>u p. ulookup (fst (m_user m)) u = Some p \<longrightarrow>
      unat (cx_c (ctxs (snd (m_user m)) p)) = held ths (DDeleteUser u p) \<and> 0 < held ths (DDeleteUser u p)"
    using user_inv_live [of ulookup "fst (m_user m)" "snd (m_user m)" regs] us(1) by (metis prod.collapse)
  have "held ths d = 0" if "\<forall>th \<in> set ths. finished th" for d
    using that by (auto simp: held_def pends_def finished_def)
  with a b show ?thesis by (fastforce simp: fun_eq_iff)
qed

lemma demo_providers: "cmap_provider (o_ip demo_ops) cmap_Get cmap_inv" "cmap_provider (o_user demo_ops) cmap_Get cmap_inv"
  "cmap_inv (fst (m_ip demo_manager))" "cmap_Get (fst (m_ip demo_manager)) = Map.empty"
  "cmap_inv (fst (m_user demo_manager))" "cmap_Get (fst (m_user demo_manager)) = Map.empty"
  by (simp_all add: demo_fields new_cmap_ok sharded.cmap_provider_axioms)

theorem server_no_leak_witness:
  "\<exists>m th. (sys_step demo_ops demo_handlers ^^ 12) (demo_manager, []) (m, [th]) \<and>
     cmap_Get (fst (m_user m)) ''shadowSocks:1.2.3.4'' = Some 0 \<and> unat (cx_c (ctxs (snd (m_user m)) 0)) = 1"
proof -
  obtain m th where r: "(sys_step demo_ops demo_handlers ^^ 12) (demo_manager, []) (m, [th])"
    and t: "th_proc th = CRelay demo_relay"
    "th_defer th = [DReport ''shadowSocks'' ''8.8.8.8:80'' ''1.2.3.4'', DDeleteUser ''shadowSocks:1.2.3.4'' 0,
       DCloseTarget, DReduceIp ''1.2.3.4'']" "cmap_Get (fst (m_user m)) ''shadowSocks:1.2.3.4'' = Some 0" using demo_run by blast
  have n: "(12::nat) < 2 ^ 64" by simp
  have "held [th] (DDeleteUser ''shadowSocks:1.2.3.4'' 0) = 1" using t by (simp add: held_def pends_def)
  with server_no_leak [OF demo_providers(1,3,4,2,5,6) r n] r t(3) show ?thesis by (intro exI [of _ m] exI [of _ th]) simp
qed



text \<open>
  C4. Disconnecting a user reaches exactly the user's handlers: in every reachable state a handler in
  its loop has the release of its context deferred under one key, and right after
  \<^verbatim>\<open>CloseUserConnections(k)\<close> the loop sees its context done exactly when that key is \<open>k\<close> or it was
  done before; it then returns.
\<close>

theorem close_user_ends_handlers:
  assumes "cmap_provider (o_user P) ulookup uinv" and "uinv (fst (m_user m0))" and "ulookup (fst (m_user m0)) = Map.empty"
    and "(sys_step P (handlers parseIP readRequest pickCipher readAddr) ^^ n) (m0, []) (m, ths)" and "n < 2 ^ 64"
    and "th \<in> set ths" and "th_proc th = CRelay r" and "CloseUserConnections (o_user P) k (m_user m) = (b, s)"
  shows "\<exists>k'. DDeleteUser k' (rl_ctx r) \<in> set (th_defer th) \<and>
    relay_step P UserDone r (m\<lparr>m_user := s\<rparr>) th =
      (if k' = k \<or> ctx_cancelled (ctxs (snd (m_user m)) (rl_ctx r))
       then Some (m\<lparr>m_user := s\<rparr>, th\<lparr>th_proc := CReturn\<rparr>) else None)"
proof -
  obtain j regs where r: "j \<le> n" "(user_step (o_user P) ^^ j) (m_user m0, []) (m_user m, regs)" "covers (held ths) regs"
    using server_handlers_run [OF assms(4)] by blast
  note U = user_map.intro [OF assms(1)]
  have us: "uinv (fst (m_user m))" "user_inv ulookup (fst (m_user m), snd (m_user m)) regs"
    using user_map.user_run_inv [OF U r(2)] assms(2,3,5) r(1) by simp_all
  obtain k' where k': "DDeleteUser k' (rl_ctx r) \<in> set (th_defer th)"
    using server_handlers_safe [OF assms(4,6)] assms(7) by (auto simp: thread_safe_def elim: safe_elims)
  then have "0 < count_list (pends th) (DDeleteUser k' (rl_ctx r))"
    by (metis Un_iff count_list_0_iff gr0I pends_def set_append)
  moreover obtain i where "i < length ths" "th = ths ! i" using assms(6) by (metis in_set_conv_nth)
  ultimately have "0 < count_list regs (k', rl_ctx r)"
    using held_ge [of i ths "DDeleteUser k' (rl_ctx r)"] r(3) by (auto simp: covers_def)
  then have "(k', rl_ctx r) \<in> set regs" by (rule count_list_pos)
  moreover have "CloseUserConnections (o_user P) k (fst (m_user m), snd (m_user m)) = (b, fst s, snd s)"
    using assms(8) by simp
  ultimately have "ctx_cancelled (ctxs (snd s) (rl_ctx r)) \<longleftrightarrow> k' = k \<or> ctx_cancelled (ctxs (snd (m_user m)) (rl_ctx r))"
    using user_map.close_cancels [OF U us] by blast
  with k' show ?thesis by (intro exI [of _ k']) simp
qed

theorem close_user_ends_handlers_witness:
  "\<exists>m th s. (sys_step demo_ops demo_handlers ^^ 12) (demo_manager, []) (m, [th]) \<and>
     relay_step demo_ops UserDone demo_relay m th = None \<and>
     relay_step demo_ops UserDone demo_relay (m\<lparr>m_user := s\<rparr>) th = Some (m\<lparr>m_user := s\<rparr>, th\<lparr>th_proc := CReturn\<rparr>)"
proof -
  obtain m th where r: "(sys_step demo_ops demo_handlers ^^ 12) (demo_manager, []) (m, [th])"
    and t: "th_proc th = CRelay demo_relay"
    "th_defer th = [DReport ''shadowSocks'' ''8.8.8.8:80'' ''1.2.3.4'', DDeleteUser ''shadowSocks:1.2.3.4'' 0,
       DCloseTarget, DReduceIp ''1.2.3.4'']" "\<not> ctx_cancelled (ctxs (snd (m_user m)) 0)" using demo_run by blast
  obtain b s where c: "CloseUserConnections (o_user demo_ops) ''shadowSocks:1.2.3.4'' (m_user m) = (b, s)" by (metis surj_pair)
  have n: "(12::nat) < 2 ^ 64" and th: "th \<in> set [th]" by simp_all
  from close_user_ends_handlers [OF demo_providers(2,5,6) r n th t(1) c] t(2)
  have "relay_step demo_ops UserDone demo_relay (m\<lparr>m_user := s\<rparr>) th = Some (m\<lparr>m_user := s\<rparr>, th\<lparr>th_proc := CReturn\<rparr>)"
    by (auto split: if_splits)
  moreover have "relay_step demo_ops UserDone demo_relay m th = None" using t(3) by (simp add: demo_relay_def)
  ultimately show ?thesis using r by (intro exI [of _ m] exI [of _ th] exI [of _ s]) simp
qed


end
