(* ===== verification/RabbitPool.thy ===== *)
theory RabbitPool
  imports Product "HOL-Library.Signed_Division"
begin

text \<open>
  \<^verbatim>\<open>utils/rabbitMQ/rabbitMQPool.go\<close> (the pool and the sending side), \<^verbatim>\<open>rabbitLoadBalance.go\<close> and
  \<^verbatim>\<open>common/rabbitmq.go\<close>: a pool of RabbitMQ connections used in turn, a cache of channels under a
  CRC-32 key, and \<^verbatim>\<open>Push\<close>, which reconnects and sends again when sending fails.

  The AMQP client is not part of the program. The model records every call to it, in order, in the
  field \<open>calls\<close> of the pool, and a \<open>broker\<close> gives the answer to a call from the calls before it
  (\<open>None\<close> for a nil error), so a statement for every broker covers every way the client may behave.
  A connection or a channel is named by the number of the call that opened it.
\<close>

unbundle bit_operations_syntax

subsection \<open>Calls of the AMQP client\<close>

datatype arg = AInt int | AStr string
datatype header = HInt32 "32 word" | HOther

record publishing =
  ContentType :: string
  Body :: bytes
  Expiration :: string
  Headers :: "(string \<times> header) list"
  MsgId :: string

datatype amqp_call =
    Dial string
  | OpenChannel nat
  | ExchangeDeclare nat string string
  | QueueDeclare nat string "(string \<times> arg) list"
  | QueueBind nat string string string
  | Qos nat
  | Consume nat string
  | Publish nat string string publishing
  | AckDelivery nat
  | CloseChannel nat
  | CloseConn nat

record broker =
  answer :: "amqp_call list \<Rightarrow> amqp_call \<Rightarrow> string option"
  is_closed :: "amqp_call list \<Rightarrow> nat \<Rightarrow> bool"
  queue_name :: "amqp_call list \<Rightarrow> string \<Rightarrow> string"

subsection \<open>Constants and error messages\<close>

definition DEFAULT_MAX_CONNECTION :: "32 word" where "DEFAULT_MAX_CONNECTION = 5"
definition DEFAULT_MAX_CONSUME_CHANNEL :: "32 word" where "DEFAULT_MAX_CONSUME_CHANNEL = 5"
definition DEFAULT_MAX_CONSUME_RETRY :: "32 word" where "DEFAULT_MAX_CONSUME_RETRY = 10"
definition DEFAULT_PUSH_MAX_TIME :: int where "DEFAULT_PUSH_MAX_TIME = 99"
definition DEFAULT_MAX_PRODUCT_RETRY :: "32 word" where "DEFAULT_MAX_PRODUCT_RETRY = 10"
definition LOAD_BALANCE_ROUND :: int where "LOAD_BALANCE_ROUND = 1"
definition RABBITMQ_TYPE_PUBLISH :: int where "RABBITMQ_TYPE_PUBLISH = 1"
definition RABBITMQ_TYPE_CONSUME :: int where "RABBITMQ_TYPE_CONSUME = 2"
definition DEFAULT_RETRY_MIN_RANDOM_TIME :: "64 word" where "DEFAULT_RETRY_MIN_RANDOM_TIME = 5000"
definition DEFAULT_RETRY_MAX_RADNOM_TIME :: "64 word" where "DEFAULT_RETRY_MAX_RADNOM_TIME = 15000"
definition EXCHANGE_TYPE_FANOUT :: string where "EXCHANGE_TYPE_FANOUT = ''fanout''"
definition EXCHANGE_TYPE_DIRECT :: string where "EXCHANGE_TYPE_DIRECT = ''direct''"
definition EXCHANGE_TYPE_TOPIC :: string where "EXCHANGE_TYPE_TOPIC = ''topic''"
definition RCODE_PUSH_MAX_ERROR :: int where "RCODE_PUSH_MAX_ERROR = 501"
definition RCODE_GET_CHANNEL_ERROR :: int where "RCODE_GET_CHANNEL_ERROR = 502"
definition RCODE_CHANNEL_QUEUE_EXCHANGE_BIND_ERROR :: int where "RCODE_CHANNEL_QUEUE_EXCHANGE_BIND_ERROR = 503"
definition RCODE_CONNECTION_ERROR :: int where "RCODE_CONNECTION_ERROR = 504"
definition RCODE_CHANNEL_CREATE_ERROR :: int where "RCODE_CHANNEL_CREATE_ERROR = 506"
definition RCODE_RETRY_MAX_ERROR :: int where "RCODE_RETRY_MAX_ERROR = 507"

lemmas pool_consts = DEFAULT_MAX_CONNECTION_def DEFAULT_MAX_CONSUME_CHANNEL_def
  DEFAULT_MAX_CONSUME_RETRY_def DEFAULT_PUSH_MAX_TIME_def DEFAULT_MAX_PRODUCT_RETRY_def
  LOAD_BALANCE_ROUND_def RABBITMQ_TYPE_PUBLISH_def RABBITMQ_TYPE_CONSUME_def
  DEFAULT_RETRY_MIN_RANDOM_TIME_def DEFAULT_RETRY_MAX_RADNOM_TIME_def EXCHANGE_TYPE_FANOUT_def
  EXCHANGE_TYPE_DIRECT_def EXCHANGE_TYPE_TOPIC_def RCODE_PUSH_MAX_ERROR_def
  RCODE_GET_CHANNEL_ERROR_def RCODE_CHANNEL_QUEUE_EXCHANGE_BIND_ERROR_def RCODE_CONNECTION_ERROR_def
  RCODE_CHANNEL_CREATE_ERROR_def RCODE_RETRY_MAX_ERROR_def

text \<open>The Chinese messages, as the UTF-8 bytes of the source.\<close>

definition msg_push_max :: string where
  "msg_push_max = string_of [233, 135, 141, 232, 175, 149, 232, 182, 133, 232, 191, 135, 230, 156, 128, 229, 164, 167, 230, 172, 161, 230, 149, 176]"

definition msg_get_channel :: string where
  "msg_get_channel = string_of [232, 142, 183, 229, 143, 150, 228, 191, 161, 233, 129, 147, 229, 164, 177, 232, 180, 165]"

definition msg_exchange_type :: string where
  "msg_exchange_type = string_of [228, 186, 164, 230, 141, 162, 230, 156, 186, 231, 177, 187, 229, 158, 139, 233, 148, 153, 232, 175, 175]"

definition msg_exchange :: string where
  "msg_exchange = string_of [77, 81, 230, 179, 168, 229, 134, 140, 228, 186, 164, 230, 141, 162, 230, 156, 186, 229, 164, 177, 232, 180, 165, 58]"

definition msg_queue :: string where
  "msg_queue = string_of [77, 81, 230, 179, 168, 229, 134, 140, 233, 152, 159, 229, 136, 151, 229, 164, 177, 232, 180, 165, 58]"

definition msg_bind :: string where
  "msg_bind = string_of [77, 81, 231, 187, 145, 229, 174, 154, 233, 152, 159, 229, 136, 151, 229, 164, 177, 232, 180, 165, 58]"

definition msg_no_receive :: string where
  "msg_no_receive = string_of [230, 156, 170, 230, 179, 168, 229, 134, 140, 230, 182, 136, 232, 180, 185, 232, 128, 133, 228, 186, 139, 228, 187, 182]"

record rabbit_mq_error =
  Code :: int
  Message :: string
  Detail :: string

definition NewRabbitMqError :: "int \<Rightarrow> string \<Rightarrow> string \<Rightarrow> rabbit_mq_error" where
  "NewRabbitMqError code message detail = \<lparr>Code = code, Message = message, Detail = detail\<rparr>"

subsection \<open>Library functions\<close>

text \<open>\<^verbatim>\<open>crc32.ChecksumIEEE\<close>, one bit at a time, and \<^verbatim>\<open>strings.TrimSpace\<close> on UTF-8.\<close>

definition crc32_bit :: "32 word \<Rightarrow> 32 word" where
  "crc32_bit c = (if c AND 1 = 0 then drop_bit 1 c else drop_bit 1 c XOR 0xEDB88320)"

definition crc32_byte :: "32 word \<Rightarrow> byte \<Rightarrow> 32 word" where
  "crc32_byte c b = (crc32_bit ^^ 8) (c XOR ucast b)"

fun crc32_update :: "32 word \<Rightarrow> bytes \<Rightarrow> 32 word" where
  "crc32_update c [] = c"
| "crc32_update c (b # bs) = crc32_update (crc32_byte c b) bs"

definition ChecksumIEEE :: "bytes \<Rightarrow> 32 word" where
  "ChecksumIEEE bs = NOT (crc32_update 0xFFFFFFFF bs)"

definition unicode_spaces :: "string list" where
  "unicode_spaces = [
     [CHR 0x09], [CHR 0x0A], [CHR 0x0B], [CHR 0x0C], [CHR 0x0D], [CHR 0x20], [CHR 0xC2, CHR 0x85],
     [CHR 0xC2, CHR 0xA0], [CHR 0xE1, CHR 0x9A, CHR 0x80], [CHR 0xE2, CHR 0x80, CHR 0x80],
     [CHR 0xE2, CHR 0x80, CHR 0x81], [CHR 0xE2, CHR 0x80, CHR 0x82], [CHR 0xE2, CHR 0x80, CHR 0x83],
     [CHR 0xE2, CHR 0x80, CHR 0x84], [CHR 0xE2, CHR 0x80, CHR 0x85], [CHR 0xE2, CHR 0x80, CHR 0x86],
     [CHR 0xE2, CHR 0x80, CHR 0x87], [CHR 0xE2, CHR 0x80, CHR 0x88], [CHR 0xE2, CHR 0x80, CHR 0x89],
     [CHR 0xE2, CHR 0x80, CHR 0x8A], [CHR 0xE2, CHR 0x80, CHR 0xA8], [CHR 0xE2, CHR 0x80, CHR 0xA9],
     [CHR 0xE2, CHR 0x80, CHR 0xAF], [CHR 0xE2, CHR 0x81, CHR 0x9F], [CHR 0xE3, CHR 0x80, CHR 0x80]]"

fun trim_left :: "string list \<Rightarrow> nat \<Rightarrow> string \<Rightarrow> string" where
  "trim_left sp 0 s = s"
| "trim_left sp (Suc n) s = (case List.find (\<lambda>w. is_prefix w s) sp of
     None \<Rightarrow> s | Some w \<Rightarrow> trim_left sp n (drop (length w) s))"

definition TrimSpace :: "string \<Rightarrow> string" where
  "TrimSpace s =
     (let l = trim_left unicode_spaces (length s) s
      in rev (trim_left (map rev unicode_spaces) (length l) (rev l)))"

text \<open>Go's signed remainder on \<^verbatim>\<open>int32\<close>; the load balancer.\<close>

definition rem32 :: "32 word \<Rightarrow> 32 word \<Rightarrow> 32 word" where
  "rem32 a b = word_of_int (sint a smod sint b)"

definition RoundRobin :: "32 word \<Rightarrow> 32 word \<Rightarrow> 32 word" where
  "RoundRobin cIndex m = (if m = 0 then 0 else rem32 (cIndex + 1) m)"

definition hashCode :: "string \<Rightarrow> int" where
  "hashCode s = (let v = uint (ChecksumIEEE (bytes_of s)) in
     if 0 \<le> v then v else if 0 \<le> - v then - v else - 1)"

definition channelHashCode :: "int \<Rightarrow> 32 word \<Rightarrow> string \<Rightarrow> string \<Rightarrow> string \<Rightarrow> string \<Rightarrow> int" where
  "channelHashCode clientType connIndex exChangeName exChangeType queueName route =
     hashCode (itoa_int clientType @ ''-'' @ itoa_int (sint connIndex) @ ''-'' @ exChangeName @ ''-'' @
       exChangeType @ ''-'' @ queueName @ ''-'' @ route)"

subsection \<open>The pool\<close>

text \<open>
  \<^verbatim>\<open>*rConn\<close> is shared between the pool and the functions that use it, so the connections live in a
  heap: \<open>rconns\<close> maps an address to the object and \<open>rfresh\<close> is the next free address. \<open>fails\<close> records
  the calls of the \<^verbatim>\<open>EventFail\<close> callbacks.
\<close>

record rConn =
  conn :: "nat option"
  conn_index :: "32 word"

record rChannel =
  ch :: nat
  ch_index :: "32 word"

record rabbit_pool =
  minRandomRetryTime :: "64 word"
  maxRandomRetryTime :: "64 word"
  maxConnection :: "32 word"
  pushMaxTime :: int
  connectionIndex :: "32 word"
  connectionBalance :: int
  channelPool :: "int \<rightharpoonup> rChannel"
  connections :: "int \<rightharpoonup> nat list"
  consumeMaxChannel :: "32 word"
  consumeMaxRetry :: "32 word"
  consumeCurrentRetry :: "32 word"
  productMaxRetry :: "32 word"
  productCurrentRetry :: "32 word"
  pushCurrentRetry :: "32 word"
  clientType :: int
  connectStatus :: bool
  host :: string
  port :: int
  user :: string
  password :: string
  virtualHost :: string
  rconns :: "nat \<Rightarrow> rConn"
  rfresh :: nat
  calls :: "amqp_call list"
  fails :: "(int \<times> rabbit_mq_error \<times> bytes) list"

definition newRabbitPool :: "int \<Rightarrow> rabbit_pool" where
  "newRabbitPool ty =
     \<lparr>minRandomRetryTime = DEFAULT_RETRY_MIN_RANDOM_TIME,
      maxRandomRetryTime = DEFAULT_RETRY_MAX_RADNOM_TIME,
      maxConnection = DEFAULT_MAX_CONNECTION, pushMaxTime = DEFAULT_PUSH_MAX_TIME,
      connectionIndex = 0, connectionBalance = LOAD_BALANCE_ROUND,
      channelPool = Map.empty, connections = Map.empty,
      consumeMaxChannel = DEFAULT_MAX_CONSUME_CHANNEL, consumeMaxRetry = DEFAULT_MAX_CONSUME_RETRY,
      consumeCurrentRetry = 0, productMaxRetry = DEFAULT_MAX_PRODUCT_RETRY, productCurrentRetry = 0,
      pushCurrentRetry = 0, clientType = ty, connectStatus = False, host = '''', port = 0,
      user = '''', password = '''', virtualHost = '''',
      rconns = (\<lambda>_. \<lparr>conn = None, conn_index = 0\<rparr>), rfresh = 0, calls = [], fails = []\<rparr>"

definition NewProductPool :: rabbit_pool where
  "NewProductPool = newRabbitPool RABBITMQ_TYPE_PUBLISH"

definition NewConsumePool :: rabbit_pool where
  "NewConsumePool = newRabbitPool RABBITMQ_TYPE_CONSUME"

definition SetMaxConsumeChannel :: "32 word \<Rightarrow> rabbit_pool \<Rightarrow> rabbit_pool" where
  "SetMaxConsumeChannel n r = r\<lparr>consumeMaxChannel := n\<rparr>"

definition SetMaxConnection :: "32 word \<Rightarrow> rabbit_pool \<Rightarrow> rabbit_pool" where
  "SetMaxConnection n r = r\<lparr>maxConnection := n\<rparr>"

definition SetRandomRetryTime :: "64 word \<Rightarrow> 64 word \<Rightarrow> rabbit_pool \<Rightarrow> rabbit_pool" where
  "SetRandomRetryTime a b r = r\<lparr>minRandomRetryTime := a, maxRandomRetryTime := b\<rparr>"

definition SetConnectionBalance :: "int \<Rightarrow> rabbit_pool \<Rightarrow> rabbit_pool" where
  "SetConnectionBalance balance r = r\<lparr>connectionBalance := balance\<rparr>"

definition GetHost :: "rabbit_pool \<Rightarrow> string" where "GetHost r = host r"
definition GetPort :: "rabbit_pool \<Rightarrow> int" where "GetPort r = port r"

text \<open>The connections of a client type; a missing map entry reads as the nil slice.\<close>

definition conns_of :: "rabbit_pool \<Rightarrow> int \<Rightarrow> nat list" where
  "conns_of r ty = (case connections r ty of None \<Rightarrow> [] | Some l \<Rightarrow> l)"

text \<open>One call of the AMQP client: the broker answers, and the call is recorded.\<close>

definition amqp :: "broker \<Rightarrow> amqp_call \<Rightarrow> rabbit_pool \<Rightarrow> string option \<times> rabbit_pool" where
  "amqp b c r = (answer b (calls r) c, r\<lparr>calls := calls r @ [c]\<rparr>)"

text \<open>A call that opens something returns its name, the number of the call.\<close>

definition amqp_open :: "broker \<Rightarrow> amqp_call \<Rightarrow> rabbit_pool \<Rightarrow> (string + nat) \<times> rabbit_pool" where
  "amqp_open b c r = (case amqp b c r of
     (None, r') \<Rightarrow> (Inr (length (calls r)), r') | (Some e, r') \<Rightarrow> (Inl e, r'))"

definition connection_url :: "string \<Rightarrow> string \<Rightarrow> string \<Rightarrow> int \<Rightarrow> string \<Rightarrow> string" where
  "connection_url usr pw hst prt vHost =
     (let vh = (if 0 < length (TrimSpace vHost) then vHost else ''/'')
      in ''amqp://'' @ usr @ '':'' @ pw @ ''@'' @ hst @ '':'' @ itoa_int prt @ vh)"

definition connection ::
    "broker \<Rightarrow> string \<Rightarrow> string \<Rightarrow> string \<Rightarrow> int \<Rightarrow> string \<Rightarrow> rabbit_pool \<Rightarrow> (string + nat) \<times> rabbit_pool" where
  "connection b usr pw hst prt vHost r = amqp_open b (Dial (connection_url usr pw hst prt vHost)) r"

definition rConnect :: "broker \<Rightarrow> rabbit_pool \<Rightarrow> (string + nat) \<times> rabbit_pool" where
  "rConnect b r =
     (let vh = (if 0 < length (TrimSpace (virtualHost r)) then virtualHost r else ''/'')
      in connection b (user r) (password r) (host r) (port r) vh r)"

text \<open>\<^verbatim>\<open>initConnections\<close>: \<open>init_loop\<close> is its loop from \<open>i\<close>, which counts up in an \<^verbatim>\<open>int32\<close>.\<close>

definition add_conn :: "nat \<Rightarrow> 32 word \<Rightarrow> rabbit_pool \<Rightarrow> rabbit_pool" where
  "add_conn h i r = r\<lparr>rconns := (rconns r)(rfresh r := \<lparr>conn = Some h, conn_index = i\<rparr>),
     rfresh := Suc (rfresh r),
     connections := (connections r)(clientType r \<mapsto> conns_of r (clientType r) @ [rfresh r])\<rparr>"

function init_loop :: "broker \<Rightarrow> int \<Rightarrow> int \<Rightarrow> rabbit_pool \<Rightarrow> string option \<times> rabbit_pool" where
  "init_loop b i n r =
     (if i < n then (case rConnect b r of
        (Inl e, r') \<Rightarrow> (Some e, r')
      | (Inr h, r') \<Rightarrow> init_loop b (i + 1) n (add_conn h (word_of_int i) r'))
      else (None, r))"
  by pat_completeness auto
termination by (relation "measure (\<lambda>(b, i, n, r). nat (n - i))") auto

declare init_loop.simps [simp del]

definition initConnections :: "broker \<Rightarrow> rabbit_pool \<Rightarrow> string option \<times> rabbit_pool" where
  "initConnections b r =
     init_loop b 0 (sint (maxConnection r)) (r\<lparr>connections := (connections r)(clientType r \<mapsto> [])\<rparr>)"

definition ConnectVirtualHost ::
    "broker \<Rightarrow> string \<Rightarrow> int \<Rightarrow> string \<Rightarrow> string \<Rightarrow> string \<Rightarrow> rabbit_pool \<Rightarrow> string option \<times> rabbit_pool" where
  "ConnectVirtualHost b hst prt usr pw vHost r = initConnections b
     (r\<lparr>host := hst, port := prt, user := usr, password := pw, virtualHost := vHost\<rparr>)"

definition Connect ::
    "broker \<Rightarrow> string \<Rightarrow> int \<Rightarrow> string \<Rightarrow> string \<Rightarrow> rabbit_pool \<Rightarrow> string option \<times> rabbit_pool" where
  "Connect b hst prt usr pw r = initConnections b
     (r\<lparr>host := hst, port := prt, user := usr, password := pw, virtualHost := ''/''\<rparr>)"

text \<open>\<^verbatim>\<open>common/rabbitmq.go\<close>: the error of \<^verbatim>\<open>Connect\<close> is only logged.\<close>

definition GetRabbitMqProductPool :: "broker \<Rightarrow> string \<Rightarrow> int \<Rightarrow> string \<Rightarrow> string \<Rightarrow> rabbit_pool" where
  "GetRabbitMqProductPool b hst prt usr pw = snd (Connect b hst prt usr pw NewProductPool)"

definition GetRabbitConsumerPool :: "broker \<Rightarrow> string \<Rightarrow> int \<Rightarrow> string \<Rightarrow> string \<Rightarrow> rabbit_pool" where
  "GetRabbitConsumerPool b hst prt usr pw = snd (Connect b hst prt usr pw NewConsumePool)"

subsection \<open>Connections in turn, channels by key\<close>

text \<open>\<^verbatim>\<open>getConnection\<close>: indexing the slice of connections out of range panics.\<close>

definition getConnection :: "rabbit_pool \<Rightarrow> (nat \<times> rabbit_pool) outcome" where
  "getConnection r =
     (let changeConnectionIndex = connectionIndex r;
          currentIndex = RoundRobin changeConnectionIndex (maxConnection r);
          currentNum = currentIndex - changeConnectionIndex;
          r' = r\<lparr>connectionIndex := connectionIndex r + currentNum\<rparr>;
          l = conns_of r' (clientType r');
          i = sint (connectionIndex r')
      in if 0 \<le> i \<and> i < int (length l) then Ret (l ! nat i, r') else Panic)"

definition chan_key :: "rabbit_pool \<Rightarrow> nat \<Rightarrow> string \<Rightarrow> string \<Rightarrow> string \<Rightarrow> string \<Rightarrow> int" where
  "chan_key r a exName exType qName rt =
     channelHashCode (clientType r) (conn_index (rconns r a)) exName exType qName rt"

definition deleteChannel ::
    "nat \<Rightarrow> string \<Rightarrow> string \<Rightarrow> string \<Rightarrow> string \<Rightarrow> rabbit_pool \<Rightarrow> rabbit_pool" where
  "deleteChannel a exName exType qName rt r =
     r\<lparr>channelPool := (channelPool r)(chan_key r a exName exType qName rt := None)\<rparr>"

text \<open>\<^verbatim>\<open>rCreateChannel\<close>: opening a channel on a nil connection panics.\<close>

definition rCreateChannel :: "broker \<Rightarrow> nat \<Rightarrow> rabbit_pool \<Rightarrow> ((string + nat) \<times> rabbit_pool) outcome" where
  "rCreateChannel b a r = (case conn (rconns r a) of
     None \<Rightarrow> Panic
   | Some h \<Rightarrow> Ret (case amqp_open b (OpenChannel h) r of
       (Inl e, r') \<Rightarrow> (Inl (''Create Connect Channel Error: '' @ e), r')
     | (Inr c, r') \<Rightarrow> (Inr c, r')))"

definition initChannels :: "broker \<Rightarrow> nat \<Rightarrow> rabbit_pool \<Rightarrow> ((string + rChannel) \<times> rabbit_pool) outcome" where
  "initChannels b a r = bind_outcome (rCreateChannel b a r) (\<lambda>(x, r'). Ret (case x of
     Inl e \<Rightarrow> (Inl e, r') | Inr c \<Rightarrow> (Inr \<lparr>ch = c, ch_index = 0\<rparr>, r')))"

definition getChannelQueueReset ::
    "broker \<Rightarrow> nat \<Rightarrow> string \<Rightarrow> string \<Rightarrow> string \<Rightarrow> string \<Rightarrow> bool \<Rightarrow> rabbit_pool \<Rightarrow>
     ((string + rChannel) \<times> rabbit_pool) outcome" where
  "getChannelQueueReset b a exName exType qName rt isReset r =
     (let k = chan_key r a exName exType qName rt;
          r1 = (if isReset then deleteChannel a exName exType qName rt r else r)
      in case channelPool r1 k of
           Some c \<Rightarrow> Ret (Inr c, r1)
         | None \<Rightarrow> bind_outcome (initChannels b a r1) (\<lambda>(x, r2). Ret (case x of
             Inl e \<Rightarrow> (Inl e, r2)
           | Inr c \<Rightarrow> (Inr c, r2\<lparr>channelPool := (channelPool r2)(k \<mapsto> c)\<rparr>))))"

definition getChannelQueue ::
    "broker \<Rightarrow> nat \<Rightarrow> string \<Rightarrow> string \<Rightarrow> string \<Rightarrow> string \<Rightarrow> rabbit_pool \<Rightarrow>
     ((string + rChannel) \<times> rabbit_pool) outcome" where
  "getChannelQueue b a exName exType qName rt r = getChannelQueueReset b a exName exType qName rt False r"

subsection \<open>Sending\<close>

definition set_conn :: "nat \<Rightarrow> nat option \<Rightarrow> rabbit_pool \<Rightarrow> rabbit_pool" where
  "set_conn a h r = r\<lparr>rconns := (rconns r)(a := (rconns r a)\<lparr>conn := h\<rparr>)\<rparr>"

text \<open>
  \<^verbatim>\<open>tryConn\<close> calls itself until a dial succeeds, and may never return (\<open>None\<close>). The object \<open>a\<close> is shared
  with the inner call, whose result is dropped.
\<close>

partial_function (option) tryConn ::
    "broker \<Rightarrow> nat option \<Rightarrow> bool \<Rightarrow> rabbit_mq_data \<Rightarrow> rabbit_pool \<Rightarrow> (nat \<times> bool \<times> rabbit_pool) outcome option" where
  "tryConn b rc isRetry d r =
     (let r0 = (if isRetry then r\<lparr>productCurrentRetry := productCurrentRetry r + 1\<rparr> else r) in
      case (case rc of None \<Rightarrow> getConnection r0 | Some a \<Rightarrow> Ret (a, r0)) of
        Panic \<Rightarrow> Some Panic
      | Ret (a, r1) \<Rightarrow>
         (if (case conn (rconns r1 a) of None \<Rightarrow> True | Some h \<Rightarrow> is_closed b (calls r1) h) then
            (let r2 = deleteChannel a (ExchangeName d) (ExchangeType d) (QueueName d) (Route d) r1 in
             case connection b (user r2) (password r2) (host r2) (port r2) (virtualHost r2) r2 of
               (Inr h, r3) \<Rightarrow> Some (Ret (a, isRetry, set_conn a (Some h) r3))
             | (Inl e, r3) \<Rightarrow> Option.bind (tryConn b (Some a) True d (set_conn a None r3)) (\<lambda>x. case x of
                   Panic \<Rightarrow> Some Panic
                 | Ret (a', t, r4) \<Rightarrow> Some (Ret (a, isRetry, r4))))
          else Some (Ret (a, isRetry, r1))))"

definition push_msg :: "rabbit_mq_data \<Rightarrow> publishing" where
  "push_msg d = \<lparr>ContentType = ''application/octet-stream'', Body = Data d, Expiration = '''',
     Headers = [], MsgId = MessageId d\<rparr>"

partial_function (option) rPush ::
    "broker \<Rightarrow> rabbit_mq_data \<Rightarrow> int \<Rightarrow> rabbit_pool \<Rightarrow> (rabbit_mq_error option \<times> rabbit_pool) outcome option" where
  "rPush b d sendTime r =
     (if pushMaxTime r \<le> sendTime
      then Some (Ret (Some (NewRabbitMqError RCODE_PUSH_MAX_ERROR msg_push_max ''''), r))
      else (case getConnection r of
        Panic \<Rightarrow> Some Panic
      | Ret (a, r1) \<Rightarrow> Option.bind (tryConn b (Some a) False d r1) (\<lambda>x. case x of
          Panic \<Rightarrow> Some Panic
        | Ret (a', isTry, r2) \<Rightarrow>
           (case getChannelQueueReset b a' (ExchangeName d) (ExchangeType d) (QueueName d) (Route d) isTry r2 of
              Panic \<Rightarrow> Some Panic
            | Ret (Inl e, r3) \<Rightarrow> Some (Ret (Some (NewRabbitMqError RCODE_GET_CHANNEL_ERROR msg_get_channel e), r3))
            | Ret (Inr c, r3) \<Rightarrow>
               (case amqp b (Publish (ch c) (ExchangeName d) (QueueName d) (push_msg d)) r3 of
                  (None, r4) \<Rightarrow> Some (Ret (None, r4))
                | (Some e, r4) \<Rightarrow> rPush b d (sendTime + 1) r4)))))"

definition Push :: "broker \<Rightarrow> rabbit_mq_data \<Rightarrow> rabbit_pool \<Rightarrow> (rabbit_mq_error option \<times> rabbit_pool) outcome option" where
  "Push b d r = rPush b d 0 r"

subsection \<open>Lemmas: connections in turn\<close>

lemma RoundRobin_next:
  assumes "0 \<le> sint c" and "sint c < sint m"
  shows "sint (RoundRobin c m) = (sint c + 1) mod sint m"
proof -
  have m: "sint m < 2 ^ 31" using sint_lt [of m] by simp
  have s: "sint (c + 1) = sint c + 1" using assms by (rule sint32_Suc)
  have "(sint c + 1) mod sint m < sint m" using assms by (intro pos_mod_bound) simp
  then have "sint (word_of_int ((sint c + 1) mod sint m) :: 32 word) = (sint c + 1) mod sint m"
    using assms m by (intro sint32_of_int order.strict_trans [OF _ m]) simp_all
  then show ?thesis
    using assms by (auto simp: RoundRobin_def rem32_def s smod_mod_positive)
qed

text \<open>
  The pool is ready to be used in turn: its current client type has exactly \<open>maxConnection\<close>
  connections and the index points at one of them.
\<close>

definition pool_ok :: "rabbit_pool \<Rightarrow> bool" where
  "pool_ok r \<longleftrightarrow> 0 \<le> sint (connectionIndex r) \<and> sint (connectionIndex r) < sint (maxConnection r) \<and>
     int (length (conns_of r (clientType r))) = sint (maxConnection r)"

lemma getConnection_ok:
  assumes "pool_ok r"
  obtains i where "sint i = (sint (connectionIndex r) + 1) mod sint (maxConnection r)"
    and "getConnection r = Ret (conns_of r (clientType r) ! nat (sint i), r\<lparr>connectionIndex := i\<rparr>)"
    and "pool_ok (r\<lparr>connectionIndex := i\<rparr>)"
proof -
  let ?i = "RoundRobin (connectionIndex r) (maxConnection r)"
  have i: "sint ?i = (sint (connectionIndex r) + 1) mod sint (maxConnection r)"
    using assms by (intro RoundRobin_next) (auto simp: pool_ok_def)
  have "0 \<le> sint ?i" "sint ?i < sint (maxConnection r)"
    using assms unfolding i pool_ok_def by (auto intro!: pos_mod_sign pos_mod_bound)
  then show ?thesis
    using assms i by (intro that [of ?i]) (auto simp: getConnection_def Let_def pool_ok_def conns_of_def)
qed

fun take_connections :: "nat \<Rightarrow> rabbit_pool \<Rightarrow> (nat list \<times> rabbit_pool) outcome" where
  "take_connections 0 r = Ret ([], r)"
| "take_connections (Suc k) r = bind_outcome (getConnection r) (\<lambda>(a, r1).
     bind_outcome (take_connections k r1) (\<lambda>(l, r2). Ret (a # l, r2)))"

lemma take_connections_ok:
  assumes "pool_ok r"
  shows "\<exists>r'. pool_ok r' \<and> take_connections k r =
    Ret (map (\<lambda>j. conns_of r (clientType r) ! ((nat (sint (connectionIndex r)) + j) mod length (conns_of r (clientType r))))
      [1..<Suc k], r')"
  using assms
proof (induction k arbitrary: r)
  case (Suc k)
  let ?l = "conns_of r (clientType r)"
  let ?n = "length ?l"
  obtain i where i: "sint i = (sint (connectionIndex r) + 1) mod sint (maxConnection r)"
    "getConnection r = Ret (?l ! nat (sint i), r\<lparr>connectionIndex := i\<rparr>)" "pool_ok (r\<lparr>connectionIndex := i\<rparr>)"
    using getConnection_ok [OF Suc.prems] by blast
  have c: "conns_of (r\<lparr>connectionIndex := i\<rparr>) = conns_of r" by (simp add: conns_of_def fun_eq_iff)
  have n: "sint (maxConnection r) = int ?n" "0 \<le> sint (connectionIndex r)" "0 < ?n"
    using Suc.prems by (auto simp: pool_ok_def)
  have ni: "nat (sint i) = (nat (sint (connectionIndex r)) + 1) mod ?n"
    unfolding i(1) n(1) using n(2,3) by (simp add: nat_mod_distrib nat_add_distrib)
  obtain r' where "pool_ok r'" "take_connections k (r\<lparr>connectionIndex := i\<rparr>) =
      Ret (map (\<lambda>j. ?l ! ((nat (sint i) + j) mod ?n)) [1..<Suc k], r')"
    using Suc.IH [OF i(3)] unfolding c by auto
  moreover have "(nat (sint i) + j) mod ?n = (nat (sint (connectionIndex r)) + Suc j) mod ?n" for j
    unfolding ni by (simp add: mod_simps)
  moreover have "map f [1..<Suc (Suc k)] = f 1 # map (\<lambda>j. f (Suc j)) [1..<Suc k]" for f :: "nat \<Rightarrow> nat"
    by (simp add: upt_conv_Cons map_Suc_upt [symmetric] del: upt_Suc map_Suc_upt)
  ultimately show ?case
    by (intro exI [of _ r']) (simp add: i(2) ni del: upt_Suc)
qed simp

subsection \<open>Lemmas: sending\<close>

abbreviation pool_url :: "rabbit_pool \<Rightarrow> string" where
  "pool_url r \<equiv> connection_url (user r) (password r) (host r) (port r) (virtualHost r)"

text \<open>What the sending side leaves alone.\<close>

definition kept :: "rabbit_pool \<Rightarrow> rabbit_pool \<Rightarrow> bool" where
  "kept r r' \<longleftrightarrow> pool_url r' = pool_url r \<and> maxConnection r' = maxConnection r \<and>
     pushMaxTime r' = pushMaxTime r \<and> clientType r' = clientType r \<and> connections r' = connections r"

lemma kept_refl [simp]: "kept r r"
  by (simp add: kept_def)

lemma kept_trans: "kept r r' \<Longrightarrow> kept r' r'' \<Longrightarrow> kept r r''"
  by (simp add: kept_def)

lemma pool_ok_kept: "pool_ok r \<Longrightarrow> kept r r' \<Longrightarrow> connectionIndex r' = connectionIndex r \<Longrightarrow> pool_ok r'"
  by (simp add: pool_ok_def kept_def conns_of_def)

text \<open>A dial that is repeated long enough succeeds.\<close>

definition redials :: "broker \<Rightarrow> string \<Rightarrow> amqp_call list \<Rightarrow> bool" where
  "redials b u tr \<longleftrightarrow> (\<exists>k. answer b (tr @ replicate k (Dial u)) (Dial u) = None)"

lemma tryConn_total:
  assumes "answer b (calls r @ replicate k (Dial (pool_url r))) (Dial (pool_url r)) = None"
  shows "\<exists>r' n. tryConn b (Some a) isRetry d r = Some (Ret (a, isRetry, r')) \<and> kept r r' \<and>
    connectionIndex r' = connectionIndex r \<and> conn (rconns r' a) \<noteq> None \<and>
    calls r' = calls r @ replicate n (Dial (pool_url r)) \<and> n \<le> Suc k"
  using assms
proof (induction k arbitrary: r isRetry rule: nat.induct)
  case zero
  then show ?case
    by (subst tryConn.simps)
      (auto simp: Let_def connection_def amqp_open_def amqp_def deleteChannel_def set_conn_def kept_def
        intro: exI [of _ 0] exI [of _ "Suc 0"] split: option.splits)
next
  case (Suc k)
  let ?u = "Dial (pool_url r)"
  let ?r0 = "if isRetry then r\<lparr>productCurrentRetry := productCurrentRetry r + 1\<rparr> else r"
  let ?r2 = "deleteChannel a (ExchangeName d) (ExchangeType d) (QueueName d) (Route d) ?r0"
  let ?live = "\<exists>h. conn (rconns r a) = Some h \<and> \<not> is_closed b (calls r) h"
  show ?case
  proof (cases "?live \<or> answer b (calls r) ?u = None")
    case True
    then show ?thesis
      by (subst tryConn.simps)
        (auto simp: Let_def connection_def amqp_open_def amqp_def deleteChannel_def set_conn_def kept_def
          intro: exI [of _ 0] exI [of _ "Suc 0"] split: option.splits)
  next
    case False
    then obtain e where e: "answer b (calls r) ?u = Some e" and dead: "\<not> ?live" by auto
    let ?r4 = "set_conn a None (?r2\<lparr>calls := calls r @ [?u]\<rparr>)"
    have u: "pool_url ?r4 = pool_url r" "calls ?r4 = calls r @ [?u]" "kept r ?r4"
      "connectionIndex ?r4 = connectionIndex r"
      by (simp_all add: set_conn_def deleteChannel_def kept_def)
    have "answer b (calls ?r4 @ replicate k (Dial (pool_url ?r4))) (Dial (pool_url ?r4)) = None"
      using Suc.prems unfolding u by simp
    from Suc.IH [OF this, of True] obtain r' n where
      r': "tryConn b (Some a) True d ?r4 = Some (Ret (a, True, r'))" "kept ?r4 r'"
      "connectionIndex r' = connectionIndex r" "conn (rconns r' a) \<noteq> None"
      "calls r' = calls r @ ?u # replicate n ?u" "n \<le> Suc k"
      unfolding u by auto
    have "tryConn b (Some a) isRetry d r = Some (Ret (a, isRetry, r'))"
      using dead e r'(1)
      by (subst tryConn.simps)
        (auto simp: Let_def connection_def amqp_open_def amqp_def deleteChannel_def split: option.splits)
    moreover have "kept r r'" using u(3) r'(2) by (rule kept_trans)
    moreover have "calls r' = calls r @ replicate (Suc n) ?u" using r'(5) by simp
    ultimately show ?thesis using r' by blast
  qed
qed

text \<open>The sends in a list of calls, and those the broker accepted.\<close>

fun sent :: "amqp_call \<Rightarrow> (string \<times> string \<times> publishing) option" where
  "sent (Publish c ex key m) = Some (ex, key, m)"
| "sent _ = None"

definition attempts :: "amqp_call list \<Rightarrow> nat" where
  "attempts tr = length (filter (\<lambda>c. sent c \<noteq> None) tr)"

definition published :: "broker \<Rightarrow> amqp_call list \<Rightarrow> (string \<times> string \<times> publishing) list" where
  "published b tr = List.map_filter
     (\<lambda>i. if answer b (take i tr) (tr ! i) = None then sent (tr ! i) else None) [0..<length tr]"

lemma published_snoc:
  "published b (tr @ [c]) = published b tr @
     (if answer b tr c = None then (case sent c of None \<Rightarrow> [] | Some x \<Rightarrow> [x]) else [])"
proof -
  have "List.map_filter (\<lambda>i. if answer b (take i (tr @ [c])) ((tr @ [c]) ! i) = None then sent ((tr @ [c]) ! i) else None)
      [0..<length tr] = published b tr"
    unfolding published_def List.map_filter_def by (intro map_cong filter_cong) (auto simp: nth_append)
  then show ?thesis
    by (auto simp: published_def List.map_filter_def split: option.splits)
qed

lemma published_no_send: "\<forall>c \<in> set cs. sent c = None \<Longrightarrow> published b (tr @ cs) = published b tr"
proof (induction cs arbitrary: tr)
  case (Cons c cs)
  have "published b (tr @ c # cs) = published b ((tr @ [c]) @ cs)" by simp
  also have "\<dots> = published b (tr @ [c])" using Cons by (simp del: append_assoc)
  also have "\<dots> = published b tr" using Cons.prems by (simp add: published_snoc)
  finally show ?case .
qed simp

lemma attempts_simps [simp]: "attempts [] = 0" "attempts (tr @ cs) = attempts tr + attempts cs"
  "attempts (replicate n (Dial u)) = 0" "attempts (c # cs) = (if sent c = None then 0 else 1) + attempts cs"
  by (simp_all add: attempts_def)

lemma getChannelQueueReset_kept:
  assumes "conn (rconns r a) \<noteq> None"
  obtains x r' cs where "getChannelQueueReset b a ex ty q rt rs r = Ret (x, r')" and "kept r r'"
    and "connectionIndex r' = connectionIndex r" and "calls r' = calls r @ cs" and "\<forall>c \<in> set cs. sent c = None"
proof -
  have "\<exists>x r' cs. getChannelQueueReset b a ex ty q rt rs r = Ret (x, r') \<and> kept r r' \<and>
      connectionIndex r' = connectionIndex r \<and> calls r' = calls r @ cs \<and> (\<forall>c \<in> set cs. sent c = None)"
    using assms
    by (auto simp: getChannelQueueReset_def Let_def deleteChannel_def kept_def initChannels_def rCreateChannel_def
        amqp_open_def amqp_def split: option.splits)
  then show ?thesis using that by blast
qed

text \<open>One round of \<^verbatim>\<open>rPush\<close>: the connection, the channel, then the send or an error.\<close>

text \<open>One round of \<open>Push\<close>: no channel can be had, or a publication that ends the call or starts the
  next round.\<close>

definition push_round :: "broker \<Rightarrow> rabbit_mq_data \<Rightarrow> int \<Rightarrow> rabbit_pool \<Rightarrow> rabbit_pool \<Rightarrow> bool" where
  "push_round b d sendTime r r3 \<longleftrightarrow>
     (\<exists>e. rPush b d sendTime r = Some (Ret (Some (NewRabbitMqError RCODE_GET_CHANNEL_ERROR msg_get_channel e), r3))) \<or>
      (\<exists>c. let p = Publish c (ExchangeName d) (QueueName d) (push_msg d); r4 = r3\<lparr>calls := calls r3 @ [p]\<rparr> in
         rPush b d sendTime r =
           (if answer b (calls r3) p = None then Some (Ret (None, r4)) else rPush b d (sendTime + 1) r4))"

lemma rPush_round:
  assumes "pool_ok r" and "sendTime < pushMaxTime r" and "redials b (pool_url r) (calls r)"
  obtains r3 where "pool_ok r3" and "kept r r3" and "published b (calls r3) = published b (calls r)"
    and "attempts (calls r3) = attempts (calls r)"
    and "push_round b d sendTime r r3"
proof -
  obtain i where i: "getConnection r = Ret (conns_of r (clientType r) ! nat (sint i), r\<lparr>connectionIndex := i\<rparr>)"
    "pool_ok (r\<lparr>connectionIndex := i\<rparr>)"
    using getConnection_ok [OF assms(1)] by blast
  let ?a = "conns_of r (clientType r) ! nat (sint i)"
  let ?r1 = "r\<lparr>connectionIndex := i\<rparr>"
  obtain k where "answer b (calls ?r1 @ replicate k (Dial (pool_url ?r1))) (Dial (pool_url ?r1)) = None"
    using assms(3) by (auto simp: redials_def)
  from tryConn_total [OF this, of ?a False d] obtain r2 n where
    r2: "tryConn b (Some ?a) False d ?r1 = Some (Ret (?a, False, r2))" "kept ?r1 r2" "connectionIndex r2 = i"
    "conn (rconns r2 ?a) \<noteq> None" "calls r2 = calls r @ replicate n (Dial (pool_url r))"
    by auto
  obtain x r3 cs where r3: "getChannelQueueReset b ?a (ExchangeName d) (ExchangeType d) (QueueName d) (Route d) False r2 = Ret (x, r3)"
    "kept r2 r3" "connectionIndex r3 = i" "calls r3 = calls r2 @ cs" "\<forall>c \<in> set cs. sent c = None"
    using getChannelQueueReset_kept [OF r2(4)] r2(3) by metis
  have k13: "kept ?r1 r3" using r2(2) r3(2) by (rule kept_trans)
  then have k: "kept r r3" by (simp add: kept_def)
  have ok: "pool_ok r3" using pool_ok_kept [OF i(2) k13] r3(3) by simp
  have c: "published b (calls r3) = published b (calls r)" "attempts (calls r3) = attempts (calls r)"
    unfolding r3(4) r2(5) append_assoc using r3(5)
    by (auto intro!: published_no_send simp: attempts_def filter_empty_conv)
  have eq: "rPush b d sendTime r = (case x of
      Inl e \<Rightarrow> Some (Ret (Some (NewRabbitMqError RCODE_GET_CHANNEL_ERROR msg_get_channel e), r3))
    | Inr c \<Rightarrow> (case amqp b (Publish (ch c) (ExchangeName d) (QueueName d) (push_msg d)) r3 of
        (None, r4) \<Rightarrow> Some (Ret (None, r4)) | (Some e, r4) \<Rightarrow> rPush b d (sendTime + 1) r4))"
    using assms(2) i(1) r2(1) r3(1) by (subst rPush.simps) (simp split: sum.split)
  have "push_round b d sendTime r r3"
  proof (cases x)
    case (Inl e)
    with eq show ?thesis unfolding push_round_def by (intro disjI1 exI [of _ e]) simp
  next
    case (Inr c)
    with eq show ?thesis unfolding push_round_def
      by (intro disjI2 exI [of _ "ch c"]) (simp add: amqp_def Let_def split: option.split)
  qed
  with ok k c show ?thesis by (rule that)
qed

text \<open>
  What sending leaves behind, with at most \<open>n\<close> sends: on success the message is accepted exactly once
  and nothing else is, on an error nothing is.
\<close>

definition push_result ::
    "broker \<Rightarrow> rabbit_mq_data \<Rightarrow> nat \<Rightarrow> amqp_call list \<Rightarrow> rabbit_mq_error option \<Rightarrow> amqp_call list \<Rightarrow> bool" where
  "push_result b d n tr x tr' \<longleftrightarrow> attempts tr' \<le> attempts tr + n \<and>
     (case x of
        None \<Rightarrow> published b tr' = published b tr @ [(ExchangeName d, QueueName d, push_msg d)]
      | Some e \<Rightarrow> published b tr' = published b tr \<and>
          (Code e = RCODE_GET_CHANNEL_ERROR \<or>
           Code e = RCODE_PUSH_MAX_ERROR \<and> attempts tr' = attempts tr + n))"

lemma push_result_cong:
  "published b tr1 = published b tr \<Longrightarrow> attempts tr1 = attempts tr \<Longrightarrow>
    push_result b d n tr1 x tr' = push_result b d n tr x tr'"
  by (simp add: push_result_def split: option.splits)

lemma push_result_again:
  assumes "push_result b d n (tr @ [c]) x tr'" and "answer b tr c \<noteq> None" and "sent c \<noteq> None"
  shows "push_result b d (Suc n) tr x tr'"
  using assms by (auto simp: push_result_def published_snoc split: option.splits)

lemma push_round_retry:
  assumes "push_round b d sendTime r r3" and "pool_ok r3" and "kept r r3"
    and "published b (calls r3) = published b (calls r)" and "attempts (calls r3) = attempts (calls r)"
    and IH: "\<And>r4. pool_ok r4 \<Longrightarrow> kept r r4 \<Longrightarrow> \<exists>x r'. rPush b d (sendTime + 1) r4 = Some (Ret (x, r')) \<and>
      pool_ok r' \<and> kept r4 r' \<and> push_result b d k (calls r4) x (calls r')"
  shows "\<exists>x r'. rPush b d sendTime r = Some (Ret (x, r')) \<and> pool_ok r' \<and> kept r r' \<and>
    push_result b d (Suc k) (calls r) x (calls r')"
  using assms(1) unfolding push_round_def
proof (elim disjE exE)
  fix e assume "rPush b d sendTime r = Some (Ret (Some (NewRabbitMqError RCODE_GET_CHANNEL_ERROR msg_get_channel e), r3))"
  with assms(2-5) show ?thesis by (simp add: NewRabbitMqError_def push_result_def)
next
  fix c
  let ?p = "Publish c (ExchangeName d) (QueueName d) (push_msg d)"
  let ?r4 = "r3\<lparr>calls := calls r3 @ [?p]\<rparr>"
  assume "let p = ?p; r4 = r3\<lparr>calls := calls r3 @ [p]\<rparr> in rPush b d sendTime r =
      (if answer b (calls r3) p = None then Some (Ret (None, r4)) else rPush b d (sendTime + 1) r4)"
  then have p: "rPush b d sendTime r =
      (if answer b (calls r3) ?p = None then Some (Ret (None, ?r4)) else rPush b d (sendTime + 1) ?r4)"
    by (simp add: Let_def)
  have r4: "pool_ok ?r4" "kept r ?r4"
    using assms(2,3) by (simp_all add: pool_ok_def kept_def conns_of_def)
  show ?thesis
  proof (cases "answer b (calls r3) ?p")
    case None
    with p assms(4,5) r4 show ?thesis by (simp add: published_snoc push_result_def)
  next
    case (Some e)
    from IH [OF r4] obtain x r' where
      r': "rPush b d (sendTime + 1) ?r4 = Some (Ret (x, r'))" "pool_ok r'" "kept ?r4 r'"
      "push_result b d k (calls r3 @ [?p]) x (calls r')" by auto
    from push_result_again [OF r'(4)] Some have "push_result b d (Suc k) (calls r) x (calls r')"
      unfolding push_result_cong [OF assms(4,5)] by simp
    with p Some r'(1,2) kept_trans [OF r4(2) r'(3)] show ?thesis by auto
  qed
qed

lemma rPush_total:
  assumes "pool_ok r" and "\<And>tr. redials b (pool_url r) tr"
  shows "\<exists>x r'. rPush b d sendTime r = Some (Ret (x, r')) \<and> pool_ok r' \<and> kept r r' \<and>
    push_result b d (nat (pushMaxTime r - sendTime)) (calls r) x (calls r')"
  using assms
proof (induction "nat (pushMaxTime r - sendTime)" arbitrary: r sendTime)
  case 0
  then show ?case
    by (subst rPush.simps) (auto simp: NewRabbitMqError_def push_result_def)
next
  case (Suc k)
  then have lt: "sendTime < pushMaxTime r" by simp
  obtain r3 where r3: "pool_ok r3" "kept r r3" "published b (calls r3) = published b (calls r)"
    "attempts (calls r3) = attempts (calls r)" "push_round b d sendTime r r3"
    by (rule rPush_round [OF Suc.prems(1) lt Suc.prems(2)])
  have "\<exists>x r'. rPush b d (sendTime + 1) r4 = Some (Ret (x, r')) \<and> pool_ok r' \<and> kept r4 r' \<and>
      push_result b d k (calls r4) x (calls r')" if "pool_ok r4" "kept r r4" for r4
  proof -
    have n: "k = nat (pushMaxTime r4 - (sendTime + 1))" using Suc.hyps(2) that(2) by (simp add: kept_def)
    have "redials b (pool_url r4) tr" for tr using Suc.prems(2) that(2) by (simp add: kept_def)
    from Suc.hyps(1) [OF n that(1) this] show ?thesis unfolding n [symmetric] .
  qed
  from push_round_retry [OF r3(5,1-4) this] show ?case unfolding Suc.hyps(2) [symmetric] by blast
qed

subsection \<open>Lemmas: connecting\<close>

lemma TrimSpace_slash: "TrimSpace ''/'' = ''/''"
  by (simp add: TrimSpace_def unicode_spaces_def)

lemma rConnect_dials: "rConnect b r = amqp_open b (Dial (pool_url r)) r"
  by (simp add: rConnect_def connection_def connection_url_def Let_def TrimSpace_slash)

lemma init_loop_ok:
  assumes "\<And>k. k < nat (n - i) \<Longrightarrow> answer b (calls r @ replicate k (Dial (pool_url r))) (Dial (pool_url r)) = None"
  shows "\<exists>r'. init_loop b i n r = (None, r') \<and> calls r' = calls r @ replicate (nat (n - i)) (Dial (pool_url r)) \<and>
    conns_of r' (clientType r) = conns_of r (clientType r) @ [rfresh r..<rfresh r + nat (n - i)] \<and>
    rfresh r' = rfresh r + nat (n - i) \<and>
    rconns r' = (\<lambda>a. if rfresh r \<le> a \<and> a < rfresh r + nat (n - i)
      then \<lparr>conn = Some (length (calls r) + (a - rfresh r)), conn_index = word_of_int (i + int (a - rfresh r))\<rparr>
      else rconns r a) \<and>
    clientType r' = clientType r \<and> maxConnection r' = maxConnection r \<and> pushMaxTime r' = pushMaxTime r \<and>
    connectionIndex r' = connectionIndex r \<and> channelPool r' = channelPool r \<and> pool_url r' = pool_url r"
  using assms
proof (induction "nat (n - i)" arbitrary: i r)
  case 0
  then show ?case by (subst init_loop.simps) (auto simp: fun_eq_iff)
next
  case (Suc k)
  let ?u = "Dial (pool_url r)"
  let ?r = "add_conn (length (calls r)) (word_of_int i) (r\<lparr>calls := calls r @ [?u]\<rparr>)"
  have k: "k = nat (n - (i + 1))" and kn: "nat (n - i) = Suc k" and lt: "i < n" using Suc.hyps(2) by auto
  have u: "pool_url ?r = pool_url r" "calls ?r = calls r @ [?u]" "rfresh ?r = Suc (rfresh r)"
    "clientType ?r = clientType r" "maxConnection ?r = maxConnection r" "pushMaxTime ?r = pushMaxTime r"
    "connectionIndex ?r = connectionIndex r" "channelPool ?r = channelPool r"
    "conns_of ?r (clientType r) = conns_of r (clientType r) @ [rfresh r]"
    by (simp_all add: add_conn_def conns_of_def)
  have "answer b (calls ?r @ replicate j (Dial (pool_url ?r))) (Dial (pool_url ?r)) = None" if "j < nat (n - (i + 1))" for j
    using Suc.prems [of "Suc j"] that unfolding u k by simp
  from Suc.hyps(1) [OF k this] obtain r' where r': "init_loop b (i + 1) n ?r = (None, r')"
    "calls r' = (calls r @ [?u]) @ replicate k ?u"
    "conns_of r' (clientType r) = (conns_of r (clientType r) @ [rfresh r]) @ [Suc (rfresh r)..<Suc (rfresh r) + k]"
    "rfresh r' = Suc (rfresh r) + k"
    "rconns r' = (\<lambda>a. if Suc (rfresh r) \<le> a \<and> a < Suc (rfresh r) + k
      then \<lparr>conn = Some (length (calls r @ [?u]) + (a - Suc (rfresh r))), conn_index = word_of_int (i + 1 + int (a - Suc (rfresh r)))\<rparr>
      else rconns ?r a)"
    "clientType r' = clientType r" "maxConnection r' = maxConnection r" "pushMaxTime r' = pushMaxTime r"
    "connectionIndex r' = connectionIndex r" "channelPool r' = channelPool r" "pool_url r' = pool_url r"
    unfolding k [symmetric] u by blast
  have "init_loop b i n r = (None, r')"
    using lt r'(1) Suc.prems [of 0] by (subst init_loop.simps) (simp add: rConnect_dials amqp_open_def amqp_def)
  moreover have "rconns r' = (\<lambda>a. if rfresh r \<le> a \<and> a < rfresh r + Suc k
      then \<lparr>conn = Some (length (calls r) + (a - rfresh r)), conn_index = word_of_int (i + int (a - rfresh r))\<rparr>
      else rconns r a)"
    unfolding r'(5) by (auto simp: fun_eq_iff add_conn_def Suc_diff_le algebra_simps)
  ultimately show ?case using r' unfolding kn by (simp add: upt_conv_Cons)
qed

subsection \<open>Example runs\<close>

lemma crc32_byte_unfold: "crc32_byte c b = crc32_bit (crc32_bit (crc32_bit (crc32_bit
    (crc32_bit (crc32_bit (crc32_bit (crc32_bit (c XOR ucast b))))))))"
  by (simp add: crc32_byte_def numeral_eq_Suc)

lemmas crc32_eval = ChecksumIEEE_def crc32_byte_unfold crc32_bit_def bytes_of_def

text \<open>The check value of the CRC-32 catalogue.\<close>

lemma crc32_check: "ChecksumIEEE (bytes_of ''123456789'') = 0xCBF43926"
  by (simp add: crc32_eval)

lemma hashCode_checksum: "hashCode s = uint (ChecksumIEEE (bytes_of s))"
  by (simp add: hashCode_def)

text \<open>
  A broker that restarts when \<open>n\<close> calls have been made: the connections and channels opened before
  are dead from then on, and everything else is accepted.
\<close>

definition restarting :: "nat \<Rightarrow> broker" where
  "restarting n = \<lparr>
     answer = (\<lambda>tr c. case c of Publish h ex key m \<Rightarrow> if h < n \<and> n \<le> length tr then Some ''closed'' else None
       | OpenChannel h \<Rightarrow> if h < n \<and> n \<le> length tr then Some ''closed'' else None
       | _ \<Rightarrow> None),
     is_closed = (\<lambda>tr h. h < n \<and> n \<le> length tr), queue_name = (\<lambda>tr q. q)\<rparr>"

definition one_conn_pool :: "nat \<Rightarrow> rabbit_pool" where
  "one_conn_pool n = snd (Connect (restarting n) ''h'' 5672 ''u'' ''p'' (SetMaxConnection 1 NewProductPool))"

definition msg_to :: "string \<Rightarrow> rabbit_mq_data" where
  "msg_to q = GetRabbitMqDataFormat '''' '''' q '''' [1] ''id''"

lemma demo_keys: "channelHashCode 1 0 '''' '''' ''a'' '''' \<noteq> channelHashCode 1 0 '''' '''' ''b'' ''''"
  by (simp add: channelHashCode_def hashCode_checksum crc32_eval itoa_int_def itoa.simps)

subsection \<open>Stale channels\<close>

text \<open>
  Every connection of the pool is open, but the channel cached for the message's exchange, queue and
  route on each of them is dead.
\<close>

definition stale_queue :: "broker \<Rightarrow> rabbit_mq_data \<Rightarrow> rabbit_pool \<Rightarrow> bool" where
  "stale_queue b d r \<longleftrightarrow> pool_ok r \<and> (\<forall>a \<in> set (conns_of r (clientType r)).
     (\<exists>h. conn (rconns r a) = Some h \<and> (\<forall>tr. \<not> is_closed b (calls r @ tr) h)) \<and>
     (\<exists>c. channelPool r (chan_key r a (ExchangeName d) (ExchangeType d) (QueueName d) (Route d)) = Some c \<and>
        (\<forall>tr. answer b (calls r @ tr) (Publish (ch c) (ExchangeName d) (QueueName d) (push_msg d)) \<noteq> None)))"

lemma stale_queue_same:
  assumes "stale_queue b d r" and "pool_ok r'" and "clientType r' = clientType r" and "connections r' = connections r"
    and "rconns r' = rconns r" and "channelPool r' = channelPool r" and "calls r' = calls r @ cs"
  shows "stale_queue b d r'"
  using assms by (simp add: stale_queue_def conns_of_def chan_key_def) blast

lemma stale_push:
  assumes "stale_queue b d r"
  shows "\<exists>r'. rPush b d sendTime r = Some (Ret (Some (NewRabbitMqError RCODE_PUSH_MAX_ERROR msg_push_max ''''), r')) \<and>
    stale_queue b d r'"
  using assms
proof (induction "nat (pushMaxTime r - sendTime)" arbitrary: r sendTime)
  case 0
  then show ?case by (subst rPush.simps) auto
next
  case (Suc k)
  have ok: "pool_ok r" using Suc.prems by (simp add: stale_queue_def)
  obtain i where i: "sint i = (sint (connectionIndex r) + 1) mod sint (maxConnection r)"
    "getConnection r = Ret (conns_of r (clientType r) ! nat (sint i), r\<lparr>connectionIndex := i\<rparr>)"
    "pool_ok (r\<lparr>connectionIndex := i\<rparr>)"
    using getConnection_ok [OF ok] by blast
  let ?a = "conns_of r (clientType r) ! nat (sint i)"
  let ?r1 = "r\<lparr>connectionIndex := i\<rparr>"
  have "nat (sint i) < length (conns_of r (clientType r))"
    using i(3) by (auto simp: pool_ok_def conns_of_def)
  then have a: "?a \<in> set (conns_of r (clientType r))" by simp
  then obtain h c where h: "conn (rconns r ?a) = Some h" "\<And>tr. \<not> is_closed b (calls r @ tr) h"
    and c: "channelPool r (chan_key r ?a (ExchangeName d) (ExchangeType d) (QueueName d) (Route d)) = Some c"
    "\<And>tr. answer b (calls r @ tr) (Publish (ch c) (ExchangeName d) (QueueName d) (push_msg d)) \<noteq> None"
    using Suc.prems unfolding stale_queue_def by meson
  let ?r4 = "?r1\<lparr>calls := calls r @ [Publish (ch c) (ExchangeName d) (QueueName d) (push_msg d)]\<rparr>"
  obtain e where e: "answer b (calls r) (Publish (ch c) (ExchangeName d) (QueueName d) (push_msg d)) = Some e"
    using c(2) [of "[]"] by auto
  have t: "tryConn b (Some ?a) False d ?r1 = Some (Ret (?a, False, ?r1))"
    using h(1) h(2) [of "[]"] by (subst tryConn.simps) (simp add: Let_def)
  have g: "getChannelQueueReset b ?a (ExchangeName d) (ExchangeType d) (QueueName d) (Route d) False ?r1 = Ret (Inr c, ?r1)"
    using c(1) by (simp add: getChannelQueueReset_def chan_key_def)
  have "rPush b d sendTime r = rPush b d (sendTime + 1) ?r4"
    using Suc.hyps(2) i(2) t g e by (subst rPush.simps) (auto simp: amqp_def)
  moreover have "stale_queue b d ?r4"
    by (rule stale_queue_same [OF Suc.prems]) (use i(3) in \<open>simp_all add: pool_ok_def conns_of_def\<close>)
  ultimately show ?case using Suc.hyps(1) [of ?r4 "sendTime + 1"] Suc.hyps(2) by simp
qed

lemma RoundRobin_single: "RoundRobin 0 1 = 0"
  by (simp add: RoundRobin_def rem32_def smod_int_alt_def)

lemma stale_demo_run:
  "\<exists>r1 r2 r3. Push (restarting 5) (msg_to ''a'') (one_conn_pool 5) = Some (Ret (None, r1)) \<and>
     Push (restarting 5) (msg_to ''b'') r1 = Some (Ret (None, r2)) \<and>
     Push (restarting 5) (msg_to ''a'') r2 = Some (Ret (None, r3)) \<and> stale_queue (restarting 5) (msg_to ''b'') r3"
  using demo_keys
  by (simp add: Push_def rPush.simps tryConn.simps one_conn_pool_def Connect_def SetMaxConnection_def NewProductPool_def
     newRabbitPool_def pool_consts initConnections_def init_loop.simps rConnect_dials amqp_open_def amqp_def
     add_conn_def conns_of_def restarting_def getConnection_def RoundRobin_single Let_def
     getChannelQueueReset_def deleteChannel_def chan_key_def msg_to_def GetRabbitMqDataFormat_def
     initChannels_def rCreateChannel_def connection_def set_conn_def stale_queue_def pool_ok_def)

subsection \<open>Properties\<close>

lemma Connect_ok:
  assumes "0 < sint (maxConnection r)" and "connectionIndex r = 0"
    and "\<And>k. k < nat (sint (maxConnection r)) \<Longrightarrow>
      answer b (calls r @ replicate k (Dial (connection_url usr pw hst prt ''/'')))
        (Dial (connection_url usr pw hst prt ''/'')) = None"
  shows "\<exists>r1. Connect b hst prt usr pw r = (None, r1) \<and> pool_ok r1 \<and>
    conns_of r1 (clientType r1) = [rfresh r..<rfresh r + nat (sint (maxConnection r))] \<and>
    map (\<lambda>a. sint (conn_index (rconns r1 a))) (conns_of r1 (clientType r1)) = map int [0..<nat (sint (maxConnection r))] \<and>
    connectionIndex r1 = 0 \<and> pool_url r1 = connection_url usr pw hst prt ''/''"
proof -
  let ?r = "r\<lparr>host := hst, port := prt, user := usr, password := pw, virtualHost := ''/'',
    connections := (connections r)(clientType r \<mapsto> [])\<rparr>"
  let ?n = "nat (sint (maxConnection r))"
  have f: "pool_url ?r = connection_url usr pw hst prt ''/''" "calls ?r = calls r" "rfresh ?r = rfresh r"
    "clientType ?r = clientType r" "maxConnection ?r = maxConnection r" "rconns ?r = rconns r"
    "connectionIndex ?r = connectionIndex r" "conns_of ?r (clientType r) = []"
    by (simp_all add: conns_of_def)
  obtain r1 where r1: "init_loop b 0 (sint (maxConnection r)) ?r = (None, r1)"
    "conns_of r1 (clientType r) = [] @ [rfresh r..<rfresh r + ?n]"
    "rconns r1 = (\<lambda>a. if rfresh r \<le> a \<and> a < rfresh r + ?n
      then \<lparr>conn = Some (length (calls r) + (a - rfresh r)), conn_index = word_of_int (0 + int (a - rfresh r))\<rparr>
      else rconns r a)"
    "clientType r1 = clientType r" "maxConnection r1 = maxConnection r" "connectionIndex r1 = connectionIndex r"
    "pool_url r1 = connection_url usr pw hst prt ''/''"
    using init_loop_ok [of "sint (maxConnection r)" 0 b ?r] assms(3) unfolding f diff_0_right by blast
  have "sint (word_of_int (int j) :: 32 word) = int j" if "j < ?n" for j
    using that sint_lt [of "maxConnection r"] by (intro sint32_of_int) auto
  then have "map (\<lambda>a. sint (conn_index (rconns r1 a))) (conns_of r1 (clientType r1)) = map int [0..<?n]"
    unfolding r1(2,3,4) by (intro nth_equalityI) auto
  moreover have "pool_ok r1" using assms(1,2) r1(2,4-6) by (simp add: pool_ok_def)
  moreover have "Connect b hst prt usr pw r = (None, r1)"
    using r1(1) by (simp add: Connect_def initConnections_def)
  ultimately show ?thesis using r1 assms(2) by simp
qed

text \<open>
  The pool spreads its use evenly: after \<^verbatim>\<open>Connect\<close> to a broker that accepts the connections, any
  number of calls of \<^verbatim>\<open>getConnection\<close> succeed, and call \<open>j\<close> returns the connection with index \<open>j\<close> modulo
  the size of the pool.
\<close>

theorem connections_in_turn:
  assumes "0 < sint (maxConnection r)" and "connectionIndex r = 0"
    and "\<And>k. k < nat (sint (maxConnection r)) \<Longrightarrow>
      answer b (calls r @ replicate k (Dial (connection_url usr pw hst prt ''/'')))
        (Dial (connection_url usr pw hst prt ''/'')) = None"
  shows "\<exists>r1 l r2. Connect b hst prt usr pw r = (None, r1) \<and> take_connections k r1 = Ret (l, r2) \<and>
    map (\<lambda>a. sint (conn_index (rconns r1 a))) l = map (\<lambda>j. int j mod sint (maxConnection r)) [1..<Suc k]"
proof -
  let ?n = "nat (sint (maxConnection r))"
  obtain r1 where r1: "Connect b hst prt usr pw r = (None, r1)" "pool_ok r1"
    "conns_of r1 (clientType r1) = [rfresh r..<rfresh r + ?n]"
    "map (\<lambda>a. sint (conn_index (rconns r1 a))) (conns_of r1 (clientType r1)) = map int [0..<?n]" "connectionIndex r1 = 0"
    using Connect_ok [OF assms] by blast
  let ?l = "conns_of r1 (clientType r1)"
  have n: "length ?l = ?n" "0 < ?n" "int ?n = sint (maxConnection r)" using assms(1) r1(3) by simp_all
  obtain r2 where "take_connections k r1 = Ret (map (\<lambda>j. ?l ! ((nat (sint (connectionIndex r1)) + j) mod length ?l)) [1..<Suc k], r2)"
    using take_connections_ok [OF r1(2)] by blast
  then have t: "take_connections k r1 = Ret (map (\<lambda>j. ?l ! (j mod ?n)) [1..<Suc k], r2)"
    unfolding r1(5) n(1) by simp
  have "sint (conn_index (rconns r1 (?l ! (j mod ?n)))) = int j mod sint (maxConnection r)" for j
  proof -
    have "j mod ?n < ?n" using n(2) by simp
    then have "sint (conn_index (rconns r1 (?l ! (j mod ?n)))) = int (j mod ?n)"
      using arg_cong [OF r1(4), of "\<lambda>xs. xs ! (j mod ?n)"] n(1) by simp
    then show ?thesis by (simp only: zmod_int n(3))
  qed
  with r1(1) t show ?thesis by (simp add: comp_def del: upt_Suc)
qed

theorem connections_in_turn_witness:
  "\<exists>r1 l r2. Connect (restarting 0) ''h'' 5672 ''u'' ''p'' NewProductPool = (None, r1) \<and>
     take_connections 7 r1 = Ret (l, r2) \<and> map (\<lambda>a. sint (conn_index (rconns r1 a))) l = [1, 2, 3, 4, 0, 1, 2]"
proof -
  have "map (\<lambda>j. int j mod sint (maxConnection NewProductPool)) [1..<Suc 7] = [1, 2, 3, 4, 0, 1, 2]"
    by (simp add: NewProductPool_def newRabbitPool_def pool_consts upt_rec)
  moreover have "\<exists>r1 l r2. Connect (restarting 0) ''h'' 5672 ''u'' ''p'' NewProductPool = (None, r1) \<and>
      take_connections 7 r1 = Ret (l, r2) \<and>
      map (\<lambda>a. sint (conn_index (rconns r1 a))) l = map (\<lambda>j. int j mod sint (maxConnection NewProductPool)) [1..<Suc 7]"
    by (rule connections_in_turn) (simp_all add: NewProductPool_def newRabbitPool_def pool_consts restarting_def)
  ultimately show ?thesis by presburger
qed



text \<open>
  C34. A queue whose cached channels died is not recovered: when every connection of the pool is open but
  the channel cached for the message's queue is dead on each of them, \<^verbatim>\<open>Push\<close> sends on the dead channels
  until it gives up with error 501, and leaves the cache as it was, so every later \<^verbatim>\<open>Push\<close> to that queue
  fails as well. The witness reaches this state by a restart of the broker followed by one push to
  another queue, which renews the shared connection.
\<close>

theorem stale_channel_never_recovers:
  assumes "stale_queue b d r"
  shows "\<exists>r'. Push b d r = Some (Ret (Some (NewRabbitMqError RCODE_PUSH_MAX_ERROR msg_push_max ''''), r')) \<and>
    stale_queue b d r'"
  using stale_push [OF assms, of 0] by (simp add: Push_def)

theorem stale_channel_never_recovers_witness:
  "\<exists>r1 r2 r3 r4. Push (restarting 5) (msg_to ''a'') (one_conn_pool 5) = Some (Ret (None, r1)) \<and>
     Push (restarting 5) (msg_to ''b'') r1 = Some (Ret (None, r2)) \<and>
     Push (restarting 5) (msg_to ''a'') r2 = Some (Ret (None, r3)) \<and>
     Push (restarting 5) (msg_to ''b'') r3 =
       Some (Ret (Some (NewRabbitMqError RCODE_PUSH_MAX_ERROR msg_push_max ''''), r4))"
  using stale_demo_run stale_channel_never_recovers [of "restarting 5" "msg_to ''b''"] by blast

text \<open>
  A producer that cannot reach RabbitMQ at start-up ends the process: \<^verbatim>\<open>GetRabbitMqProductPool\<close> only
  logs the error of \<^verbatim>\<open>Connect\<close>, and the first \<^verbatim>\<open>Push\<close> indexes the empty list of connections and panics.
\<close>

theorem unreachable_producer_panics:
  assumes "answer b [] (Dial (connection_url usr pw hst prt ''/'')) = Some e"
  shows "Push b d (GetRabbitMqProductPool b hst prt usr pw) = Some Panic"
proof -
  have "RoundRobin 0 5 = 1" by (simp add: RoundRobin_def rem32_def smod_int_alt_def)
  then show ?thesis
    using assms
    by (simp add: Push_def rPush.simps GetRabbitMqProductPool_def Connect_def initConnections_def init_loop.simps
        NewProductPool_def newRabbitPool_def pool_consts rConnect_dials amqp_open_def amqp_def getConnection_def
        conns_of_def Let_def)
qed

theorem unreachable_producer_panics_witness:
  "Push (restarting 0\<lparr>answer := \<lambda>tr c. Some ''refused''\<rparr>) (msg_to ''a'')
     (GetRabbitMqProductPool (restarting 0\<lparr>answer := \<lambda>tr c. Some ''refused''\<rparr>) ''h'' 5672 ''u'' ''p'') = Some Panic"
  by (rule unreachable_producer_panics [of _ _ _ _ _ "''refused''"]) simp

end
