(* ===== verification/RabbitConsume.thy ===== *)
theory RabbitConsume
  imports RabbitPool
begin

text \<open>
  \<^verbatim>\<open>utils/rabbitMQ/rabbitMQPool.go\<close>, the consuming side, and \<^verbatim>\<open>runRabbitmqConsume\<close> of
  \<^verbatim>\<open>server/rabbitmq_consume.go\<close>: declaring queues, the loop that hands deliveries to the registered
  callbacks, retries through a dead-letter queue, and the supervisor that reconnects.

  \<open>rnd\<close> stands for \<^verbatim>\<open>crypto/rand.Int\<close> (\<open>None\<close> is its error). The \<^verbatim>\<open>EventSuccess\<close> callback is a function
  of the calls made so far, the body and the headers, and gives its result and the calls it makes on
  the retry client; the calls of \<^verbatim>\<open>EventFail\<close> are recorded in \<open>fails\<close>.
\<close>

subsection \<open>Random delays\<close>

text \<open>\<^verbatim>\<open>float64(n)\<close> for a natural number below \<open>2 ^ 64\<close>: to 53 bits, ties to even.\<close>

fun f64_exponent :: "nat \<Rightarrow> nat" where
  "f64_exponent n = (if n < 2 ^ 53 then 0 else Suc (f64_exponent (n div 2)))"

declare f64_exponent.simps [simp del]

definition float64 :: "nat \<Rightarrow> nat" where
  "float64 n = (let e = f64_exponent n; q = n div 2 ^ e; m = n mod 2 ^ e in
     (if 2 ^ e < 2 * m \<or> 2 ^ e = 2 * m \<and> odd q then q + 1 else q) * 2 ^ e)"

text \<open>\<^verbatim>\<open>rand.Int(reader, m)\<close> panics for \<open>m \<le> 0\<close>, and its nil result on an error is dereferenced.\<close>

definition rand_Int :: "(int \<Rightarrow> int option) \<Rightarrow> 64 word \<Rightarrow> 64 word outcome" where
  "rand_Int rnd m = (if sint m \<le> 0 then Panic else (case rnd (sint m) of None \<Rightarrow> Panic | Some v \<Rightarrow> Ret (word_of_int v)))"

definition RandomAround :: "(int \<Rightarrow> int option) \<Rightarrow> 64 word \<Rightarrow> 64 word \<Rightarrow> (string + 64 word) outcome" where
  "RandomAround rnd mn mx =
     (if sint mx < sint mn then Ret (Inl ''the min is greater than max!'')
      else if sint mn < 0 then
        (let f64Min = float64 (nat (- sint mn)); i64Min = word_of_int (int f64Min)
         in bind_outcome (rand_Int rnd (mx + 1 + i64Min)) (\<lambda>v. Ret (Inr (v - i64Min))))
      else bind_outcome (rand_Int rnd (mx - mn + 1)) (\<lambda>v. Ret (Inr (mn + v))))"

subsection \<open>Declaring queues\<close>

definition queue_args :: "bool \<Rightarrow> string \<Rightarrow> string \<Rightarrow> (string \<times> arg) list" where
  "queue_args isDeadQueue oldExChangeName oldRoute =
     (let a0 = (if isDeadQueue then
          (let a1 = AList.update ''expires'' (AInt 172800000) [];
               a2 = AList.update ''x-message-ttl'' (AInt 5000) a1;
               a3 = AList.update ''x-dead-letter-exchange'' (AStr oldExChangeName) a2;
               rt = TrimSpace oldRoute
           in if 0 < length rt then AList.update ''x-dead-letter-routing-key'' (AStr rt) a3 else a3)
        else [])
      in AList.update ''x-message-ttl'' (AInt 172800000) a0)"

definition rDeclare ::
    "broker \<Rightarrow> int \<Rightarrow> nat \<Rightarrow> string \<Rightarrow> string \<Rightarrow> string \<Rightarrow> string \<Rightarrow> bool \<Rightarrow> string \<Rightarrow> string \<Rightarrow> string \<Rightarrow>
     rabbit_pool \<Rightarrow> string option \<times> rabbit_pool" where
  "rDeclare b ct c exName exType qName rt isDeadQueue oldEx oldQueue oldRoute r =
     (if ct = RABBITMQ_TYPE_PUBLISH \<and> (length exType = 0 \<or>
          exType \<noteq> EXCHANGE_TYPE_DIRECT \<and> exType \<noteq> EXCHANGE_TYPE_FANOUT \<and> exType \<noteq> EXCHANGE_TYPE_TOPIC)
      then (Some msg_exchange_type, r)
      else (case (if exName \<noteq> '''' then amqp b (ExchangeDeclare c exName exType) r else (None, r)) of
        (Some e, r1) \<Rightarrow> (Some (msg_exchange @ e), r1)
      | (None, r1) \<Rightarrow>
         (if ct \<noteq> RABBITMQ_TYPE_PUBLISH \<and> exType \<noteq> EXCHANGE_TYPE_FANOUT \<or>
             ct = RABBITMQ_TYPE_CONSUME \<and> (exType = EXCHANGE_TYPE_FANOUT \<or> exType = EXCHANGE_TYPE_DIRECT)
          then (case amqp b (QueueDeclare c qName (queue_args isDeadQueue oldEx oldRoute)) r1 of
              (Some e, r2) \<Rightarrow> (Some (msg_queue @ e), r2)
            | (None, r2) \<Rightarrow>
               (if exName \<noteq> '''' then (case amqp b (QueueBind c (queue_name b (calls r1) qName) rt exName) r2 of
                    (Some e, r3) \<Rightarrow> (Some (msg_bind @ e), r3) | (None, r3) \<Rightarrow> (None, r3))
                else (None, r2)))
          else (None, r1))))"

text \<open>Messages, as the UTF-8 bytes of the source.\<close>

definition msg_declare :: string where
  "msg_declare = string_of [228, 186, 164, 230, 141, 162, 230, 156, 186, 47, 233, 152, 159, 229, 136, 151, 47, 231, 187, 145, 229, 174, 154, 229, 164, 177, 232, 180, 165, 58]"

definition msg_consume1 :: string where
  "msg_consume1 = string_of [232, 142, 183, 229, 143, 150, 233, 152, 159, 229, 136, 151, 32]"

definition msg_consume2 :: string where
  "msg_consume2 = string_of [32, 231, 154, 132, 230, 182, 136, 232, 180, 185, 233, 128, 154, 233, 129, 147, 229, 164, 177, 232, 180, 165]"

definition msg_interrupted :: string where
  "msg_interrupted = string_of [230, 182, 136, 230, 129, 175, 229, 164, 132, 231, 144, 134, 228, 184, 173, 230, 150, 173, 58, 32]"

definition msg_all_failed :: string where
  "msg_all_failed = string_of [229, 136, 155, 229, 187, 186, 233, 128, 154, 233, 129, 147, 47, 229, 163, 176, 230, 152, 142, 228, 186, 164, 230, 141, 162, 230, 156, 186, 47, 229, 163, 176, 230, 152, 142, 233, 152, 159, 229, 136, 151, 229, 164, 177, 232, 180, 165]"

subsection \<open>Receivers, deliveries and the retry client\<close>

record delivery =
  d_tag :: nat
  d_body :: bytes
  d_headers :: "(string \<times> header) list"

datatype retry_op = ROpAck | ROpPush bytes

record consume_receive =
  cr_ExchangeName :: string
  cr_ExchangeType :: string
  cr_Route :: string
  cr_QueueName :: string
  cr_EventSuccess :: "(amqp_call list \<Rightarrow> bytes \<Rightarrow> (string \<times> header) list \<Rightarrow> bool \<times> retry_op list) option"
  cr_EventFail :: bool
  IsTry :: bool
  MaxReTry :: "32 word"
  IsAutoAck :: bool

definition event_fail :: "consume_receive \<Rightarrow> int \<Rightarrow> string \<Rightarrow> string \<Rightarrow> bytes \<Rightarrow> rabbit_pool \<Rightarrow> rabbit_pool" where
  "event_fail rcv code message detail data r =
     (if cr_EventFail rcv then r\<lparr>fails := fails r @ [(code, NewRabbitMqError code message detail, data)]\<rparr> else r)"

definition deadExchange :: "consume_receive \<Rightarrow> string" where
  "deadExchange rcv = cr_ExchangeName rcv @ ''-'' @ ''dead''"

definition deadQueue :: "consume_receive \<Rightarrow> string" where
  "deadQueue rcv = cr_QueueName rcv @ ''-'' @ ''dead''"

definition deadRoute :: "consume_receive \<Rightarrow> string" where
  "deadRoute rcv = (if 0 < length (cr_Route rcv) then cr_Route rcv @ ''-'' @ ''dead'' else '''')"

record retryClient =
  rc_channel :: "nat option"
  rc_data :: "delivery option"
  rc_header :: "(string \<times> header) list"
  rc_deadExchangeName :: string
  rc_deadQueueName :: string
  rc_deadRouteKey :: string
  rc_receive :: consume_receive

definition newRetryClient ::
    "nat option \<Rightarrow> delivery option \<Rightarrow> (string \<times> header) list \<Rightarrow> string \<Rightarrow> string \<Rightarrow> string \<Rightarrow> consume_receive \<Rightarrow> retryClient" where
  "newRetryClient c d h deadEx deadQ deadRt rcv =
     \<lparr>rc_channel = c, rc_data = d, rc_header = h, rc_deadExchangeName = deadEx, rc_deadQueueName = deadQ,
      rc_deadRouteKey = deadRt, rc_receive = rcv\<rparr>"

definition ACK_DATA_NIL :: string where "ACK_DATA_NIL = ''ack data nil''"

definition retryClient_Ack :: "broker \<Rightarrow> retryClient \<Rightarrow> rabbit_pool \<Rightarrow> string option \<times> rabbit_pool" where
  "retryClient_Ack b c r =
     (if \<not> IsAutoAck (rc_receive c) then
        (case rc_data c of Some d \<Rightarrow> amqp b (AckDelivery (d_tag d)) r | None \<Rightarrow> (Some ACK_DATA_NIL, r))
      else (None, r))"

text \<open>The number of retries in the headers; the type assertion \<^verbatim>\<open>.(int32)\<close> panics on another type.\<close>

definition retry_nums :: "(string \<times> header) list \<Rightarrow> 32 word outcome" where
  "retry_nums h = (case map_of h ''retry_nums'' of
     None \<Rightarrow> Ret 0 | Some (HInt32 n) \<Rightarrow> Ret n | Some HOther \<Rightarrow> Panic)"

definition msg_retry_max :: string where
  "msg_retry_max = ''The maximum number of retries exceeded. Procedure''"

text \<open>
  The goroutines that send a message to the dead-letter exchange after 200 ms: that of \<^verbatim>\<open>consumeTask\<close>
  with the count it puts into a new header, and that of \<^verbatim>\<open>retryClient.Push\<close>, which builds such a header
  too (its second component) but sends the client's own.
\<close>

datatype retry_job =
    ConsumeRetry "32 word" bytes
  | ClientRetry "(string \<times> header) list" "32 word" bytes

definition msg_channel_failed :: "string \<Rightarrow> string" where
  "msg_channel_failed q = msg_consume1 @ q @ msg_consume2"

definition retryClient_Push ::
    "retryClient \<Rightarrow> bytes \<Rightarrow> rabbit_pool \<Rightarrow> (rabbit_mq_error option \<times> retry_job list \<times> rabbit_pool) outcome" where
  "retryClient_Push c pushData r =
     (if rc_channel c \<noteq> None then
        bind_outcome (retry_nums (rc_header c)) (\<lambda>n. let n = n + 1 in
          if sint (MaxReTry (rc_receive c)) \<le> sint n
          then Ret (None, [], event_fail (rc_receive c) RCODE_RETRY_MAX_ERROR msg_retry_max '''' pushData r)
          else Ret (None, [ClientRetry (rc_header c) n pushData], r))
      else Ret (Some (NewRabbitMqError RCODE_GET_CHANNEL_ERROR (msg_channel_failed (rc_deadQueueName c))
        (msg_channel_failed (rc_deadQueueName c))), [], r))"

subsection \<open>The consumer task\<close>

definition retry_publishing :: "bytes \<Rightarrow> int \<Rightarrow> (string \<times> header) list \<Rightarrow> publishing" where
  "retry_publishing body expirationTime h = \<lparr>ContentType = ''text/plain'', Body = body,
     Expiration = itoa_int expirationTime, Headers = h, MsgId = ''''\<rparr>"

definition retry_expiration :: "(int \<Rightarrow> int option) \<Rightarrow> rabbit_pool \<Rightarrow> int outcome" where
  "retry_expiration rnd r = bind_outcome (RandomAround rnd (minRandomRetryTime r) (maxRandomRetryTime r))
     (\<lambda>x. Ret (case x of Inl e \<Rightarrow> 5000 | Inr v \<Rightarrow> sint v))"

text \<open>What a retry goroutine does: the message it sends, and \<^verbatim>\<open>EventFail\<close> when sending fails (\<^verbatim>\<open>retryClient\<close> only).\<close>

definition job_headers :: "retry_job \<Rightarrow> (string \<times> header) list" where
  "job_headers j = (case j of
     ConsumeRetry n body \<Rightarrow> [(''retry_nums'', HInt32 n)]
   | ClientRetry h n body \<Rightarrow> h)"

definition job_body :: "retry_job \<Rightarrow> bytes" where
  "job_body j = (case j of ConsumeRetry n body \<Rightarrow> body | ClientRetry h n body \<Rightarrow> body)"

definition run_job ::
    "broker \<Rightarrow> (int \<Rightarrow> int option) \<Rightarrow> consume_receive \<Rightarrow> nat \<Rightarrow> retry_job \<Rightarrow> rabbit_pool \<Rightarrow> rabbit_pool outcome" where
  "run_job b rnd rcv c j r = bind_outcome (retry_expiration rnd r) (\<lambda>t.
     case amqp b (Publish c (deadExchange rcv) (deadRoute rcv) (retry_publishing (job_body j) t (job_headers j))) r of
       (None, r1) \<Rightarrow> Ret r1
     | (Some e, r1) \<Rightarrow> (case j of
         ConsumeRetry n body \<Rightarrow> Ret r1
       | ClientRetry h n body \<Rightarrow> Ret (event_fail rcv RCODE_RETRY_MAX_ERROR msg_retry_max '''' body r1)))"

text \<open>The calls a callback makes on the retry client, in order.\<close>

fun run_retry_ops ::
    "broker \<Rightarrow> retryClient \<Rightarrow> retry_op list \<Rightarrow> rabbit_pool \<Rightarrow> (retry_job list \<times> rabbit_pool) outcome" where
  "run_retry_ops b c [] r = Ret ([], r)"
| "run_retry_ops b c (ROpAck # ops) r = run_retry_ops b c ops (snd (retryClient_Ack b c r))"
| "run_retry_ops b c (ROpPush d # ops) r = bind_outcome (retryClient_Push c d r) (\<lambda>(e, js, r1).
     bind_outcome (run_retry_ops b c ops r1) (\<lambda>(js', r2). Ret (js @ js', r2)))"

text \<open>One delivery in the loop of \<^verbatim>\<open>consumeTask\<close>: the goroutines it starts and the state after it.\<close>

definition consume_delivery ::
    "broker \<Rightarrow> consume_receive \<Rightarrow> nat \<Rightarrow> delivery \<Rightarrow> rabbit_pool \<Rightarrow> (retry_job list \<times> rabbit_pool) outcome" where
  "consume_delivery b rcv c d r =
     (let r1 = (if IsAutoAck rcv then snd (amqp b (AckDelivery (d_tag d)) r) else r) in
      case cr_EventSuccess rcv of
        None \<Rightarrow> Ret ([], r1)
      | Some f \<Rightarrow>
         (let client = newRetryClient (Some c) (Some d) (d_headers d) (deadExchange rcv) (deadQueue rcv) (deadRoute rcv) rcv;
              (isOk, ops) = f (calls r1) (d_body d) (d_headers d)
          in bind_outcome (run_retry_ops b client ops r1) (\<lambda>(js, r2).
               if \<not> isOk \<and> IsTry rcv then
                 bind_outcome (retry_nums (d_headers d)) (\<lambda>n. let n = n + 1 in
                   if sint (MaxReTry rcv) \<le> sint n
                   then Ret (js, event_fail rcv RCODE_RETRY_MAX_ERROR msg_retry_max '''' (d_body d) r2)
                   else Ret (js @ [ConsumeRetry n (d_body d)], r2))
               else Ret (js, r2))))"

text \<open>
  A task: it returns early with an error (or nil), or enters the loop with its channel, its connection
  object and the channel opened for the dead-letter queue, which its deferred functions close.
\<close>

datatype task_start = TReturn "string option" | TLoop nat nat "nat option"

definition close_task :: "broker \<Rightarrow> nat \<Rightarrow> nat \<Rightarrow> nat option \<Rightarrow> rabbit_pool \<Rightarrow> rabbit_pool outcome" where
  "close_task b a c dead r =
     (let r1 = (case dead of None \<Rightarrow> r | Some dc \<Rightarrow> snd (amqp b (CloseChannel dc) r));
          r2 = snd (amqp b (CloseChannel c) r1)
      in case conn (rconns r2 a) of None \<Rightarrow> Panic | Some h \<Rightarrow> Ret (snd (amqp b (CloseConn h) r2)))"

definition return_task ::
    "broker \<Rightarrow> nat \<Rightarrow> nat \<Rightarrow> nat option \<Rightarrow> string option \<Rightarrow> rabbit_pool \<Rightarrow> (task_start \<times> rabbit_pool) outcome" where
  "return_task b a c dead e r = bind_outcome (close_task b a c dead r) (\<lambda>r'. Ret (TReturn e, r'))"

definition consume_from ::
    "broker \<Rightarrow> consume_receive \<Rightarrow> nat \<Rightarrow> nat \<Rightarrow> nat option \<Rightarrow> rabbit_pool \<Rightarrow> (task_start \<times> rabbit_pool) outcome" where
  "consume_from b rcv a c dead r =
     (case amqp b (Consume c (cr_QueueName rcv)) (snd (amqp b (Qos c) r)) of
        (Some e, r1) \<Rightarrow> return_task b a c dead (Some e)
          (event_fail rcv RCODE_GET_CHANNEL_ERROR (msg_channel_failed (cr_QueueName rcv)) e [] r1)
      | (None, r1) \<Rightarrow> Ret (TLoop c a dead, r1))"

text \<open>
  The part of \<^verbatim>\<open>consumeTask\<close> before the loop. \<open>err\<close> is the error of the first declaration; when the dead
  channel cannot be opened \<^verbatim>\<open>err.Error()\<close> is called on it although it may be nil, and the declaration of
  the dead-letter queue overwrites it.
\<close>

definition declare_dead ::
    "broker \<Rightarrow> 32 word \<Rightarrow> consume_receive \<Rightarrow> nat \<Rightarrow> nat \<Rightarrow> string option \<Rightarrow> rabbit_pool \<Rightarrow> (task_start \<times> rabbit_pool) outcome" where
  "declare_dead b num rcv a c err r =
     (let check = (\<lambda>err dead r. case err of
          Some e \<Rightarrow> return_task b a c dead (Some e)
            (event_fail rcv RCODE_CHANNEL_QUEUE_EXCHANGE_BIND_ERROR (msg_declare @ e) e [] r)
        | None \<Rightarrow> consume_from b rcv a c dead r)
      in if IsTry rcv \<and> rem32 num 2 = 0 then
           bind_outcome (rCreateChannel b a r) (\<lambda>(x, r1). case x of
             Inl deadErr \<Rightarrow>
               (if cr_EventFail rcv \<and> err = None then Panic
                else return_task b a c None err (event_fail rcv RCODE_CHANNEL_CREATE_ERROR ''dead channel create error'' (case err of None \<Rightarrow> '''' | Some e \<Rightarrow> e) [] r1))
           | Inr dc \<Rightarrow>
               (case rDeclare b (clientType r1) c (deadExchange rcv) EXCHANGE_TYPE_DIRECT (deadQueue rcv) (deadRoute rcv)
                   True (cr_ExchangeName rcv) (cr_QueueName rcv) (cr_Route rcv) r1 of
                  (err', r2) \<Rightarrow> check err' (Some dc) r2))
         else check err None r)"

definition consumeTask_start ::
    "broker \<Rightarrow> 32 word \<Rightarrow> consume_receive \<Rightarrow> rabbit_pool \<Rightarrow> (task_start \<times> rabbit_pool) outcome" where
  "consumeTask_start b num rcv r =
     bind_outcome (getConnection r) (\<lambda>(a, r1).
     bind_outcome (rCreateChannel b a r1) (\<lambda>(x, r2). case x of
       Inl e \<Rightarrow> Ret (TReturn (Some e), event_fail rcv RCODE_CHANNEL_CREATE_ERROR ''channel create error'' e [] r2)
     | Inr c \<Rightarrow>
        (case rDeclare b (clientType r2) c (cr_ExchangeName rcv) (cr_ExchangeType rcv) (cr_QueueName rcv) (cr_Route rcv)
            False '''' '''' '''' r2 of
           (err, r3) \<Rightarrow> declare_dead b num rcv a c err r3)))"

text \<open>
  One turn of the loop: a delivery, or the notification that the channel is closed, which is nil after
  a graceful close (\<open>None\<close>): \<^verbatim>\<open>e.Error()\<close> and \<^verbatim>\<open>e.Code\<close> then panic. After a notification the task calls
  \<^verbatim>\<open>setConnectError\<close> with the given code and text, and returns.
\<close>

record amqp_error =
  err_code :: int
  err_text :: string

datatype task_event = Deliver delivery | Notify "amqp_error option"

datatype task_result = TContinue "retry_job list" | TDone int string

definition consumeTask_step ::
    "broker \<Rightarrow> consume_receive \<Rightarrow> nat \<Rightarrow> task_event \<Rightarrow> rabbit_pool \<Rightarrow> (task_result \<times> rabbit_pool) outcome" where
  "consumeTask_step b rcv c ev r = (case ev of
     Deliver d \<Rightarrow> bind_outcome (consume_delivery b rcv c d r) (\<lambda>(js, r1). Ret (TContinue js, r1))
   | Notify None \<Rightarrow> Panic
   | Notify (Some e) \<Rightarrow>
      Ret (TDone (err_code e) (msg_interrupted @ err_text e @ '' '' @ [CHR 0x0A]),
        event_fail rcv RCODE_CONNECTION_ERROR (msg_interrupted @ ''queue:'' @ cr_QueueName rcv @ [CHR 0x0A]) (err_text e) [] r))"

subsection \<open>The supervisor\<close>

text \<open>
  \<^verbatim>\<open>rConsume\<close> starts the tasks of every receiver and waits for an error on the unbuffered channel
  \<^verbatim>\<open>errorChanel\<close>; \<^verbatim>\<open>retryConsume\<close> reconnects until it succeeds and calls \<^verbatim>\<open>rConsume\<close> again. The flag \<^verbatim>\<open>status\<close>
  is guarded by \<^verbatim>\<open>statusLock\<close>, which \<^verbatim>\<open>setConnectError\<close> holds while it waits for the receiver: \<open>Sending\<close> is
  its critical section before the rendezvous, \<open>Sent\<close> after it, with the task that is in it (\<open>None\<close> for a
  listener). A \<open>group\<close> is one \<^verbatim>\<open>rListenerConsume\<close> with
  its tasks.
\<close>

type_synonym owner = "(nat \<times> nat) option"

datatype lock_state = Free | Sending owner int string | Sent owner

datatype phase = PStart | PSelect | PGot | PRetry | PDone

datatype task =
    Starting "32 word"
  | Looping nat nat "nat option"
  | Reporting nat nat "nat option" int string
  | Leaving nat nat "nat option"
  | Ended bool

record group =
  g_receive :: consume_receive
  g_tasks :: "task list"
  g_waiting :: bool

record consumer =
  cs_pool :: rabbit_pool
  consumeReceive :: "consume_receive list"
  status :: bool
  cs_lock :: lock_state
  cs_phase :: phase
  cs_groups :: "group list"
  cs_jobs :: "(consume_receive \<times> nat \<times> retry_job) list"

definition RegisterConsumeReceive :: "consume_receive option \<Rightarrow> consumer \<Rightarrow> consumer" where
  "RegisterConsumeReceive rcv s = (case rcv of None \<Rightarrow> s | Some x \<Rightarrow> s\<lparr>consumeReceive := consumeReceive s @ [x]\<rparr>)"

definition RunConsume :: "consumer \<Rightarrow> string option \<times> consumer" where
  "RunConsume s =
     (let s1 = s\<lparr>cs_pool := (cs_pool s)\<lparr>clientType := RABBITMQ_TYPE_CONSUME\<rparr>\<rparr>
      in if length (consumeReceive s1) = 0 then (Some msg_no_receive, s1) else (None, s1\<lparr>cs_phase := PStart\<rparr>))"

definition rListenerConsume :: "rabbit_pool \<Rightarrow> consume_receive \<Rightarrow> group" where
  "rListenerConsume p rcv = \<lparr>g_receive = rcv,
     g_tasks = map (\<lambda>i. Starting (of_nat i)) [0..<nat (sint (consumeMaxChannel p))], g_waiting = True\<rparr>"

definition rConsume :: "consumer \<Rightarrow> consumer" where
  "rConsume s =
     (if length (conns_of (cs_pool s) RABBITMQ_TYPE_CONSUME) \<le> 0 then s\<lparr>cs_phase := PRetry\<rparr>
      else s\<lparr>cs_phase := PSelect,
             cs_groups := cs_groups s @ map (rListenerConsume (cs_pool s)) (consumeReceive s)\<rparr>)"

text \<open>One turn of the loop of \<^verbatim>\<open>retryConsume\<close>: it stays in the loop unless both dials succeed.\<close>

definition retryConsume :: "broker \<Rightarrow> consumer \<Rightarrow> consumer" where
  "retryConsume b s =
     (let p = cs_pool s; p1 = p\<lparr>consumeCurrentRetry := consumeCurrentRetry p + 1\<rparr>
      in case rConnect b p1 of
           (Inl e, p2) \<Rightarrow> s\<lparr>cs_pool := p2\<rparr>
         | (Inr h, p2) \<Rightarrow> (case initConnections b p2 of
             (Some e, p3) \<Rightarrow> s\<lparr>cs_pool := p3\<rparr>
           | (None, p3) \<Rightarrow> s\<lparr>cs_pool := p3, cs_phase := PDone\<rparr>))"

text \<open>\<^verbatim>\<open>setConnectError\<close>: entering with the lock free, and leaving; the result says whether it returned.\<close>

definition setConnectError :: "owner \<Rightarrow> int \<Rightarrow> string \<Rightarrow> consumer \<Rightarrow> bool \<times> consumer" where
  "setConnectError ow code message s =
     (if \<not> status s then (False, s\<lparr>cs_lock := Sending ow code message\<rparr>) else (True, s\<lparr>status := True\<rparr>))"

definition setConnectError_leave :: "consumer \<Rightarrow> consumer" where
  "setConnectError_leave s = s\<lparr>status := True, cs_lock := Free\<rparr>"

definition listener_failed :: "rabbit_pool \<Rightarrow> group \<Rightarrow> bool" where
  "listener_failed p g \<longleftrightarrow> sint (consumeMaxChannel p) \<le> int (length (filter (\<lambda>t. t = Ended True) (g_tasks g)))"

definition set_task :: "nat \<Rightarrow> nat \<Rightarrow> task \<Rightarrow> consumer \<Rightarrow> consumer" where
  "set_task g i t s = s\<lparr>cs_groups := (cs_groups s)[g := (cs_groups s ! g)\<lparr>g_tasks := (g_tasks (cs_groups s ! g))[i := t]\<rparr>]\<rparr>"

text \<open>The owner of the critical section returns from \<^verbatim>\<open>setConnectError\<close>; a task then runs its deferred closes.\<close>

fun leaving :: "task \<Rightarrow> task" where
  "leaving (Reporting c a dead code m) = Leaving c a dead"
| "leaving t = t"

definition return_task_of :: "owner \<Rightarrow> consumer \<Rightarrow> consumer" where
  "return_task_of ow s = (case ow of None \<Rightarrow> s | Some (g, i) \<Rightarrow> set_task g i (leaving (g_tasks (cs_groups s ! g) ! i)) s)"

abbreviation task_at :: "nat \<Rightarrow> nat \<Rightarrow> consumer \<Rightarrow> task \<Rightarrow> bool" where
  "task_at g i s t \<equiv> g < length (cs_groups s) \<and> i < length (g_tasks (cs_groups s ! g)) \<and> g_tasks (cs_groups s ! g) ! i = t"

abbreviation rcv_of :: "nat \<Rightarrow> consumer \<Rightarrow> consume_receive" where
  "rcv_of g s \<equiv> g_receive (cs_groups s ! g)"

inductive con_step :: "broker \<Rightarrow> (int \<Rightarrow> int option) \<Rightarrow> consumer \<Rightarrow> consumer \<Rightarrow> bool" for b rnd where
  launch: "cs_phase s = PStart \<Longrightarrow> con_step b rnd s (rConsume s)"
| receive: "cs_phase s = PSelect \<Longrightarrow> cs_lock s = Sending ow code m \<Longrightarrow>
    con_step b rnd s (s\<lparr>cs_phase := PGot, cs_lock := Sent ow\<rparr>)"
| leave: "cs_lock s = Sent ow \<Longrightarrow> con_step b rnd s (return_task_of ow (setConnectError_leave s))"
| mark: "cs_phase s = PGot \<Longrightarrow> cs_lock s = Free \<Longrightarrow> con_step b rnd s (s\<lparr>status := True, cs_phase := PRetry\<rparr>)"
| retry: "cs_phase s = PRetry \<Longrightarrow> con_step b rnd s (retryConsume b s)"
| unmark: "cs_phase s = PDone \<Longrightarrow> cs_lock s = Free \<Longrightarrow> con_step b rnd s (s\<lparr>status := False, cs_phase := PStart\<rparr>)"
| start: "task_at g i s (Starting num) \<Longrightarrow> consumeTask_start b num (rcv_of g s) (cs_pool s) = Ret (TLoop c a dead, p) \<Longrightarrow>
    con_step b rnd s (set_task g i (Looping c a dead) (s\<lparr>cs_pool := p\<rparr>))"
| start_fails: "task_at g i s (Starting num) \<Longrightarrow> consumeTask_start b num (rcv_of g s) (cs_pool s) = Ret (TReturn e, p) \<Longrightarrow>
    con_step b rnd s (set_task g i (Ended (e \<noteq> None)) (s\<lparr>cs_pool := p\<rparr>))"
| event: "task_at g i s (Looping c a dead) \<Longrightarrow> consumeTask_step b (rcv_of g s) c ev (cs_pool s) = Ret (TContinue js, p) \<Longrightarrow>
    con_step b rnd s (s\<lparr>cs_pool := p, cs_jobs := cs_jobs s @ map (\<lambda>j. (rcv_of g s, c, j)) js\<rparr>)"
| closed: "task_at g i s (Looping c a dead) \<Longrightarrow> consumeTask_step b (rcv_of g s) c ev (cs_pool s) = Ret (TDone code m, p) \<Longrightarrow>
    con_step b rnd s (set_task g i (Reporting c a dead code m) (s\<lparr>cs_pool := p\<rparr>))"
| report: "task_at g i s (Reporting c a dead code m) \<Longrightarrow> cs_lock s = Free \<Longrightarrow>
    setConnectError (Some (g, i)) code m s = (returned, s') \<Longrightarrow>
    con_step b rnd s (if returned then return_task_of (Some (g, i)) s' else s')"
| finish: "task_at g i s (Leaving c a dead) \<Longrightarrow> close_task b a c dead (cs_pool s) = Ret p \<Longrightarrow>
    con_step b rnd s (set_task g i (Ended False) (s\<lparr>cs_pool := p\<rparr>))"
| listener: "g < length (cs_groups s) \<Longrightarrow> g_waiting (cs_groups s ! g) \<Longrightarrow> cs_lock s = Free \<Longrightarrow>
    list_all (\<lambda>t. t = Ended True \<or> t = Ended False) (g_tasks (cs_groups s ! g)) \<Longrightarrow>
    s' = s\<lparr>cs_groups := (cs_groups s)[g := (cs_groups s ! g)\<lparr>g_waiting := False\<rparr>]\<rparr> \<Longrightarrow>
    con_step b rnd s (if listener_failed (cs_pool s) (cs_groups s ! g) then snd (setConnectError None 501 msg_all_failed s') else s')"
| job: "k < length (cs_jobs s) \<Longrightarrow> cs_jobs s ! k = (rcv, c, j) \<Longrightarrow> run_job b rnd rcv c j (cs_pool s) = Ret p \<Longrightarrow>
    con_step b rnd s (s\<lparr>cs_pool := p, cs_jobs := take k (cs_jobs s) @ drop (Suc k) (cs_jobs s)\<rparr>)"

inductive_cases con_stepE: "con_step b rnd s s'"

inductive con_reach :: "broker \<Rightarrow> (int \<Rightarrow> int option) \<Rightarrow> consumer \<Rightarrow> consumer \<Rightarrow> bool" for b rnd where
  refl [intro!]: "con_reach b rnd s s"
| step: "con_reach b rnd s s1 \<Longrightarrow> con_step b rnd s1 s2 \<Longrightarrow> con_reach b rnd s s2"

subsection \<open>Lemmas: what the tasks leave alone\<close>

lemma kept_calls [simp]: "kept r (r'\<lparr>calls := cs\<rparr>) = kept r r'"
  by (simp add: kept_def)

lemma kept_amqp [simp]: "kept r (snd (amqp b c r')) = kept r r'"
  by (simp add: amqp_def)

lemma amqp_kept: "amqp b c r' = (e, r'') \<Longrightarrow> kept r r' \<Longrightarrow> kept r r''"
  by (auto simp: amqp_def)

lemma kept_event_fail [simp]: "kept r (event_fail rcv code m d data r') = kept r r'"
  by (simp add: event_fail_def kept_def)

lemma rCreateChannel_kept: "rCreateChannel b a r' = Ret (x, r'') \<Longrightarrow> kept r r' \<Longrightarrow> kept r r''"
  by (auto simp: rCreateChannel_def amqp_open_def split: option.splits prod.splits dest: amqp_kept)

lemma getConnection_kept: "getConnection r' = Ret (a, r'') \<Longrightarrow> kept r r' \<Longrightarrow> kept r r''"
  by (auto simp: getConnection_def Let_def kept_def split: if_splits)

lemma rDeclare_kept: "rDeclare b ct c ex ty q rt dq oe oq ort r' = (e, r'') \<Longrightarrow> kept r r' \<Longrightarrow> kept r r''"
  by (auto simp: rDeclare_def split: option.splits prod.splits if_splits dest: amqp_kept)

lemma close_task_kept: "close_task b a c dead r' = Ret r'' \<Longrightarrow> kept r r' \<Longrightarrow> kept r r''"
  by (auto simp: close_task_def Let_def split: option.splits)

lemma return_task_kept: "return_task b a c dead e r' = Ret (t, r'') \<Longrightarrow> kept r r' \<Longrightarrow> kept r r''"
  by (auto simp: return_task_def bind_outcome_Ret dest: close_task_kept)

lemma consume_from_kept: "consume_from b rcv a c dead r' = Ret (t, r'') \<Longrightarrow> kept r r' \<Longrightarrow> kept r r''"
  by (auto simp: consume_from_def split: option.splits prod.splits dest!: return_task_kept dest: amqp_kept)

lemma declare_dead_kept:
  assumes "declare_dead b num rcv a c err r' = Ret (t, r'')" and "kept r r'"
  shows "kept r r''"
  using assms
  by (auto simp: declare_dead_def Let_def bind_outcome_Ret split: if_splits sum.splits option.splits prod.splits
      dest!: return_task_kept consume_from_kept rCreateChannel_kept rDeclare_kept)

lemma consumeTask_start_kept: "consumeTask_start b num rcv r' = Ret (t, r'') \<Longrightarrow> kept r r' \<Longrightarrow> kept r r''"
  apply (clarsimp simp: consumeTask_start_def bind_outcome_Ret)
  apply (drule (1) getConnection_kept, drule (1) rCreateChannel_kept)
  apply (auto split: sum.split_asm prod.split_asm dest!: declare_dead_kept rDeclare_kept)
  done

lemma run_retry_ops_kept: "run_retry_ops b cl ops r' = Ret (js, r'') \<Longrightarrow> kept r r' \<Longrightarrow> kept r r''"
proof (induction b cl ops r' arbitrary: js r'' rule: run_retry_ops.induct)
  case (2 b c ops r1)
  have "kept r (snd (retryClient_Ack b c r1))"
    using 2(3) by (auto simp: retryClient_Ack_def split: option.splits)
  with 2 show ?case by simp
next
  case (3 b c d ops r1)
  from 3(2) obtain e js1 r2 js2 where p: "retryClient_Push c d r1 = Ret (e, js1, r2)" "run_retry_ops b c ops r2 = Ret (js2, r'')"
    by (auto simp: bind_outcome_Ret)
  have "kept r r2"
    using p(1) 3(3) by (auto simp: retryClient_Push_def bind_outcome_Ret Let_def split: if_splits)
  with 3(1) p show ?case by blast
qed simp

lemma consume_delivery_kept: "consume_delivery b rcv c d r' = Ret (js, r'') \<Longrightarrow> kept r r' \<Longrightarrow> kept r r''"
  by (auto simp: consume_delivery_def Let_def bind_outcome_Ret split: option.splits prod.splits if_splits
      dest!: run_retry_ops_kept)

lemma consumeTask_step_kept: "consumeTask_step b rcv c ev r' = Ret (t, r'') \<Longrightarrow> kept r r' \<Longrightarrow> kept r r''"
  by (auto simp: consumeTask_step_def bind_outcome_Ret split: task_event.splits option.splits prod.splits dest!: consume_delivery_kept)

lemma run_job_kept: "run_job b rnd rcv c j r' = Ret r'' \<Longrightarrow> kept r r' \<Longrightarrow> kept r r''"
  apply (clarsimp simp: run_job_def bind_outcome_Ret amqp_def)
  apply (auto split: option.split_asm retry_job.split_asm)
  done

subsection \<open>Lemmas: the supervisor\<close>

lemma init_loop_frame:
  assumes "init_loop b i n r = (e, r')"
  shows "clientType r' = clientType r \<and> maxConnection r' = maxConnection r \<and>
    (e = None \<longrightarrow> length (conns_of r' (clientType r)) = length (conns_of r (clientType r)) + nat (n - i))"
  using assms
proof (induction b i n r arbitrary: e r' rule: init_loop.induct)
  case (1 b i n r)
  show ?case
  proof (cases "i < n")
    case True
    obtain x r1 where x: "rConnect b r = (x, r1)" by fastforce
    have r1: "clientType r1 = clientType r" "maxConnection r1 = maxConnection r" "conns_of r1 = conns_of r"
      using x by (auto simp: rConnect_dials amqp_open_def amqp_def conns_of_def fun_eq_iff split: option.splits)
    show ?thesis
    proof (cases x)
      case (Inl d)
      then show ?thesis using 1(2) True x r1 by (auto simp: init_loop.simps [of b i n r])
    next
      case (Inr h)
      let ?r2 = "add_conn h (word_of_int i) r1"
      have "init_loop b (i + 1) n ?r2 = (e, r')"
        using 1(2) True x Inr by (simp add: init_loop.simps [of b i n r])
      from 1(1) [OF True x [symmetric] Inr this] True r1 show ?thesis
        by (auto simp: add_conn_def conns_of_def)
    qed
  next
    case False
    then show ?thesis using 1(2) by (simp add: init_loop.simps [of b i n r])
  qed
qed

lemma retryConsume_frame:
  assumes "cs_phase s = PRetry" and "clientType (cs_pool s) = RABBITMQ_TYPE_CONSUME"
  shows "status (retryConsume b s) = status s" "cs_lock (retryConsume b s) = cs_lock s"
    "cs_groups (retryConsume b s) = cs_groups s"
    "clientType (cs_pool (retryConsume b s)) = RABBITMQ_TYPE_CONSUME"
    "maxConnection (cs_pool (retryConsume b s)) = maxConnection (cs_pool s)"
    "cs_phase (retryConsume b s) = PRetry \<or> cs_phase (retryConsume b s) = PDone \<and>
      length (conns_of (cs_pool (retryConsume b s)) RABBITMQ_TYPE_CONSUME) = nat (sint (maxConnection (cs_pool s)))"
proof -
  let ?p = "cs_pool s"
  obtain x p2 where x: "rConnect b (?p\<lparr>consumeCurrentRetry := consumeCurrentRetry ?p + 1\<rparr>) = (x, p2)" by fastforce
  have p2: "clientType p2 = RABBITMQ_TYPE_CONSUME" "maxConnection p2 = maxConnection ?p"
    using x assms(2) by (auto simp: rConnect_dials amqp_open_def amqp_def split: option.splits)
  obtain e p3 where e: "initConnections b p2 = (e, p3)" by fastforce
  have p3: "clientType p3 = RABBITMQ_TYPE_CONSUME" "maxConnection p3 = maxConnection ?p"
    "e = None \<Longrightarrow> length (conns_of p3 RABBITMQ_TYPE_CONSUME) = nat (sint (maxConnection ?p))"
    using init_loop_frame [OF e [unfolded initConnections_def]] p2 by (auto simp: conns_of_def)
  show "status (retryConsume b s) = status s" "cs_lock (retryConsume b s) = cs_lock s"
    "cs_groups (retryConsume b s) = cs_groups s"
    "clientType (cs_pool (retryConsume b s)) = RABBITMQ_TYPE_CONSUME"
    "maxConnection (cs_pool (retryConsume b s)) = maxConnection (cs_pool s)"
    "cs_phase (retryConsume b s) = PRetry \<or> cs_phase (retryConsume b s) = PDone \<and>
      length (conns_of (cs_pool (retryConsume b s)) RABBITMQ_TYPE_CONSUME) = nat (sint (maxConnection (cs_pool s)))"
    using assms(1) x p2 e p3 by (auto simp: retryConsume_def Let_def split: sum.split option.split)
qed

definition con_inv :: "consumer \<Rightarrow> bool" where
  "con_inv s \<longleftrightarrow> clientType (cs_pool s) = RABBITMQ_TYPE_CONSUME \<and>
     (status s \<longrightarrow> cs_phase s \<in> {PGot, PRetry, PDone}) \<and>
     (cs_phase s \<in> {PRetry, PDone} \<longrightarrow> status s \<or> cs_groups s = []) \<and>
     (case cs_lock s of Free \<Rightarrow> cs_phase s = PGot \<longrightarrow> status s
      | Sending ow c m \<Rightarrow> \<not> status s \<and> cs_phase s \<in> {PStart, PSelect} \<and> cs_groups s \<noteq> []
      | Sent ow \<Rightarrow> \<not> status s \<and> cs_phase s = PGot \<and> cs_groups s \<noteq> []) \<and>
     0 < sint (maxConnection (cs_pool s)) \<and>
     (cs_phase s = PStart \<and> cs_groups s \<noteq> [] \<longrightarrow> conns_of (cs_pool s) RABBITMQ_TYPE_CONSUME \<noteq> []) \<and>
     (cs_phase s = PDone \<longrightarrow> conns_of (cs_pool s) RABBITMQ_TYPE_CONSUME \<noteq> [])"

lemmas task_kept = consumeTask_start_kept [OF _ kept_refl] consumeTask_step_kept [OF _ kept_refl]
  close_task_kept [OF _ kept_refl] run_job_kept [OF _ kept_refl]

text \<open>A step that only changes tasks, retry goroutines and what the pool may change keeps the invariant.\<close>

lemma con_inv_task:
  assumes "con_inv s" and "kept (cs_pool s) (cs_pool s')" and "status s' = status s" and "cs_phase s' = cs_phase s"
    and "cs_lock s' = cs_lock s" and "(cs_groups s' = []) = (cs_groups s = [])"
  shows "con_inv s'"
  using assms by (auto simp: con_inv_def kept_def conns_of_def split: lock_state.splits)

lemma set_task_simps [simp]: "cs_pool (set_task g i t s) = cs_pool s" "status (set_task g i t s) = status s"
  "cs_phase (set_task g i t s) = cs_phase s" "cs_lock (set_task g i t s) = cs_lock s"
  "(cs_groups (set_task g i t s) = []) = (cs_groups s = [])"
  by (simp_all add: set_task_def)

lemma return_task_of_simps [simp]: "cs_pool (return_task_of ow s) = cs_pool s" "status (return_task_of ow s) = status s"
  "cs_phase (return_task_of ow s) = cs_phase s" "cs_lock (return_task_of ow s) = cs_lock s"
  "(cs_groups (return_task_of ow s) = []) = (cs_groups s = [])"
  by (simp_all add: return_task_of_def split: option.split)

lemma con_inv_return [simp]: "con_inv (return_task_of ow s) = con_inv s"
  by (simp add: con_inv_def split: lock_state.split)

lemma setConnectError_inv:
  assumes "con_inv s" and "cs_lock s = Free" and "cs_groups s \<noteq> []"
  shows "con_inv (snd (setConnectError ow code m s))"
  using assms by (cases "cs_phase s") (auto simp: setConnectError_def con_inv_def)

lemma retryConsume_inv:
  assumes "con_inv s" and "cs_phase s = PRetry"
  shows "con_inv (retryConsume b s)"
proof -
  have "clientType (cs_pool s) = RABBITMQ_TYPE_CONSUME" using assms(1) by (simp add: con_inv_def)
  note f = retryConsume_frame [OF assms(2) this, of b]
  show ?thesis
    using assms f by (auto simp: con_inv_def split: lock_state.splits)
qed

lemma con_step_inv:
  assumes "con_step b rnd s s'" and "con_inv s"
  shows "con_inv s'"
  using assms
proof (induction rule: con_step.induct)
  case (launch s)
  then show ?case by (auto simp: rConsume_def con_inv_def split: lock_state.splits)
next
  case (retry s)
  then show ?case by (simp add: retryConsume_inv)
next
  case (start g i s num c a dead p)
  then show ?case by (intro con_inv_task [OF start(3)]) (auto intro: task_kept)
next
  case (start_fails g i s num e p)
  then show ?case by (intro con_inv_task [OF start_fails(3)]) (auto intro: task_kept)
next
  case (event g i s c a dead ev js p)
  then show ?case by (intro con_inv_task [OF event(3)]) (auto intro: task_kept)
next
  case (closed g i s c a dead ev code m p)
  then show ?case by (intro con_inv_task [OF closed(3)]) (auto intro: task_kept)
next
  case (report g i s c a dead code m returned s')
  then have "cs_groups s \<noteq> []" by auto
  with report have "con_inv s'" using setConnectError_inv [of s "Some (g, i)" code m] by auto
  then show ?case by simp
next
  case (finish g i s c a dead p)
  then show ?case by (intro con_inv_task [OF finish(3)]) (auto intro: task_kept)
next
  case (listener g s s')
  have i: "con_inv s'" using listener by (intro con_inv_task [OF listener(6)]) auto
  moreover have "con_inv (snd (setConnectError None 501 msg_all_failed s'))"
    using i by (rule setConnectError_inv) (use listener in auto)
  ultimately show ?case by simp
next
  case (job k s rcv c j p)
  then show ?case by (intro con_inv_task [OF job(4)]) (auto intro: task_kept)
qed (auto simp: con_inv_def setConnectError_leave_def)

lemma con_reach_inv: "con_reach b rnd s s' \<Longrightarrow> con_inv s \<Longrightarrow> con_inv s'"
  by (induction rule: con_reach.induct) (auto intro: con_step_inv)

lemma con_reach_trans:
  assumes "con_reach b rnd s1 s2" and "con_reach b rnd s s1"
  shows "con_reach b rnd s s2"
  using assms by (induction rule: con_reach.induct) (auto intro: con_reach.step)

lemma con_reach_1: "con_step b rnd s s' \<Longrightarrow> con_reach b rnd s s'"
  using con_reach.step [OF con_reach.refl] by blast

lemma con_reach_Cons: "con_step b rnd s s1 \<Longrightarrow> con_reach b rnd s1 s2 \<Longrightarrow> con_reach b rnd s s2"
  using con_reach_trans con_reach_1 by blast

lemma receive_reconnects:
  assumes "cs_phase s = PSelect" and "cs_lock s = Sending ow code m"
  shows "\<exists>s'. con_reach b rnd s s' \<and> cs_phase s' = PRetry \<and> status s' \<and> cs_lock s' = Free \<and> cs_pool s' = cs_pool s \<and>
    consumeReceive s' = consumeReceive s"
proof -
  let ?s1 = "s\<lparr>cs_phase := PGot, cs_lock := Sent ow\<rparr>"
  let ?s2 = "return_task_of ow (setConnectError_leave ?s1)"
  let ?s3 = "?s2\<lparr>status := True, cs_phase := PRetry\<rparr>"
  have "con_step b rnd s ?s1" using assms by (rule con_step.receive)
  moreover have "con_step b rnd ?s1 ?s2" by (rule con_step.leave) simp
  moreover have "con_step b rnd ?s2 ?s3" by (rule con_step.mark) (simp_all add: setConnectError_leave_def)
  ultimately have "con_reach b rnd s ?s3" by (blast intro: con_reach_Cons)
  moreover have "consumeReceive ?s3 = consumeReceive s"
    by (simp add: return_task_of_def set_task_def setConnectError_leave_def split: option.split)
  ultimately show ?thesis
    by (intro exI [of _ ?s3]) (simp add: setConnectError_leave_def)
qed

lemma report_reconnects:
  assumes "con_inv s" and "cs_lock s = Sending ow code m"
  shows "\<exists>s'. con_reach b rnd s s' \<and> cs_phase s' = PRetry \<and> status s' \<and> cs_lock s' = Free \<and> cs_pool s' = cs_pool s \<and>
    consumeReceive s' = consumeReceive s"
proof (cases "cs_phase s = PSelect")
  case True
  then show ?thesis using assms(2) by (rule receive_reconnects)
next
  case False
  then have start: "cs_phase s = PStart" "conns_of (cs_pool s) RABBITMQ_TYPE_CONSUME \<noteq> []"
    using assms by (auto simp: con_inv_def)
  then have "con_step b rnd s (rConsume s)" by (intro con_step.launch)
  moreover have "cs_phase (rConsume s) = PSelect" "cs_lock (rConsume s) = Sending ow code m"
    "cs_pool (rConsume s) = cs_pool s" "consumeReceive (rConsume s) = consumeReceive s"
    using start assms(2) by (simp_all add: rConsume_def)
  ultimately show ?thesis using receive_reconnects [of "rConsume s" ow code m] by (metis con_reach_Cons)
qed

lemma retry_succeeds:
  assumes "con_inv s" and "cs_phase s = PRetry" and "cs_lock s = Free" and "\<And>tr u. answer b tr (Dial u) = None"
  shows "\<exists>s'. con_reach b rnd s s' \<and> cs_phase s' = PSelect \<and> \<not> status s' \<and>
    length (conns_of (cs_pool s') RABBITMQ_TYPE_CONSUME) = nat (sint (maxConnection (cs_pool s))) \<and>
    cs_groups s' = cs_groups s @ map (rListenerConsume (cs_pool s')) (consumeReceive s)"
proof -
  let ?s1 = "retryConsume b s"
  let ?s2 = "?s1\<lparr>status := False, cs_phase := PStart\<rparr>"
  have inv: "clientType (cs_pool s) = RABBITMQ_TYPE_CONSUME" "0 < sint (maxConnection (cs_pool s))"
    using assms(1) by (simp_all add: con_inv_def)
  note f = retryConsume_frame [OF assms(2) inv(1), of b]
  have d: "cs_phase ?s1 = PDone" "consumeReceive ?s1 = consumeReceive s"
  proof -
    let ?p = "cs_pool s"
    obtain h p2 where x: "rConnect b (?p\<lparr>consumeCurrentRetry := consumeCurrentRetry ?p + 1\<rparr>) = (Inr h, p2)"
      using assms(4) by (simp add: rConnect_dials amqp_open_def amqp_def)
    obtain p3 where "initConnections b p2 = (None, p3)"
      unfolding initConnections_def
      using init_loop_ok [of "sint (maxConnection p2)" 0 b "p2\<lparr>connections := (connections p2)(clientType p2 \<mapsto> [])\<rparr>"] assms(4) by auto
    with x show "cs_phase ?s1 = PDone" "consumeReceive ?s1 = consumeReceive s"
      by (simp_all add: retryConsume_def Let_def)
  qed
  have l: "length (conns_of (cs_pool ?s1) RABBITMQ_TYPE_CONSUME) = nat (sint (maxConnection (cs_pool s)))"
    using f(6) d(1) by simp
  have "con_step b rnd s ?s1" using assms(2) by (rule con_step.retry)
  moreover have "con_step b rnd ?s1 ?s2" using d(1) f(2) assms(3) by (intro con_step.unmark) simp_all
  moreover have "con_step b rnd ?s2 (rConsume ?s2)" by (rule con_step.launch) simp
  ultimately have "con_reach b rnd s (rConsume ?s2)" by (blast intro: con_reach_Cons)
  with l inv(2) d(2) f(3) show ?thesis by (intro exI [of _ "rConsume ?s2"]) (simp add: rConsume_def)
qed

definition consumer0 :: "rabbit_pool \<Rightarrow> consume_receive list \<Rightarrow> consumer" where
  "consumer0 p rcvs = \<lparr>cs_pool = p, consumeReceive = rcvs, status = False, cs_lock = Free, cs_phase = PStart,
     cs_groups = [], cs_jobs = []\<rparr>"

lemma consumer0_inv:
  "clientType p = RABBITMQ_TYPE_CONSUME \<Longrightarrow> 0 < sint (maxConnection p) \<Longrightarrow> con_inv (consumer0 p rcvs)"
  by (simp add: con_inv_def consumer0_def)

lemma kept_reach: "con_reach b rnd s s' \<Longrightarrow> con_inv s \<Longrightarrow> maxConnection (cs_pool s') = maxConnection (cs_pool s) \<and> consumeReceive s' = consumeReceive s"
proof (induction rule: con_reach.induct)
  case (step s s1 s2)
  have i: "con_inv s1" using con_reach_inv step by blast
  have "maxConnection (cs_pool s2) = maxConnection (cs_pool s1) \<and> consumeReceive s2 = consumeReceive s1"
    using step(2) i
  proof (induction rule: con_step.induct)
    case (retry s)
    then show ?case using retryConsume_frame(5) [of s b]
      by (auto simp: con_inv_def retryConsume_def Let_def split: sum.split option.split prod.split)
  qed (auto simp: rConsume_def return_task_of_def set_task_def setConnectError_leave_def setConnectError_def kept_def
      split: option.splits if_splits prod.splits dest!: task_kept)
  with step show ?case by simp
qed simp

subsection \<open>Lemmas: retries\<close>

lemma f64_exponent_less: "n < 2 ^ 53 \<Longrightarrow> f64_exponent n = 0"
  by (simp add: f64_exponent.simps)

lemma float64_exact: "n \<le> 2 ^ 53 \<Longrightarrow> float64 n = n"
proof (cases "n = 2 ^ 53")
  case True
  have "f64_exponent (2 ^ 53) = 1"
    by (subst f64_exponent.simps) (simp add: f64_exponent_less)
  then show ?thesis unfolding True by (simp add: float64_def)
next
  case False
  assume "n \<le> 2 ^ 53"
  with False have "n < 2 ^ 53" by simp
  then show ?thesis by (simp add: float64_def f64_exponent_less)
qed

lemma rand_Int_range:
  assumes "sint m = n" and "0 < n" and "\<And>m. 0 < m \<Longrightarrow> \<exists>v. rnd m = Some v \<and> 0 \<le> v \<and> v < m"
  shows "\<exists>v. rand_Int rnd m = Ret (word_of_int v) \<and> 0 \<le> v \<and> v < n"
  using assms(1,2) assms(3) [of n] by (auto simp: rand_Int_def)

text \<open>
  The life of a message that the consumer sends to the dead-letter queue: the broker hands the message
  back with the body and the headers it was sent with. The number of deliveries until no goroutine
  sends it again; \<open>None\<close> when the fuel does not suffice.
\<close>

fun deliveries ::
    "nat \<Rightarrow> broker \<Rightarrow> (int \<Rightarrow> int option) \<Rightarrow> consume_receive \<Rightarrow> nat \<Rightarrow> delivery \<Rightarrow> rabbit_pool \<Rightarrow> (nat \<times> rabbit_pool) outcome option" where
  "deliveries 0 b rnd rcv c d r = None"
| "deliveries (Suc k) b rnd rcv c d r = (case consume_delivery b rcv c d r of
     Panic \<Rightarrow> Some Panic
   | Ret ([], r1) \<Rightarrow> Some (Ret (1, r1))
   | Ret (j # js, r1) \<Rightarrow> (case run_job b rnd rcv c j r1 of
       Panic \<Rightarrow> Some Panic
     | Ret r2 \<Rightarrow> map_option (map_outcome (map_prod Suc id))
         (deliveries k b rnd rcv c \<lparr>d_tag = Suc (d_tag d), d_body = job_body j, d_headers = job_headers j\<rparr> r2)))"

lemma retry_expiration_Ret:
  assumes "\<And>m. 0 < m \<Longrightarrow> \<exists>v. rnd m = Some v \<and> 0 \<le> v \<and> v < m"
    and "minRandomRetryTime r = DEFAULT_RETRY_MIN_RANDOM_TIME" and "maxRandomRetryTime r = DEFAULT_RETRY_MAX_RADNOM_TIME"
  shows "\<exists>t. retry_expiration rnd r = Ret t"
proof -
  obtain v where "rnd 10001 = Some v" using assms(1) [of 10001] by auto
  then show ?thesis
    using assms(2,3) by (simp add: retry_expiration_def RandomAround_def rand_Int_def pool_consts)
qed

definition same_times :: "rabbit_pool \<Rightarrow> bool" where
  "same_times r \<longleftrightarrow> minRandomRetryTime r = DEFAULT_RETRY_MIN_RANDOM_TIME \<and>
     maxRandomRetryTime r = DEFAULT_RETRY_MAX_RADNOM_TIME"

lemma ConsumeRetry_job:
  assumes "\<And>m. 0 < m \<Longrightarrow> \<exists>v. rnd m = Some v \<and> 0 \<le> v \<and> v < m" and "same_times r"
  shows "\<exists>r'. run_job b rnd rcv c (ConsumeRetry n body) r = Ret r' \<and> same_times r' \<and> fails r' = fails r"
proof -
  obtain t where "retry_expiration rnd r = Ret t"
    using retry_expiration_Ret assms unfolding same_times_def by blast
  then show ?thesis
    using assms(2) by (auto simp: run_job_def amqp_def same_times_def split: option.split)
qed

lemma ClientRetry_job:
  assumes "\<And>m. 0 < m \<Longrightarrow> \<exists>v. rnd m = Some v \<and> 0 \<le> v \<and> v < m" and "same_times r"
  shows "\<exists>r'. run_job b rnd rcv c (ClientRetry h n body) r = Ret r' \<and> same_times r'"
proof -
  obtain t where "retry_expiration rnd r = Ret t"
    using retry_expiration_Ret assms unfolding same_times_def by blast
  then show ?thesis
    using assms(2) by (auto simp: run_job_def amqp_def same_times_def event_fail_def split: option.split)
qed

text \<open>A receiver that retries and whose callback always rejects; one whose callback accepts but pushes the message back.\<close>

definition rejects :: "consume_receive \<Rightarrow> bool" where
  "rejects rcv \<longleftrightarrow> cr_EventSuccess rcv = Some (\<lambda>_ _ _. (False, [])) \<and> IsTry rcv \<and> cr_EventFail rcv"

definition pushes_back :: "consume_receive \<Rightarrow> bool" where
  "pushes_back rcv \<longleftrightarrow> cr_EventSuccess rcv = Some (\<lambda>_ body _. (True, [ROpPush body]))"

lemma rejected_delivery:
  assumes "rejects rcv" and "retry_nums (d_headers d) = Ret n"
  shows "\<exists>cs. consume_delivery b rcv c d r =
    (if sint (MaxReTry rcv) \<le> sint (n + 1)
     then Ret ([], r\<lparr>calls := cs, fails := fails r @ [(RCODE_RETRY_MAX_ERROR, NewRabbitMqError RCODE_RETRY_MAX_ERROR msg_retry_max '''', d_body d)]\<rparr>)
     else Ret ([ConsumeRetry (n + 1) (d_body d)], r\<lparr>calls := cs\<rparr>))"
  using assms
  by (cases "IsAutoAck rcv")
    (auto simp: rejects_def consume_delivery_def Let_def amqp_def event_fail_def intro: exI [of _ "calls r"])

lemma rejected_deliveries:
  assumes rcv: "rejects rcv" and rnd: "\<And>m. 0 < m \<Longrightarrow> \<exists>v. rnd m = Some v \<and> 0 \<le> v \<and> v < m"
  shows "retry_nums (d_headers d) = Ret n \<Longrightarrow> 0 \<le> sint n \<Longrightarrow> sint n < sint (MaxReTry rcv) \<Longrightarrow> same_times r \<Longrightarrow>
    nat (sint (MaxReTry rcv) - sint n) \<le> k \<Longrightarrow>
    \<exists>r'. deliveries k b rnd rcv c d r = Some (Ret (nat (sint (MaxReTry rcv) - sint n), r')) \<and>
      fails r' = fails r @ [(RCODE_RETRY_MAX_ERROR, NewRabbitMqError RCODE_RETRY_MAX_ERROR msg_retry_max '''', d_body d)]"
proof (induction k arbitrary: d n r)
  case (Suc k)
  note [simp] = sint32_Suc [OF Suc.prems(2,3)]
  obtain cs where d: "consume_delivery b rcv c d r =
    (if sint (MaxReTry rcv) \<le> sint n + 1
     then Ret ([], r\<lparr>calls := cs, fails := fails r @ [(RCODE_RETRY_MAX_ERROR, NewRabbitMqError RCODE_RETRY_MAX_ERROR msg_retry_max '''', d_body d)]\<rparr>)
     else Ret ([ConsumeRetry (n + 1) (d_body d)], r\<lparr>calls := cs\<rparr>))"
    using rejected_delivery [OF rcv Suc.prems(1)] by fastforce
  show ?case
  proof (cases "sint (MaxReTry rcv) \<le> sint n + 1")
    case True
    with Suc.prems(3) have "nat (sint (MaxReTry rcv) - sint n) = 1" by simp
    with d True show ?thesis by simp
  next
    case False
    obtain r2 where r2: "run_job b rnd rcv c (ConsumeRetry (n + 1) (d_body d)) (r\<lparr>calls := cs\<rparr>) = Ret r2" "same_times r2"
      "fails r2 = fails r"
      using ConsumeRetry_job [OF rnd, of "r\<lparr>calls := cs\<rparr>"] Suc.prems(4) by (fastforce simp: same_times_def)
    let ?d = "\<lparr>d_tag = Suc (d_tag d), d_body = d_body d, d_headers = [(''retry_nums'', HInt32 (n + 1))]\<rparr>"
    have "\<exists>r'. deliveries k b rnd rcv c ?d r2 = Some (Ret (nat (sint (MaxReTry rcv) - (sint n + 1)), r')) \<and>
      fails r' = fails r2 @ [(RCODE_RETRY_MAX_ERROR, NewRabbitMqError RCODE_RETRY_MAX_ERROR msg_retry_max '''', d_body ?d)]"
      using Suc.IH [of ?d "n + 1" r2] Suc.prems False r2(2) by (simp add: retry_nums_def)
    moreover have "nat (sint (MaxReTry rcv) - sint n) = Suc (nat (sint (MaxReTry rcv) - (sint n + 1)))"
      using False by simp
    ultimately show ?thesis using d False r2 by (auto simp: job_headers_def job_body_def)
  qed
qed simp

lemma pushed_back_delivery:
  assumes "pushes_back rcv" and "retry_nums (d_headers d) = Ret n" and "sint (n + 1) < sint (MaxReTry rcv)"
  shows "\<exists>cs. consume_delivery b rcv c d r = Ret ([ClientRetry (d_headers d) (n + 1) (d_body d)], r\<lparr>calls := cs\<rparr>)"
  using assms
  by (cases "IsAutoAck rcv")
    (auto simp: pushes_back_def consume_delivery_def Let_def amqp_def newRetryClient_def retryClient_Push_def intro: exI [of _ "calls r"])

subsection \<open>Properties\<close>


text \<open>
  Retries through the retry client never end: \<^verbatim>\<open>retryClient.Push\<close> sends the message with the headers it
  came with instead of the counted ones, so a callback that pushes its message back gets it again for
  ever, whatever \<^verbatim>\<open>MaxReTry\<close> is above one: no number of deliveries is enough.
\<close>

theorem client_retry_unbounded:
  assumes "pushes_back rcv" and "\<And>m. 0 < m \<Longrightarrow> \<exists>v. rnd m = Some v \<and> 0 \<le> v \<and> v < m"
    and "map_of (d_headers d) ''retry_nums'' = None" and "1 < sint (MaxReTry rcv)" and "same_times r"
  shows "deliveries k b rnd rcv c d r = None"
  using assms(3,5)
proof (induction k arbitrary: d r)
  case (Suc k)
  have n: "retry_nums (d_headers d) = Ret 0" using Suc.prems(1) by (simp add: retry_nums_def)
  obtain cs where d: "consume_delivery b rcv c d r = Ret ([ClientRetry (d_headers d) 1 (d_body d)], r\<lparr>calls := cs\<rparr>)"
    using pushed_back_delivery [OF assms(1) n] assms(4) by fastforce
  obtain r2 where r2: "run_job b rnd rcv c (ClientRetry (d_headers d) 1 (d_body d)) (r\<lparr>calls := cs\<rparr>) = Ret r2" "same_times r2"
    using ClientRetry_job [OF assms(2), of "r\<lparr>calls := cs\<rparr>"] Suc.prems(2) by (fastforce simp: same_times_def)
  show ?case
    using d r2 Suc.IH [of "\<lparr>d_tag = Suc (d_tag d), d_body = d_body d, d_headers = d_headers d\<rparr>" r2] Suc.prems(1)
    by (simp add: job_headers_def job_body_def)
qed simp

text \<open>
  The random delay lies between its bounds: \<^verbatim>\<open>RandomAround(min, max)\<close> returns a value from \<open>min\<close> to \<open>max\<close>,
  negative bounds included, as long as the number of values fits an \<^verbatim>\<open>int64\<close> and a negative \<open>min\<close> is exact
  as a \<^verbatim>\<open>float64\<close>.
\<close>

theorem RandomAround_range:
  assumes "sint mn \<le> sint mx" and "sint mx - sint mn < 2 ^ 63 - 1" and "- (2 ^ 53) \<le> sint mn"
    and "\<And>m. 0 < m \<Longrightarrow> \<exists>v. rnd m = Some v \<and> 0 \<le> v \<and> v < m"
  shows "\<exists>v. RandomAround rnd mn mx = Ret (Inr v) \<and> sint mn \<le> sint v \<and> sint v \<le> sint mx"
proof -
  have mx: "sint mx < 2 ^ 63" using sint_lt [of mx] by simp
  have e: "word_of_int (sint mn) = mn" "word_of_int (sint mx) = mx" by simp_all
  show ?thesis
  proof (cases "sint mn < 0")
    case True
    let ?i = "word_of_int (- sint mn) :: 64 word"
    have f: "int (float64 (nat (- sint mn))) = - sint mn"
      using True assms(3) by (simp add: float64_exact)
    have "mx + 1 + ?i = word_of_int (sint mx + 1 - sint mn)" by (simp add: e)
    then have "sint (mx + 1 + ?i) = sint mx + 1 - sint mn"
      using assms(1,2) by (simp only:) (intro sint64_of_int, auto)
    then obtain v where v: "rand_Int rnd (mx + 1 + ?i) = Ret (word_of_int v)" "0 \<le> v" "v < sint mx + 1 - sint mn"
      using rand_Int_range [OF _ _ assms(4)] assms(1) by force
    have "word_of_int v - ?i = word_of_int (v + sint mn)" by simp
    moreover have "sint (word_of_int (v + sint mn) :: 64 word) = v + sint mn"
      using v(2,3) assms(3) mx by (intro sint64_of_int) auto
    moreover have "RandomAround rnd mn mx = bind_outcome (rand_Int rnd (mx + 1 + ?i)) (\<lambda>v. Ret (Inr (v - ?i)))"
      using True assms(1) unfolding RandomAround_def Let_def f by simp
    ultimately show ?thesis using v by (simp only: bind_outcome.simps) auto
  next
    case False
    have "mx - mn + 1 = word_of_int (sint mx - sint mn + 1)" by (simp add: e)
    then have "sint (mx - mn + 1) = sint mx - sint mn + 1"
      using assms(1,2) by (simp only:) (intro sint64_of_int, auto)
    then obtain v where v: "rand_Int rnd (mx - mn + 1) = Ret (word_of_int v)" "0 \<le> v" "v < sint mx - sint mn + 1"
      using rand_Int_range [OF _ _ assms(4)] assms(1) by force
    have "mn + word_of_int v = word_of_int (sint mn + v)" by (simp add: e)
    moreover have "sint (word_of_int (sint mn + v) :: 64 word) = sint mn + v"
      using v(2,3) False mx by (intro sint64_of_int) auto
    ultimately show ?thesis
      using assms(1) False v by (simp add: RandomAround_def Let_def)
  qed
qed

definition middle :: "int \<Rightarrow> int option" where
  "middle m = Some (m div 2)"

lemma middle_range: "0 < m \<Longrightarrow> \<exists>v. middle m = Some v \<and> 0 \<le> v \<and> v < m"
  by (auto simp: middle_def)

theorem RandomAround_range_witness:
  "\<exists>v. RandomAround middle (- 10) 10 = Ret (Inr v) \<and> - 10 \<le> sint v \<and> sint v \<le> 10"
  using RandomAround_range [of "- 10" 10 middle] middle_range by simp

subsection \<open>The server's receivers\<close>

text \<open>
  \<^verbatim>\<open>runRabbitmqConsume\<close> registers two receivers and runs the pool. \<open>exch\<close> is the configured blacklist exchange,
  \<open>ip\<close> and \<open>pname\<close> the configured address and process name, \<open>f\<close> the callback.
\<close>

definition consumeBlacklist ::
    "string \<Rightarrow> string \<Rightarrow> string \<Rightarrow> (amqp_call list \<Rightarrow> bytes \<Rightarrow> (string \<times> header) list \<Rightarrow> bool \<times> retry_op list) \<Rightarrow> consume_receive" where
  "consumeBlacklist exch ip pname f = \<lparr>cr_ExchangeName = exch, cr_ExchangeType = EXCHANGE_TYPE_FANOUT, cr_Route = '''',
     cr_QueueName = ''blackListMsg_'' @ ip @ ''_'' @ pname, cr_EventSuccess = Some f, cr_EventFail = True,
     IsTry = False, MaxReTry = 3, IsAutoAck = True\<rparr>"

definition consumeAuthEvent ::
    "string \<Rightarrow> string \<Rightarrow> (amqp_call list \<Rightarrow> bytes \<Rightarrow> (string \<times> header) list \<Rightarrow> bool \<times> retry_op list) \<Rightarrow> consume_receive" where
  "consumeAuthEvent ip pname f = \<lparr>cr_ExchangeName = '''', cr_ExchangeType = EXCHANGE_TYPE_DIRECT, cr_Route = '''',
     cr_QueueName = ''authEventMsg_'' @ ip @ ''_'' @ pname, cr_EventSuccess = Some f, cr_EventFail = True,
     IsTry = True, MaxReTry = 3, IsAutoAck = True\<rparr>"

definition runRabbitmqConsume :: "consume_receive \<Rightarrow> consume_receive \<Rightarrow> consumer \<Rightarrow> consumer outcome" where
  "runRabbitmqConsume black auth s =
     (case RunConsume (RegisterConsumeReceive (Some auth) (RegisterConsumeReceive (Some black) s)) of
        (Some e, s') \<Rightarrow> Panic | (None, s') \<Rightarrow> Ret s')"

text \<open>
  Where a message goes when it expires in the dead-letter queue declared for a receiver (RabbitMQ's
  rules): to the exchange of \<^verbatim>\<open>x-dead-letter-exchange\<close>, with the key of \<^verbatim>\<open>x-dead-letter-routing-key\<close> or, without
  one, the key it was published with. The default exchange, named by the empty string, hands a message
  to the queue whose name is its key.
\<close>

definition dead_letter_target :: "consume_receive \<Rightarrow> string \<times> string" where
  "dead_letter_target rcv =
     (let args = queue_args True (cr_ExchangeName rcv) (cr_Route rcv) in
      (case map_of args ''x-dead-letter-exchange'' of Some (AStr e) \<Rightarrow> e | _ \<Rightarrow> '''',
       case map_of args ''x-dead-letter-routing-key'' of Some (AStr k) \<Rightarrow> k | _ \<Rightarrow> deadRoute rcv))"

text \<open>
  Failed account events are lost: the receiver of account events asks for three tries, but its exchange
  and route are empty, so a message sent to its dead-letter queue expires to the default exchange with
  an empty key, which is not the name of the receiver's queue: it never comes back.
\<close>

theorem auth_event_retry_lost:
  "dead_letter_target (consumeAuthEvent ip pname f) = ('''', '''') \<and>
   cr_QueueName (consumeAuthEvent ip pname f) \<noteq> '''' \<and> IsTry (consumeAuthEvent ip pname f) \<and>
   MaxReTry (consumeAuthEvent ip pname f) = 3"
proof -
  have "TrimSpace '''' = ''''" by (simp add: TrimSpace_def)
  then show ?thesis
    by (simp add: dead_letter_target_def consumeAuthEvent_def queue_args_def Let_def deadRoute_def)
qed


text \<open>A run of one receiver with one task whose channel is closed by the broker.\<close>

definition demo_receive :: consume_receive where
  "demo_receive = consumeAuthEvent ''10.0.0.1'' ''p'' (\<lambda>_ _ _. (False, []))"

definition demo_consumer_pool :: rabbit_pool where
  "demo_consumer_pool = snd (Connect (restarting 0) ''h'' 5672 ''u'' ''p''
     (SetMaxConsumeChannel 1 (SetMaxConnection 1 NewConsumePool)))"

lemma demo_pool:
  "clientType demo_consumer_pool = RABBITMQ_TYPE_CONSUME" "maxConnection demo_consumer_pool = 1"
  "conns_of demo_consumer_pool RABBITMQ_TYPE_CONSUME = [0]" "same_times demo_consumer_pool"
  "\<exists>dead p. consumeTask_start (restarting 0) 0 demo_receive demo_consumer_pool = Ret (TLoop 1 0 dead, p)"
  by (simp_all add: demo_consumer_pool_def Connect_def SetMaxConnection_def SetMaxConsumeChannel_def NewConsumePool_def
      newRabbitPool_def pool_consts initConnections_def init_loop.simps rConnect_dials amqp_open_def amqp_def add_conn_def
      conns_of_def restarting_def same_times_def consumeTask_start_def getConnection_def RoundRobin_single Let_def
      rCreateChannel_def rDeclare_def demo_receive_def consumeAuthEvent_def declare_dead_def rem32_def consume_from_def
      deadExchange_def deadQueue_def deadRoute_def)

lemma demo_reach:
  "\<exists>s m. con_reach (restarting 0) middle (consumer0 demo_consumer_pool [demo_receive]) s \<and>
     cs_lock s = Sending (Some (0, 0)) 320 m"
proof -
  let ?b = "restarting 0"
  let ?s0 = "consumer0 demo_consumer_pool [demo_receive]"
  let ?s1 = "rConsume ?s0"
  obtain dead p where st: "consumeTask_start ?b 0 demo_receive demo_consumer_pool = Ret (TLoop 1 0 dead, p)"
    using demo_pool(5) by blast
  let ?s2 = "set_task 0 0 (Looping 1 0 dead) (?s1\<lparr>cs_pool := p\<rparr>)"
  let ?ev = "Notify (Some \<lparr>err_code = 320, err_text = ''closed''\<rparr>)"
  obtain m p' where ev: "consumeTask_step ?b demo_receive 1 ?ev p = Ret (TDone 320 m, p')"
    by (simp add: consumeTask_step_def)
  let ?s3 = "set_task 0 0 (Reporting 1 0 dead 320 m) (?s2\<lparr>cs_pool := p'\<rparr>)"
  have s1: "cs_pool ?s1 = demo_consumer_pool" "cs_groups ?s1 = [rListenerConsume demo_consumer_pool demo_receive]"
    "cs_phase ?s1 = PSelect" "status ?s1 = False" "cs_lock ?s1 = Free"
    using demo_pool(3) by (simp_all add: rConsume_def consumer0_def)
  have g: "g_tasks (rListenerConsume demo_consumer_pool demo_receive) = [Starting 0]"
    "g_receive (rListenerConsume demo_consumer_pool demo_receive) = demo_receive"
    by (simp_all add: rListenerConsume_def demo_consumer_pool_def Connect_def SetMaxConnection_def SetMaxConsumeChannel_def
        NewConsumePool_def newRabbitPool_def pool_consts initConnections_def init_loop.simps rConnect_dials amqp_open_def
        amqp_def add_conn_def restarting_def)
  have "con_step ?b middle ?s0 ?s1" by (rule con_step.launch) (simp add: consumer0_def)
  moreover have "con_step ?b middle ?s1 ?s2"
    using st by (intro con_step.start [where num = 0]) (simp_all add: s1 g)
  moreover have "con_step ?b middle ?s2 ?s3"
    using ev by (intro con_step.closed [where c = 1 and a = 0 and dead = dead and ev = ?ev]) (simp_all add: set_task_def s1 g)
  moreover have "con_step ?b middle ?s3 (snd (setConnectError (Some (0, 0)) 320 m ?s3))"
    using con_step.report [of 0 ?s3 0 1 0 dead 320 m False] by (simp add: setConnectError_def set_task_def s1 g)
  ultimately have "con_reach ?b middle ?s0 (snd (setConnectError (Some (0, 0)) 320 m ?s3))"
    by (blast intro: con_reach_Cons)
  moreover have "cs_lock (snd (setConnectError (Some (0, 0)) 320 m ?s3)) = Sending (Some (0, 0)) 320 m"
    by (simp add: setConnectError_def s1)
  ultimately show ?thesis by blast
qed



theorem client_retry_unbounded_witness:
  "deliveries 1000 (restarting 0) middle (demo_receive\<lparr>cr_EventSuccess := Some (\<lambda>_ body _. (True, [ROpPush body]))\<rparr>) 1
     \<lparr>d_tag = 1, d_body = [7], d_headers = []\<rparr> demo_consumer_pool = None"
  by (rule client_retry_unbounded [OF _ middle_range])
    (simp_all add: pushes_back_def demo_receive_def consumeAuthEvent_def demo_pool)

end
