(* ===== verification/TaskManager.thy ===== *)
theory TaskManager
  imports Prelude
begin

text \<open>
  \<^verbatim>\<open>utils/taskConsumerManager/manager.go\<close>: the manager starts, for every task, a dispatcher goroutine that keeps up to \<open>count\<close> workers running the
  task's function until the context is cancelled.

  A dispatcher's program counter is its \<open>dispatch_pc\<close>; \<open>d_slots\<close> is the number of tokens in its channel
  \<^verbatim>\<open>tChan\<close>, \<open>d_running\<close> the workers inside the function (the inner wait group), \<open>d_releasing\<close> those that have
  left it and not yet taken their token back. Which functions can return is given by \<open>returns\<close>.
\<close>

datatype dispatch_pc =
    DSelect   \<comment> \<open>at the outer select\<close>
  | DChecked  \<comment> \<open>holds a token, at the second select\<close>
  | DSpawn    \<comment> \<open>about to start a worker\<close>
  | DWait     \<comment> \<open>in the deferred wait for its workers\<close>
  | DGone     \<comment> \<open>has signalled the manager's wait group\<close>

record dispatcher =
  d_task :: string
  d_count :: nat
  d_pc :: dispatch_pc
  d_slots :: nat
  d_running :: nat
  d_releasing :: nat
  d_kept :: nat

record task_manager =
  cancelled :: bool
  dispatchers :: "dispatcher list"

definition New_tcm :: task_manager where
  "New_tcm = \<lparr>cancelled = False, dispatchers = []\<rparr>"

definition new_dispatcher :: "nat \<Rightarrow> string \<Rightarrow> dispatcher" where
  "new_dispatcher count fc = \<lparr>d_task = fc, d_count = count, d_pc = DSelect, d_slots = 0, d_running = 0,
     d_releasing = 0, d_kept = 0\<rparr>"

definition AddTask :: "nat \<Rightarrow> string \<Rightarrow> task_manager \<Rightarrow> task_manager" where
  "AddTask count fc m =
     (if cancelled m then m else m\<lparr>dispatchers := dispatchers m @ [new_dispatcher count fc]\<rparr>)"

text \<open>The steps of one dispatcher and its workers; \<open>c\<close> is whether the context is cancelled.\<close>

inductive d_step :: "(string \<Rightarrow> bool) \<Rightarrow> bool \<Rightarrow> dispatcher \<Rightarrow> dispatcher \<Rightarrow> bool" for returns c where
  stop: "c \<Longrightarrow> d_pc d = DSelect \<Longrightarrow> d_step returns c d (d\<lparr>d_pc := DWait\<rparr>)"
| token: "d_pc d = DSelect \<Longrightarrow> d_slots d < d_count d \<Longrightarrow>
    d_step returns c d (d\<lparr>d_pc := DChecked, d_slots := Suc (d_slots d)\<rparr>)"
| stop2: "c \<Longrightarrow> d_pc d = DChecked \<Longrightarrow> d_step returns c d (d\<lparr>d_pc := DWait, d_kept := 1\<rparr>)"
| go: "\<not> c \<Longrightarrow> d_pc d = DChecked \<Longrightarrow> d_step returns c d (d\<lparr>d_pc := DSpawn\<rparr>)"
| spawn: "d_pc d = DSpawn \<Longrightarrow> d_step returns c d (d\<lparr>d_pc := DSelect, d_running := Suc (d_running d)\<rparr>)"
| finish: "returns (d_task d) \<Longrightarrow> 0 < d_running d \<Longrightarrow>
    d_step returns c d (d\<lparr>d_running := d_running d - 1, d_releasing := Suc (d_releasing d)\<rparr>)"
| release: "0 < d_releasing d \<Longrightarrow>
    d_step returns c d (d\<lparr>d_releasing := d_releasing d - 1, d_slots := d_slots d - 1\<rparr>)"
| gone: "d_pc d = DWait \<Longrightarrow> d_running d = 0 \<Longrightarrow> d_step returns c d (d\<lparr>d_pc := DGone\<rparr>)"

inductive_cases d_stepE: "d_step returns c d d'"

text \<open>\<^verbatim>\<open>Stop\<close> cancels the context and waits until every dispatcher has gone.\<close>

definition Stop_cancel :: "task_manager \<Rightarrow> task_manager" where
  "Stop_cancel m = m\<lparr>cancelled := True\<rparr>"

definition Stop_returns :: "task_manager \<Rightarrow> bool" where
  "Stop_returns m \<longleftrightarrow> cancelled m \<and> list_all (\<lambda>d. d_pc d = DGone) (dispatchers m)"

inductive tm_step :: "(string \<Rightarrow> bool) \<Rightarrow> task_manager \<Rightarrow> task_manager \<Rightarrow> bool" for returns where
  add: "tm_step returns m (AddTask count fc m)"
| cancel: "tm_step returns m (Stop_cancel m)"
| dispatch: "i < length (dispatchers m) \<Longrightarrow> d_step returns (cancelled m) (dispatchers m ! i) d' \<Longrightarrow>
    tm_step returns m (m\<lparr>dispatchers := (dispatchers m)[i := d']\<rparr>)"

inductive tm_reach :: "(string \<Rightarrow> bool) \<Rightarrow> task_manager \<Rightarrow> task_manager \<Rightarrow> bool" for returns where
  refl [intro!]: "tm_reach returns m m"
| step: "tm_reach returns m m1 \<Longrightarrow> tm_step returns m1 m2 \<Longrightarrow> tm_reach returns m m2"

subsection \<open>Invariant\<close>

definition d_inv :: "bool \<Rightarrow> dispatcher \<Rightarrow> bool" where
  "d_inv c d \<longleftrightarrow> d_slots d = d_running d + d_releasing d + d_kept d + (if d_pc d \<in> {DChecked, DSpawn} then 1 else 0) \<and>
     d_slots d \<le> d_count d \<and> (d_pc d \<in> {DWait, DGone} \<longrightarrow> c) \<and> (d_pc d = DGone \<longrightarrow> d_running d = 0) \<and>
     (d_pc d \<notin> {DWait, DGone} \<longrightarrow> d_kept d = 0)"

definition tm_inv :: "task_manager \<Rightarrow> bool" where
  "tm_inv m \<longleftrightarrow> (\<forall>d \<in> set (dispatchers m). d_inv (cancelled m) d)"

lemma d_step_inv: "d_step returns c d d' \<Longrightarrow> d_inv c d \<Longrightarrow> d_inv c d'"
  by (erule d_step.cases) (auto simp: d_inv_def split: if_splits)

lemma d_inv_cancel: "d_inv c d \<Longrightarrow> d_inv True d"
  by (auto simp: d_inv_def)

lemma new_dispatcher_inv: "d_inv c (new_dispatcher count fc)"
  by (simp add: d_inv_def new_dispatcher_def)

lemma tm_step_inv: "tm_step returns m m' \<Longrightarrow> tm_inv m \<Longrightarrow> tm_inv m'"
proof (induction rule: tm_step.induct)
  case (dispatch i m d')
  then have "d_inv (cancelled m) (dispatchers m ! i)" by (auto simp: tm_inv_def)
  with dispatch have "d_inv (cancelled m) d'" by (auto intro: d_step_inv)
  with dispatch(3) show ?case
    by (auto simp: tm_inv_def dest: set_update_subset_insert [THEN subsetD])
qed (auto simp: tm_inv_def AddTask_def Stop_cancel_def new_dispatcher_inv intro: d_inv_cancel)

lemma tm_reach_inv: "tm_reach returns m m' \<Longrightarrow> tm_inv m \<Longrightarrow> tm_inv m'"
  by (induction rule: tm_reach.induct) (auto intro: tm_step_inv)

lemma New_tcm_inv: "tm_inv New_tcm"
  by (simp add: tm_inv_def New_tcm_def)

lemma tm_reach_trans: "tm_reach returns m1 m2 \<Longrightarrow> tm_reach returns m m1 \<Longrightarrow> tm_reach returns m m2"
  by (induction rule: tm_reach.induct) (auto intro: tm_reach.step)

subsection \<open>Stopping\<close>

inductive d_steps :: "(string \<Rightarrow> bool) \<Rightarrow> bool \<Rightarrow> dispatcher \<Rightarrow> dispatcher \<Rightarrow> bool" for returns c where
  refl [intro!]: "d_steps returns c d d"
| step: "d_step returns c d d1 \<Longrightarrow> d_steps returns c d1 d2 \<Longrightarrow> d_steps returns c d d2"

lemma d_step_task: "d_step returns c d d' \<Longrightarrow> d_task d' = d_task d"
  by (erule d_step.cases) auto

text \<open>With the context cancelled, a dispatcher whose function returns can leave, from any program counter.\<close>

lemma d_wait_gone:
  "d_pc d = DWait \<Longrightarrow> returns (d_task d) \<Longrightarrow> \<exists>d'. d_steps returns True d d' \<and> d_pc d' = DGone"
proof (induction "d_running d" arbitrary: d)
  case 0
  then have "d_step returns True d (d\<lparr>d_pc := DGone\<rparr>)" by (intro d_step.gone) auto
  then show ?case by (auto intro: d_steps.step)
next
  case (Suc n)
  let ?d = "d\<lparr>d_running := d_running d - 1, d_releasing := Suc (d_releasing d)\<rparr>"
  have "d_step returns True d ?d" using Suc by (intro d_step.finish) auto
  moreover have "n = d_running ?d" using Suc.hyps(2) by simp
  then have "\<exists>d'. d_steps returns True ?d d' \<and> d_pc d' = DGone"
    by (rule Suc.hyps(1)) (use Suc.prems in simp_all)
  ultimately show ?case by (blast intro: d_steps.step)
qed

lemma d_to_gone:
  assumes "returns (d_task d)"
  shows "\<exists>d'. d_steps returns True d d' \<and> d_pc d' = DGone"
proof -
  have select: "\<exists>d'. d_steps returns True e d' \<and> d_pc d' = DGone" if "d_pc e = DSelect" "returns (d_task e)" for e
  proof -
    have "d_step returns True e (e\<lparr>d_pc := DWait\<rparr>)" using that by (intro d_step.stop) auto
    then show ?thesis using d_wait_gone [of "e\<lparr>d_pc := DWait\<rparr>"] that by (auto intro: d_steps.step)
  qed
  show ?thesis
  proof (cases "d_pc d")
    case DChecked
    then have "d_step returns True d (d\<lparr>d_pc := DWait, d_kept := 1\<rparr>)" by (intro d_step.stop2) auto
    then show ?thesis using d_wait_gone [of "d\<lparr>d_pc := DWait, d_kept := 1\<rparr>"] assms by (auto intro: d_steps.step)
  next
    case DSpawn
    then have "d_step returns True d (d\<lparr>d_pc := DSelect, d_running := Suc (d_running d)\<rparr>)" by (rule d_step.spawn)
    then show ?thesis using select [of "d\<lparr>d_pc := DSelect, d_running := Suc (d_running d)\<rparr>"] assms by (auto intro: d_steps.step)
  qed (use assms select d_wait_gone in auto)
qed

lemma d_steps_reach:
  assumes "d_steps returns c d d'" and "cancelled m = c" and "i < length (dispatchers m)" and "dispatchers m ! i = d"
  shows "tm_reach returns m (m\<lparr>dispatchers := (dispatchers m)[i := d']\<rparr>)"
  using assms
proof (induction arbitrary: m rule: d_steps.induct)
  case (refl d)
  then have "m\<lparr>dispatchers := (dispatchers m)[i := d]\<rparr> = m" by auto
  then show ?case by auto
next
  case (step d d1 d2)
  let ?m = "m\<lparr>dispatchers := (dispatchers m)[i := d1]\<rparr>"
  have "tm_step returns m ?m" using step by (intro tm_step.dispatch) auto
  then have "tm_reach returns m ?m" using tm_reach.step [OF tm_reach.refl] by blast
  moreover have "tm_reach returns ?m (?m\<lparr>dispatchers := (dispatchers ?m)[i := d2]\<rparr>)"
    using step by (intro step(3)) auto
  ultimately show ?case using tm_reach_trans by fastforce
qed

lemma stop_some:
  assumes "cancelled m" and "\<And>d. d \<in> set (dispatchers m) \<Longrightarrow> returns (d_task d)" and "k \<le> length (dispatchers m)"
  shows "\<exists>m'. tm_reach returns m m' \<and> cancelled m' \<and> length (dispatchers m') = length (dispatchers m) \<and>
    (\<forall>i < k. d_pc (dispatchers m' ! i) = DGone) \<and> (\<forall>i. k \<le> i \<longrightarrow> dispatchers m' ! i = dispatchers m ! i)"
  using assms(3)
proof (induction k)
  case (Suc k)
  then obtain m1 where m1: "tm_reach returns m m1" "cancelled m1" "length (dispatchers m1) = length (dispatchers m)"
    "\<forall>i < k. d_pc (dispatchers m1 ! i) = DGone" "\<forall>i. k \<le> i \<longrightarrow> dispatchers m1 ! i = dispatchers m ! i"
    by auto
  have "returns (d_task (dispatchers m1 ! k))" using assms(2) m1(5) Suc.prems by simp
  then obtain d' where d': "d_steps returns (cancelled m1) (dispatchers m1 ! k) d'" "d_pc d' = DGone"
    using d_to_gone m1(2) by (metis (full_types))
  have "tm_reach returns m1 (m1\<lparr>dispatchers := (dispatchers m1)[k := d']\<rparr>)"
    using d'(1) m1(3) Suc.prems by (intro d_steps_reach) auto
  with m1 d'(2) Suc.prems show ?case
    by (intro exI [of _ "m1\<lparr>dispatchers := (dispatchers m1)[k := d']\<rparr>"])
      (auto simp: nth_list_update less_Suc_eq intro: tm_reach_trans)
qed (use assms in auto)

lemma gone_stays:
  assumes "tm_step returns m m'" and "Stop_returns m"
  shows "Stop_returns m'"
  using assms
proof (induction rule: tm_step.induct)
  case (dispatch i m d')
  then have "d_pc (dispatchers m ! i) = DGone" by (auto simp: Stop_returns_def list_all_iff)
  with dispatch(2) have "d_pc d' = DGone" by (auto elim!: d_step.cases)
  with dispatch show ?case
    by (auto simp: Stop_returns_def list_all_iff dest: set_update_subset_insert [THEN subsetD])
qed (auto simp: Stop_returns_def AddTask_def Stop_cancel_def)

text \<open>A worker that never returns keeps its dispatcher.\<close>

definition stuck_worker :: "(string \<Rightarrow> bool) \<Rightarrow> task_manager \<Rightarrow> bool" where
  "stuck_worker returns m \<longleftrightarrow> (\<exists>d \<in> set (dispatchers m). \<not> returns (d_task d) \<and> 0 < d_running d)"

lemma stuck_worker_step:
  assumes "tm_step returns m m'" and "stuck_worker returns m"
  shows "stuck_worker returns m'"
  using assms
proof (induction rule: tm_step.induct)
  case (dispatch i m d')
  from dispatch(3) obtain j where j: "j < length (dispatchers m)" "\<not> returns (d_task (dispatchers m ! j))"
    "0 < d_running (dispatchers m ! j)"
    by (auto simp: stuck_worker_def in_set_conv_nth)
  show ?case
  proof (cases "i = j")
    case True
    with dispatch(2) j have "\<not> returns (d_task d') \<and> 0 < d_running d'" by (auto elim!: d_step.cases)
    with True dispatch(1) show ?thesis by (auto simp: stuck_worker_def set_update_memI)
  next
    case False
    with j have "dispatchers m ! j \<in> set ((dispatchers m)[i := d'])"
      by (metis length_list_update nth_list_update_neq nth_mem)
    with j show ?thesis by (auto simp: stuck_worker_def)
  qed
qed (auto simp: stuck_worker_def AddTask_def Stop_cancel_def)

subsection \<open>The server's tasks\<close>

definition AcceptAmount :: nat where "AcceptAmount = 2"

text \<open>The calls of \<^verbatim>\<open>AddTask\<close> in \<^verbatim>\<open>StartIpv4\<close> and \<^verbatim>\<open>StartIpv6\<close>; \<open>ss\<close> is \<^verbatim>\<open>OpenShadowSocks\<close>.\<close>

definition ipv4_tasks :: "bool \<Rightarrow> task_manager \<Rightarrow> task_manager" where
  "ipv4_tasks ss m =
     (let m1 = AddTask AcceptAmount ''tcpAccept'' m;
          m2 = (if ss then AddTask 1 ''shadowSocksListenerAccept'' m1 else m1);
          m3 = AddTask 1 ''runNacosConfServer'' m2
      in AddTask 1 ''runRabbitmqConsume'' m3)"

definition ipv6_tasks :: "task_manager \<Rightarrow> task_manager" where
  "ipv6_tasks m = AddTask 1 ''runRabbitmqConsume''
     (AddTask 1 ''runNacosConfServer'' (AddTask AcceptAmount ''tcpAccept'' m))"

lemma stuck_not_stopped: "stuck_worker returns m \<Longrightarrow> tm_inv m \<Longrightarrow> \<not> Stop_returns m"
  by (auto simp: stuck_worker_def tm_inv_def d_inv_def Stop_returns_def list_all_iff)

subsection \<open>Properties\<close>

text \<open>
  A task never has more workers than asked for: in every state of the manager, at most \<open>count\<close> calls of
  a task's function run at the same time.
\<close>

theorem task_workers_bounded:
  assumes "tm_reach returns New_tcm m" and "i < length (dispatchers m)"
  shows "d_running (dispatchers m ! i) \<le> d_count (dispatchers m ! i)"
proof -
  have "tm_inv m" using assms(1) New_tcm_inv by (rule tm_reach_inv)
  with assms(2) have "d_inv (cancelled m) (dispatchers m ! i)" by (simp add: tm_inv_def)
  then show ?thesis by (simp add: d_inv_def)
qed

lemma ipv4_tasks_reach: "tm_reach returns m (ipv4_tasks ss m)"
  unfolding ipv4_tasks_def Let_def
  by (auto intro!: tm_reach.step [OF _ tm_step.add] intro: tm_reach.refl)

lemma ipv6_tasks_reach: "tm_reach returns m (ipv6_tasks m)"
  unfolding ipv6_tasks_def
  by (auto intro!: tm_reach.step [OF _ tm_step.add] intro: tm_reach.refl)

text \<open>A worker of the task with number \<open>i\<close> starts: the dispatcher takes a token, checks the context and spawns.\<close>

lemma worker_starts:
  assumes "i < length (dispatchers m)" and "\<not> cancelled m" and "d_pc (dispatchers m ! i) = DSelect"
    and "d_slots (dispatchers m ! i) < d_count (dispatchers m ! i)"
  shows "\<exists>d. tm_reach returns m (m\<lparr>dispatchers := (dispatchers m)[i := d]\<rparr>) \<and> d_task d = d_task (dispatchers m ! i) \<and>
    d_count d = d_count (dispatchers m ! i) \<and> 0 < d_running d"
proof -
  let ?d = "dispatchers m ! i"
  let ?d1 = "?d\<lparr>d_pc := DChecked, d_slots := Suc (d_slots ?d)\<rparr>"
  let ?d2 = "?d1\<lparr>d_pc := DSpawn\<rparr>"
  let ?d3 = "?d2\<lparr>d_pc := DSelect, d_running := Suc (d_running ?d2)\<rparr>"
  have "d_step returns (cancelled m) ?d ?d1" using assms(3,4) by (rule d_step.token)
  moreover have "d_step returns (cancelled m) ?d1 ?d2" using assms(2) by (intro d_step.go) simp_all
  moreover have "d_step returns (cancelled m) ?d2 ?d3" by (rule d_step.spawn) simp
  ultimately have "d_steps returns (cancelled m) ?d ?d3" by (blast intro: d_steps.step)
  then have "tm_reach returns m (m\<lparr>dispatchers := (dispatchers m)[i := ?d3]\<rparr>)"
    using assms(1) by (intro d_steps_reach) auto
  then show ?thesis by (intro exI [of _ ?d3]) simp
qed

lemma consumer_worker_starts:
  "\<exists>d. tm_reach returns New_tcm ((ipv4_tasks False New_tcm)\<lparr>dispatchers := (dispatchers (ipv4_tasks False New_tcm))[2 := d]\<rparr>) \<and>
     d_task d = ''runRabbitmqConsume'' \<and> d_count d = 1 \<and> 0 < d_running d"
  using worker_starts [of 2 "ipv4_tasks False New_tcm" returns] ipv4_tasks_reach [of returns New_tcm False]
  by (auto simp: ipv4_tasks_def AddTask_def New_tcm_def new_dispatcher_def numeral_2_eq_2 intro: tm_reach_trans)

theorem task_workers_bounded_witness:
  "\<exists>m. tm_reach (\<lambda>_. True) New_tcm m \<and> length (dispatchers m) = 3 \<and> d_count (dispatchers m ! 2) = 1 \<and>
     0 < d_running (dispatchers m ! 2) \<and> d_running (dispatchers m ! 2) \<le> 1"
proof -
  obtain d where d: "tm_reach (\<lambda>_. True) New_tcm ((ipv4_tasks False New_tcm)\<lparr>dispatchers := (dispatchers (ipv4_tasks False New_tcm))[2 := d]\<rparr>)"
    "d_count d = 1" "0 < d_running d"
    using consumer_worker_starts by blast
  have l: "length (dispatchers (ipv4_tasks False New_tcm)) = 3"
    by (simp add: ipv4_tasks_def AddTask_def New_tcm_def)
  have "d_running d \<le> 1" using task_workers_bounded [OF d(1), of 2] d(2) l by simp
  with d l show ?thesis
    by (intro exI [of _ "(ipv4_tasks False New_tcm)\<lparr>dispatchers := (dispatchers (ipv4_tasks False New_tcm))[2 := d]\<rparr>"]) simp
qed

text \<open>
  \<^verbatim>\<open>Stop\<close> can always finish when the task functions return: from any state of the manager whose context
  is cancelled, the dispatchers can leave; and once \<^verbatim>\<open>Stop\<close> has returned, no function of a task is running
  and none is ever started again, whatever is added.
\<close>

lemma stop_completes:
  assumes "tm_reach returns New_tcm m" and "cancelled m" and "\<And>fc. returns fc"
  shows "\<exists>m'. tm_reach returns m m' \<and> Stop_returns m' \<and>
    (\<forall>m''. tm_reach returns m' m'' \<longrightarrow> Stop_returns m'' \<and> list_all (\<lambda>d. d_running d = 0) (dispatchers m''))"
proof -
  obtain m' where m': "tm_reach returns m m'" "cancelled m'" "length (dispatchers m') = length (dispatchers m)"
    "\<forall>i < length (dispatchers m). d_pc (dispatchers m' ! i) = DGone"
    using stop_some [OF assms(2), of returns "length (dispatchers m)"] assms(3) by auto
  then have s: "Stop_returns m'" by (auto simp: Stop_returns_def list_all_length)
  have i: "tm_inv m'" using tm_reach_trans [OF m'(1) assms(1)] New_tcm_inv by (rule tm_reach_inv)
  have "Stop_returns m'' \<and> list_all (\<lambda>d. d_running d = 0) (dispatchers m'')" if "tm_reach returns m' m''" for m''
  proof -
    have "Stop_returns m''" using that s by (induction rule: tm_reach.induct) (auto intro: gone_stays)
    moreover have "tm_inv m''" using that i by (rule tm_reach_inv)
    ultimately show ?thesis by (auto simp: Stop_returns_def tm_inv_def d_inv_def list_all_iff)
  qed
  with m'(1) s show ?thesis by blast
qed

end
