(* ===== verification/Nacos.thy ===== *)
theory Nacos
  imports Manager
begin

text \<open>
  \<^verbatim>\<open>server/nacos_config.go\<close>: reading the remote configuration, keeping it up to date, and pushing new limits
  to the connected users. The Viper client is a parameter: the record \<open>viper_ops\<close> holds its calls, on a
  client of type \<open>'v\<close>, each of which may panic; \<open>None\<close> is a nil error. \<^verbatim>\<open>Unmarshal\<close> fills a new
  \<^verbatim>\<open>NacosConfig\<close>.
\<close>

record 'v viper_ops =
  viper_New :: 'v
  AddRemoteProvider :: "string \<Rightarrow> 'v \<Rightarrow> (string option \<times> 'v) outcome"
  ReadRemoteConfig :: "'v \<Rightarrow> (string option \<times> 'v) outcome"
  WatchRemoteConfigOnChannel :: "'v \<Rightarrow> (string option \<times> 'v) outcome"
  WatchRemoteConfig :: "'v \<Rightarrow> (string option \<times> 'v) outcome"
  Unmarshal :: "'v \<Rightarrow> (string + nacos_config) outcome"

record nacos_conf =
  nc_Url :: string
  nc_Port :: int

text \<open>The manager's fields: \<^verbatim>\<open>nacosConfig\<close>, \<^verbatim>\<open>viperClient\<close>, and whether \<^verbatim>\<open>nacosRespChan\<close> has been set.\<close>

record 'v nacos_state =
  nacosConfig :: nacos_config
  viperClient :: 'v
  nacosRespChan :: bool

definition setNacosConf :: "nacos_config \<Rightarrow> 'v nacos_state \<Rightarrow> 'v nacos_state" where
  "setNacosConf c s = s\<lparr>nacosConfig := c\<rparr>"

definition getNacosConf :: "'v nacos_state \<Rightarrow> nacos_config" where
  "getNacosConf s = nacosConfig s"

text \<open>
  \<^verbatim>\<open>tryInitNacosConf\<close>: the steps in order; an error returns false, a panic is recovered and returns false
  too, with what was assigned before it.
\<close>

definition viper_call ::
    "('v \<Rightarrow> (string option \<times> 'v) outcome) \<Rightarrow> ('v nacos_state \<Rightarrow> bool \<times> 'v nacos_state) \<Rightarrow>
     'v nacos_state \<Rightarrow> bool \<times> 'v nacos_state" where
  "viper_call f next s = (case f (viperClient s) of
     Panic \<Rightarrow> (False, s)
   | Ret (Some e, v) \<Rightarrow> (False, s\<lparr>viperClient := v\<rparr>)
   | Ret (None, v) \<Rightarrow> next (s\<lparr>viperClient := v\<rparr>))"

definition tryInitNacosConf :: "'v viper_ops \<Rightarrow> nacos_conf \<Rightarrow> 'v nacos_state \<Rightarrow> bool \<times> 'v nacos_state" where
  "tryInitNacosConf ops conf s0 =
     (let s = s0\<lparr>viperClient := viper_New ops\<rparr> in
      viper_call (AddRemoteProvider ops (nc_Url conf @ '':'' @ itoa_int (nc_Port conf)))
       (viper_call (ReadRemoteConfig ops) (\<lambda>s.
         viper_call (WatchRemoteConfigOnChannel ops)
          (viper_call (WatchRemoteConfig ops) (\<lambda>s. case Unmarshal ops (viperClient s) of
             Panic \<Rightarrow> (False, s)
           | Ret (Inl e) \<Rightarrow> (False, s)
           | Ret (Inr c) \<Rightarrow> (True, setNacosConf c s)))
          (s\<lparr>nacosRespChan := True\<rparr>))) s)"

definition initNacosConf :: "'v viper_ops \<Rightarrow> nacos_conf \<Rightarrow> 'v nacos_state \<Rightarrow> bool \<times> 'v nacos_state" where
  "initNacosConf ops conf s = tryInitNacosConf ops conf (setNacosConf default_nacos s)"

text \<open>
  \<^verbatim>\<open>initNacosConfAsync\<close> tries until it succeeds, sleeping after every failure; \<open>opss i\<close> is what the remote
  side answers at attempt \<open>i\<close>. The result is the number of the last attempt, the delays in nanoseconds (an
  \<^verbatim>\<open>int64\<close>) and the state; \<open>None\<close> when it never succeeds.
\<close>

definition baseDelay :: "64 word" where "baseDelay = 1000000000"
definition maxDelay :: "64 word" where "maxDelay = 30000000000"

definition retry_delay :: "nat \<Rightarrow> 64 word" where
  "retry_delay attempt = (let delay = of_nat (attempt + 1) * baseDelay in
     if sint maxDelay < sint delay then maxDelay else delay)"

partial_function (option) initNacosConfAsync ::
    "(nat \<Rightarrow> 'v viper_ops) \<Rightarrow> nacos_conf \<Rightarrow> nat \<Rightarrow> 'v nacos_state \<Rightarrow> (nat \<times> 64 word list \<times> 'v nacos_state) option" where
  "initNacosConfAsync opss conf attempt s =
     (let r = tryInitNacosConf (opss attempt) conf s in
      if fst r then Some (attempt, [], snd r)
      else Option.bind (initNacosConfAsync opss conf (attempt + 1) (snd r))
        (\<lambda>(n, ds, s'). Some (n, retry_delay attempt # ds, s')))"

text \<open>One turn of the loop of \<^verbatim>\<open>runNacosConfServer\<close>; \<open>mh\<close> is the manager's map of users with its heap.\<close>

datatype nacos_event = ConfDone | ConfNotified | ConfTick

definition reload ::
    "('m, addr, ctx_heap) cmap_ops \<Rightarrow> 'v viper_ops \<Rightarrow> 'v nacos_state \<times> 'm \<times> ctx_heap \<Rightarrow> ('v nacos_state \<times> 'm \<times> ctx_heap) outcome" where
  "reload mops ops = (\<lambda>(s, mh). case Unmarshal ops (viperClient s) of
     Panic \<Rightarrow> Panic
   | Ret (Inl e) \<Rightarrow> Ret (s, mh)
   | Ret (Inr c) \<Rightarrow> (let s' = setNacosConf c s in Ret (s', updateLimitedReaderAction mops (getNacosConf s') mh)))"

definition runNacosConfServer ::
    "('m, addr, ctx_heap) cmap_ops \<Rightarrow> 'v viper_ops \<Rightarrow> nacos_event \<Rightarrow> 'v nacos_state \<times> 'm \<times> ctx_heap \<Rightarrow>
     (bool \<times> 'v nacos_state \<times> 'm \<times> ctx_heap) outcome" where
  "runNacosConfServer mops ops ev st = (case ev of
     ConfDone \<Rightarrow> Ret (False, st)
   | ConfNotified \<Rightarrow> bind_outcome (reload mops ops st) (\<lambda>st'. Ret (True, st'))
   | ConfTick \<Rightarrow> bind_outcome (reload mops ops st) (\<lambda>st'. Ret (True, st')))"

subsection \<open>Lemmas\<close>


lemma tryInit_fails: "fst (tryInitNacosConf ops conf s) = False \<Longrightarrow> nacosConfig (snd (tryInitNacosConf ops conf s)) = nacosConfig s"
  unfolding tryInitNacosConf_def Let_def
  by (auto simp: viper_call_def split: outcome.splits option.splits sum.splits if_splits)

lemma tryInit_succeeds:
  assumes "fst (tryInitNacosConf ops conf s)"
  shows "let s' = snd (tryInitNacosConf ops conf s) in
    Unmarshal ops (viperClient s') = Ret (Inr (nacosConfig s')) \<and> nacosRespChan s'"
  using assms unfolding tryInitNacosConf_def Let_def
  by (auto simp: viper_call_def setNacosConf_def split: outcome.splits option.splits sum.splits if_splits)

lemma retry_delay_eq:
  assumes "attempt < 2 ^ 32"
  shows "sint (retry_delay attempt) = min (int attempt + 1) 30 * 1000000000"
proof -
  let ?n = "(int attempt + 1) * 1000000000"
  have "of_nat (attempt + 1) * baseDelay = (word_of_int ?n :: 64 word)"
    by (simp add: baseDelay_def algebra_simps)
  moreover have "sint (word_of_int ?n :: 64 word) = ?n"
    by (rule sint64_of_int) (use assms in auto)
  moreover have "sint maxDelay = 30000000000" by (simp add: maxDelay_def)
  ultimately show ?thesis by (auto simp: retry_delay_def Let_def min_def)
qed

lemma async_retries:
  "\<lbrakk>\<And>i s. i < k \<Longrightarrow> \<not> fst (tryInitNacosConf (opss (a + i)) conf s); \<And>s. fst (tryInitNacosConf (opss (a + k)) conf s)\<rbrakk> \<Longrightarrow>
   \<exists>s'. initNacosConfAsync opss conf a s = Some (a + k, map retry_delay [a..<a + k], s') \<and>
     Unmarshal (opss (a + k)) (viperClient s') = Ret (Inr (nacosConfig s'))"
proof (induction k arbitrary: a s)
  case 0
  then have t: "fst (tryInitNacosConf (opss a) conf s)" by (metis add_0_right)
  then obtain s' where s': "tryInitNacosConf (opss a) conf s = (True, s')" by (metis prod.collapse)
  with tryInit_succeeds [OF t] show ?case by (subst initNacosConfAsync.simps) simp
next
  case (Suc k)
  obtain s1 where s1: "tryInitNacosConf (opss a) conf s = (False, s1)"
    using Suc.prems(1) [of 0 s] by (metis add_0_right prod.collapse zero_less_Suc)
  have "\<exists>s'. initNacosConfAsync opss conf (a + 1) s1 = Some (a + 1 + k, map retry_delay [a + 1..<a + 1 + k], s') \<and>
     Unmarshal (opss (a + 1 + k)) (viperClient s') = Ret (Inr (nacosConfig s'))"
    using Suc.prems(1) [of "Suc _"] Suc.prems(2) by (intro Suc.IH) auto
  then show ?case using s1 by (subst initNacosConfAsync.simps) (auto simp: upt_conv_Cons simp del: upt_Suc)
qed

lemma init_in_force:
  "nacosConfig (snd (initNacosConf ops conf s)) =
     (if fst (initNacosConf ops conf s)
      then (case Unmarshal ops (viperClient (snd (initNacosConf ops conf s))) of Ret (Inr c) \<Rightarrow> c | _ \<Rightarrow> default_nacos)
      else default_nacos)"
proof (cases "fst (initNacosConf ops conf s)")
  case True
  with tryInit_succeeds [of ops conf "setNacosConf default_nacos s"] show ?thesis
    by (simp add: initNacosConf_def Let_def)
next
  case False
  with tryInit_fails [of ops conf "setNacosConf default_nacos s"] show ?thesis
    by (simp add: initNacosConf_def setNacosConf_def)
qed

subsection \<open>Properties\<close>

text \<open>
  The retries back off and end: if the remote side fails \<open>k\<close> times and then answers, \<^verbatim>\<open>initNacosConfAsync\<close>
  returns at that attempt with the configuration read then, having slept 1, 2, 3, ... seconds, at most
  30 seconds each time.
\<close>

theorem async_init_backs_off:
  assumes "\<And>i s. i < k \<Longrightarrow> \<not> fst (tryInitNacosConf (opss i) conf s)" and "\<And>s. fst (tryInitNacosConf (opss k) conf s)"
    and "k < 2 ^ 32"
  shows "\<exists>ds s'. initNacosConfAsync opss conf 0 s = Some (k, ds, s') \<and>
    Unmarshal (opss k) (viperClient s') = Ret (Inr (nacosConfig s')) \<and>
    map sint ds = map (\<lambda>i. min (int i + 1) 30 * 1000000000) [0..<k]"
proof -
  obtain s' where "initNacosConfAsync opss conf 0 s = Some (k, map retry_delay [0..<k], s')"
    "Unmarshal (opss k) (viperClient s') = Ret (Inr (nacosConfig s'))"
    using async_retries [of k opss 0 conf s] assms(1,2) by auto
  moreover have "map sint (map retry_delay [0..<k]) = map (\<lambda>i. min (int i + 1) 30 * 1000000000) [0..<k]"
    using assms(3) by (auto simp: retry_delay_eq)
  ultimately show ?thesis by blast
qed

text \<open>A client over the remote data: nothing read yet, or a configuration. It reads when \<open>up\<close>.\<close>

definition zero_nacos :: nacos_config where
  "zero_nacos = \<lparr>Blacklist = [], LR_ReadRate = 0, LR_ReadBurst = 0, OneIpMaxConn = 0,
     AlarmOneIPMaxThreshold = 0, WhiteList = []\<rparr>"

definition remote_ops :: "bool \<Rightarrow> nacos_config \<Rightarrow> nacos_config option viper_ops" where
  "remote_ops up c = \<lparr>viper_New = None, AddRemoteProvider = (\<lambda>u v. Ret (None, v)),
     ReadRemoteConfig = (\<lambda>v. if up then Ret (None, Some c) else Ret (Some ''unreachable'', v)),
     WatchRemoteConfigOnChannel = (\<lambda>v. Ret (None, v)), WatchRemoteConfig = (\<lambda>v. Ret (None, v)),
     Unmarshal = (\<lambda>v. Ret (Inr (case v of None \<Rightarrow> zero_nacos | Some x \<Rightarrow> x)))\<rparr>"

lemma remote_tryInit: "fst (tryInitNacosConf (remote_ops up c) conf s) = up"
  by (simp add: tryInitNacosConf_def Let_def viper_call_def remote_ops_def)

definition demo_nconf :: nacos_conf where
  "demo_nconf = \<lparr>nc_Url = ''nacos'', nc_Port = 8848\<rparr>"

definition no_state :: "nacos_config option nacos_state" where
  "no_state = \<lparr>nacosConfig = default_nacos, viperClient = None, nacosRespChan = False\<rparr>"

theorem async_init_backs_off_witness:
  "\<exists>ds s'. initNacosConfAsync (\<lambda>i. remote_ops (i = 3) default_nacos) demo_nconf 0 no_state = Some (3, ds, s') \<and>
     map sint ds = [1000000000, 2000000000, 3000000000]"
  using async_init_backs_off [of 3 "\<lambda>i. remote_ops (i = 3) default_nacos" demo_nconf no_state]
  by (auto simp: remote_tryInit upt_rec)

text \<open>
  The fallback does not last: when the remote configuration could not be read at start-up and the client
  yields an empty configuration without an error (as Viper does before anything has been read), the
  first tick of \<^verbatim>\<open>runNacosConfServer\<close> replaces the default by zeros. The limit of connections per exit
  address is then off: every further connection is admitted.
\<close>

theorem fallback_lost_after_tick:
  assumes "\<not> fst (initNacosConf ops conf s)"
    and "Unmarshal ops (viperClient (snd (initNacosConf ops conf s))) = Ret (Inr zero_nacos)"
    and "cmap_inv m" and "ip_inv cmap_Get (m, h) holds"
  shows "nacosConfig (snd (initNacosConf ops conf s)) = default_nacos \<and>
    (\<exists>s' uh'. runNacosConfServer mops ops ConfTick (snd (initNacosConf ops conf s), uh) = Ret (True, s', uh') \<and>
       getNacosConf s' = zero_nacos \<and>
       fst (fst (AddIpConnCount sharded_ops (OneIpMaxConn (getNacosConf s')) ip (m, h))))"
proof -
  let ?s = "snd (initNacosConf ops conf s)"
  have d: "nacosConfig ?s = default_nacos"
    using tryInit_fails [of ops conf "setNacosConf default_nacos s"] assms(1)
    by (simp add: initNacosConf_def setNacosConf_def)
  have "runNacosConfServer mops ops ConfTick (?s, uh) =
      Ret (True, setNacosConf zero_nacos ?s, updateLimitedReaderAction mops zero_nacos uh)"
    using assms(2) by (simp add: runNacosConfServer_def reload_def Let_def getNacosConf_def setNacosConf_def)
  moreover have "fst (fst (AddIpConnCount sharded_ops 0 ip (m, h)))"
    using sharded_ip.Add_result [OF assms(3,4), of 0 ip] by simp
  ultimately show ?thesis using d by (simp add: getNacosConf_def setNacosConf_def zero_nacos_def)
qed

theorem fallback_lost_after_tick_witness:
  "\<exists>s' uh'. runNacosConfServer sharded_ops (remote_ops False default_nacos) ConfTick
       (snd (initNacosConf (remote_ops False default_nacos) demo_nconf no_state), New_cmap, ctx_heap0) = Ret (True, s', uh') \<and>
     getNacosConf s' = zero_nacos"
proof -
  have f: "\<not> fst (initNacosConf (remote_ops False default_nacos) demo_nconf no_state)"
    by (simp add: initNacosConf_def remote_tryInit)
  have u: "Unmarshal (remote_ops False default_nacos)
      (viperClient (snd (initNacosConf (remote_ops False default_nacos) demo_nconf no_state))) = Ret (Inr zero_nacos)"
    by (simp add: initNacosConf_def tryInitNacosConf_def Let_def viper_call_def remote_ops_def)
  show ?thesis
    using fallback_lost_after_tick [OF f u new_cmap_ok(1) ip_inv_empty [of cmap_Get New_cmap heap0, OF new_cmap_ok(2)],
        of sharded_ops "(New_cmap, ctx_heap0)"] by blast
qed

lemma fold_limits:
  "cx_a (ctxs (fold (\<lambda>kp. update_ctx_limits c (snd kp)) xs h) p) =
     (if p \<in> snd ` set xs then UpdateParameter (LR_ReadRate c) (LR_ReadBurst c) (cx_a (ctxs h p)) else cx_a (ctxs h p))"
proof (induction xs arbitrary: h)
  case (Cons x xs)
  have "UpdateParameter r b (UpdateParameter r b l) = UpdateParameter r b l" for r b l
    by (simp add: UpdateParameter_def Let_def)
  with Cons show ?case by (auto simp: update_ctx_limits_def)
qed simp

text \<open>
  C38. A new configuration reaches everybody: when the client delivers a configuration, it is in force, every
  user in the manager's map is throttled by its rate and burst (the built-in ones where they are not
  positive), contexts that are no longer in the map keep their limits, and nobody is disconnected.
\<close>

theorem reload_reaches_all_users:
  assumes "cmap_provider mops lookup minv" and "minv m" and "Unmarshal ops (viperClient s) = Ret (Inr c)"
  shows "\<exists>h'. runNacosConfServer mops ops ConfNotified (s, m, h) = Ret (True, s\<lparr>nacosConfig := c\<rparr>, m, h') \<and>
    (\<forall>p. cx_a (ctxs h' p) = (if p \<in> ran (lookup m)
       then UpdateParameter (LR_ReadRate c) (LR_ReadBurst c) (cx_a (ctxs h p)) else cx_a (ctxs h p)) \<and>
     ctx_cancelled (ctxs h' p) = ctx_cancelled (ctxs h p))"
proof -
  have laws: "concurrent_map lookup minv (cm_upsert mops) (cm_removecb mops) (cm_pop mops) (cm_iter mops)"
    using assms(1) by (rule cmap_provider.map_laws)
  have "map_of (cm_iter mops m) = lookup m" "distinct (map fst (cm_iter mops m))"
    using concurrent_map.iter_lookup [OF laws assms(2)] concurrent_map.iter_distinct [OF laws assms(2)] by simp_all
  then have r: "ran (lookup m) = snd ` set (cm_iter mops m)" using ran_distinct by metis
  let ?h = "snd (updateLimitedReaderAction mops c (m, h))"
  have "updateLimitedReaderAction mops c (m, h) = (m, ?h)"
    by (simp add: updateLimitedReaderAction_def)
  then have "runNacosConfServer mops ops ConfNotified (s, m, h) = Ret (True, s\<lparr>nacosConfig := c\<rparr>, m, ?h)"
    using assms(3) by (simp add: runNacosConfServer_def reload_def setNacosConf_def getNacosConf_def Let_def)
  moreover have "cx_a (ctxs ?h p) = (if p \<in> ran (lookup m)
      then UpdateParameter (LR_ReadRate c) (LR_ReadBurst c) (cx_a (ctxs h p)) else cx_a (ctxs h p))" for p
    unfolding r by (simp add: updateLimitedReaderAction_def fold_limits)
  moreover have "ctx_cancelled (ctxs ?h p) = ctx_cancelled (ctxs h p)" for p
    by (simp add: update_limits_ctxs)
  ultimately show ?thesis by (intro exI [of _ ?h]) simp
qed

theorem reload_reaches_all_users_witness:
  "\<exists>p m h h'. addUserConnection sharded_ops default_nacos 0 ''u'' (New_cmap, ctx_heap0) = (p, m, h) \<and>
     runNacosConfServer sharded_ops (remote_ops True default_nacos) ConfNotified (no_state, m, h) =
       Ret (True, no_state\<lparr>nacosConfig := zero_nacos\<rparr>, m, h') \<and>
     readRate (cx_a (ctxs h' p)) = 30720"
proof -
  obtain m h where mh: "addUserConnection sharded_ops default_nacos 0 ''u'' (New_cmap, ctx_heap0) = (0, m, h)"
    "cmap_inv m" "cmap_Get m ''u'' = Some 0"
    using sharded_user.register_conv [OF new_cmap_ok(1), of default_nacos 0 "''u''" ctx_heap0]
    by (auto simp: add_user_cb_def new_cmap_ok(2) ctx_heap0_def)
  have u: "Unmarshal (remote_ops True default_nacos) (viperClient no_state) = Ret (Inr zero_nacos)"
    by (simp add: remote_ops_def no_state_def)
  have "(0 :: nat) \<in> ran (cmap_Get m)" using mh(3) by (rule ranI)
  with reload_reaches_all_users [OF sharded.cmap_provider_axioms mh(2) u, of h] obtain h' where
    "runNacosConfServer sharded_ops (remote_ops True default_nacos) ConfNotified (no_state, m, h) =
       Ret (True, no_state\<lparr>nacosConfig := zero_nacos\<rparr>, m, h')"
    "cx_a (ctxs h' 0) = UpdateParameter (LR_ReadRate zero_nacos) (LR_ReadBurst zero_nacos) (cx_a (ctxs h 0))"
    by metis
  moreover from this(2) have "readRate (cx_a (ctxs h' 0)) = 30720"
    by (simp only: UpdateParameter_def Let_def default_rate_def zero_nacos_def) simp
  ultimately show ?thesis using mh(1) by blast
qed

end
