(* ===== verification/TaskRun.thy ===== *)
theory TaskRun
  imports Prelude
begin

text \<open>
  \<^verbatim>\<open>utils/taskRunManager\<close>: \<^verbatim>\<open>AtomicTask\<close> (a bounded number of goroutines, with a condition variable),
  \<^verbatim>\<open>ChanTask\<close> (the same with a buffered channel) and \<^verbatim>\<open>RunTaskGetSpecifyQuantityResultContext\<close>, which collects
  the first results of a list of tasks in a channel. The interleavings of goroutines are the steps of
  inductive relations; a locked section is one step.
\<close>

subsection \<open>AtomicTask\<close>

text \<open>
  A caller of \<^verbatim>\<open>Run\<close> loads the counter, tries the compare-and-swap, and blocks when the counter is at the
  limit; a caller of \<^verbatim>\<open>Wait\<close> blocks while the counter is not zero. \<open>CWaiting\<close> is inside \<^verbatim>\<open>cond.Wait\<close>. A worker
  runs its task, decrements the counter and then broadcasts.
\<close>

datatype caller = CLoad | CCas "32 word" | CBlock | CWaiting | CReturned
  | JBlock | JCheck | JWaiting | JReturned

datatype worker = WTask | WRelease | WEnd

record atomic_task =
  at_count :: "32 word"
  at_limit :: "32 word"
  at_callers :: "caller list"
  at_workers :: "worker list"

definition NewAtomicTask :: "int \<Rightarrow> atomic_task" where
  "NewAtomicTask count = \<lparr>at_count = 0, at_limit = word_of_int count, at_callers = [], at_workers = []\<rparr>"

definition wake :: "caller \<Rightarrow> caller" where
  "wake c = (case c of CWaiting \<Rightarrow> CLoad | JWaiting \<Rightarrow> JCheck | _ \<Rightarrow> c)"

text \<open>\<^verbatim>\<open>Condition.Block\<close> and \<^verbatim>\<open>Condition.Release\<close>.\<close>

definition Block :: "bool \<Rightarrow> caller \<Rightarrow> caller \<Rightarrow> caller" where
  "Block f back waiting = (if \<not> f then back else waiting)"

definition Release :: "atomic_task \<Rightarrow> atomic_task" where
  "Release a = a\<lparr>at_callers := map wake (at_callers a)\<rparr>"

inductive at_step :: "atomic_task \<Rightarrow> atomic_task \<Rightarrow> bool" where
  call_run: "at_step a (a\<lparr>at_callers := at_callers a @ [CLoad]\<rparr>)"
| call_wait: "at_step a (a\<lparr>at_callers := at_callers a @ [JBlock]\<rparr>)"
| load: "i < length (at_callers a) \<Longrightarrow> at_callers a ! i = CLoad \<Longrightarrow>
    at_step a (a\<lparr>at_callers := (at_callers a)[i :=
      if sint (at_count a) < sint (at_limit a) then CCas (at_count a) else CBlock]\<rparr>)"
| cas: "i < length (at_callers a) \<Longrightarrow> at_callers a ! i = CCas n \<Longrightarrow> at_count a = n \<Longrightarrow>
    at_step a (a\<lparr>at_count := n + 1, at_callers := (at_callers a)[i := CReturned], at_workers := at_workers a @ [WTask]\<rparr>)"
| cas_fails: "i < length (at_callers a) \<Longrightarrow> at_callers a ! i = CCas n \<Longrightarrow> at_count a \<noteq> n \<Longrightarrow>
    at_step a (a\<lparr>at_callers := (at_callers a)[i := CBlock]\<rparr>)"
| block: "i < length (at_callers a) \<Longrightarrow> at_callers a ! i = CBlock \<Longrightarrow>
    at_step a (a\<lparr>at_callers := (at_callers a)[i := Block (at_count a = at_limit a) CLoad CWaiting]\<rparr>)"
| wait_block: "i < length (at_callers a) \<Longrightarrow> at_callers a ! i = JBlock \<Longrightarrow>
    at_step a (a\<lparr>at_callers := (at_callers a)[i := Block (at_count a \<noteq> 0) JCheck JWaiting]\<rparr>)"
| wait_check: "i < length (at_callers a) \<Longrightarrow> at_callers a ! i = JCheck \<Longrightarrow>
    at_step a (a\<lparr>at_callers := (at_callers a)[i := if at_count a = 0 then JReturned else JBlock]\<rparr>)"
| finish: "i < length (at_workers a) \<Longrightarrow> at_workers a ! i = WTask \<Longrightarrow>
    at_step a (a\<lparr>at_count := at_count a - 1, at_workers := (at_workers a)[i := WRelease]\<rparr>)"
| release: "i < length (at_workers a) \<Longrightarrow> at_workers a ! i = WRelease \<Longrightarrow>
    at_step a (Release (a\<lparr>at_workers := (at_workers a)[i := WEnd]\<rparr>))"

inductive at_reach :: "atomic_task \<Rightarrow> atomic_task \<Rightarrow> bool" where
  refl [intro!]: "at_reach a a"
| step: "at_reach a b \<Longrightarrow> at_step b c \<Longrightarrow> at_reach a c"

abbreviation busy :: "atomic_task \<Rightarrow> nat" where
  "busy a \<equiv> cnt (\<lambda>w. w = WTask) (at_workers a)"

definition at_inv :: "atomic_task \<Rightarrow> bool" where
  "at_inv a \<longleftrightarrow> 0 < sint (at_limit a) \<and> at_count a = of_nat (busy a) \<and> int (busy a) \<le> sint (at_limit a) \<and>
     (\<forall>n. CCas n \<in> set (at_callers a) \<longrightarrow> 0 \<le> sint n \<and> sint n < sint (at_limit a)) \<and>
     ((CWaiting \<in> set (at_callers a) \<or> JWaiting \<in> set (at_callers a)) \<longrightarrow> (\<exists>w \<in> set (at_workers a). w \<noteq> WEnd))"

lemma sint_busy: "at_inv a \<Longrightarrow> sint (at_count a) = int (busy a)"
  using sint_lt [of "at_limit a"] sint32_of_int [of "int (busy a)"] by (auto simp: at_inv_def)

lemma busy_0: "at_inv a \<Longrightarrow> at_count a = 0 \<longleftrightarrow> busy a = 0"
  using sint_busy [of a] by (auto simp: at_inv_def)

lemma busy_worker: "0 < busy a \<Longrightarrow> \<exists>w \<in> set (at_workers a). w \<noteq> WEnd"
  using cnt_0_iff [of "\<lambda>w. w = WTask" "at_workers a"] by fastforce

lemma active_update: "\<exists>w \<in> set xs. w \<noteq> WEnd \<Longrightarrow> y \<noteq> WEnd \<Longrightarrow> \<exists>w \<in> set (xs[i := y]). w \<noteq> WEnd"
  by (metis length_list_update list_update_beyond not_le set_update_memI)

lemma wake_waiting [simp]: "wake c \<noteq> CWaiting" "wake c \<noteq> JWaiting" "CWaiting \<noteq> wake c" "JWaiting \<noteq> wake c"
  "wake c = CCas n \<longleftrightarrow> c = CCas n" "CCas n = wake c \<longleftrightarrow> c = CCas n"
  by (cases c; auto simp: wake_def)+

lemma caller_step:
  assumes "at_inv a" and "c' \<noteq> CWaiting \<or> (\<exists>w \<in> set (at_workers a). w \<noteq> WEnd)"
    and "c' \<noteq> JWaiting \<or> (\<exists>w \<in> set (at_workers a). w \<noteq> WEnd)"
    and "\<And>n. c' = CCas n \<Longrightarrow> 0 \<le> sint n \<and> sint n < sint (at_limit a)"
  shows "at_inv (a\<lparr>at_callers := (at_callers a)[i := c']\<rparr>)"
  using assms by (auto simp: at_inv_def dest!: set_update_subset_insert [THEN subsetD])

lemma at_step_inv:
  assumes "at_step a a'" and "at_inv a"
  shows "at_inv a'"
  using assms
proof (induction rule: at_step.induct)
  case (load i a)
  then show ?case using sint_busy [of a] by (intro caller_step) (auto split: if_splits)
next
  case (cas i a n)
  have n: "0 \<le> sint n" "sint n < sint (at_limit a)"
    using cas by (auto simp: at_inv_def dest!: nth_mem)
  have "int (busy a) = sint n" using sint_busy [OF cas(4)] cas(3) by simp
  then have "int (Suc (busy a)) \<le> sint (at_limit a)" using n by simp
  moreover have "n + 1 = of_nat (Suc (busy a))" using cas(3,4) by (simp add: at_inv_def add.commute)
  ultimately show ?case
    using cas(4) by (auto simp: at_inv_def dest!: set_update_subset_insert [THEN subsetD])
next
  case (block i a)
  have "\<exists>w \<in> set (at_workers a). w \<noteq> WEnd" if "at_count a = at_limit a"
    using that sint_busy [OF block(3)] block(3) by (intro busy_worker) (auto simp: at_inv_def)
  then show ?case using block by (intro caller_step) (auto simp: Block_def split: if_splits)
next
  case (wait_block i a)
  have "\<exists>w \<in> set (at_workers a). w \<noteq> WEnd" if "at_count a \<noteq> 0"
    using that busy_0 [OF wait_block(3)] by (intro busy_worker) auto
  then show ?case using wait_block by (intro caller_step) (auto simp: Block_def split: if_splits)
next
  case (finish i a)
  have c: "busy a = Suc (cnt (\<lambda>w. w = WTask) ((at_workers a)[i := WRelease]))"
    using cnt_update [of i "at_workers a" "\<lambda>w. w = WTask" WRelease] finish(1,2) by simp
  have "(of_nat (busy a) :: 32 word) - 1 = of_nat (cnt (\<lambda>w. w = WTask) ((at_workers a)[i := WRelease]))"
    unfolding c by simp
  moreover have "int (cnt (\<lambda>w. w = WTask) ((at_workers a)[i := WRelease])) \<le> sint (at_limit a)"
    using finish(3) c by (simp add: at_inv_def)
  moreover have "\<exists>w \<in> set ((at_workers a)[i := WRelease]). w \<noteq> WEnd"
    using finish(1) set_update_memI by fastforce
  ultimately show ?case using finish(3) by (auto simp: at_inv_def)
next
  case (release i a)
  have "cnt (\<lambda>w. w = WTask) ((at_workers a)[i := WEnd]) = busy a"
    using cnt_update [of i "at_workers a" "\<lambda>w. w = WTask" WEnd] release(1,2) by simp
  with release(3) show ?case by (auto simp: at_inv_def Release_def)
qed (auto simp: at_inv_def dest!: set_update_subset_insert [THEN subsetD])

lemma at_reach_inv: "at_reach a b \<Longrightarrow> at_inv a \<Longrightarrow> at_inv b"
  by (induction rule: at_reach.induct) (auto intro: at_step_inv)

subsection \<open>ChanTask\<close>

text \<open>
  \<^verbatim>\<open>Run\<close> adds to the wait group, puts a token into the channel (blocking while it is full) and starts the
  goroutine, which takes a token back and signals the wait group after the task.
\<close>

datatype chan_caller = HSend | HReturned

datatype chan_worker = HTask | HToken | HSignal | HEnd

record chan_task =
  ct_cap :: nat
  ct_tokens :: nat
  ct_wg :: nat
  ct_callers :: "chan_caller list"
  ct_workers :: "chan_worker list"

definition NewChanTask :: "nat \<Rightarrow> chan_task" where
  "NewChanTask count = \<lparr>ct_cap = count, ct_tokens = 0, ct_wg = 0, ct_callers = [], ct_workers = []\<rparr>"

inductive ct_step :: "chan_task \<Rightarrow> chan_task \<Rightarrow> bool" where
  call: "ct_step a (a\<lparr>ct_wg := Suc (ct_wg a), ct_callers := ct_callers a @ [HSend]\<rparr>)"
| send: "i < length (ct_callers a) \<Longrightarrow> ct_callers a ! i = HSend \<Longrightarrow> ct_tokens a < ct_cap a \<Longrightarrow>
    ct_step a (a\<lparr>ct_tokens := Suc (ct_tokens a), ct_callers := (ct_callers a)[i := HReturned],
      ct_workers := ct_workers a @ [HTask]\<rparr>)"
| task: "i < length (ct_workers a) \<Longrightarrow> ct_workers a ! i = HTask \<Longrightarrow>
    ct_step a (a\<lparr>ct_workers := (ct_workers a)[i := HToken]\<rparr>)"
| token: "i < length (ct_workers a) \<Longrightarrow> ct_workers a ! i = HToken \<Longrightarrow> 0 < ct_tokens a \<Longrightarrow>
    ct_step a (a\<lparr>ct_tokens := ct_tokens a - 1, ct_workers := (ct_workers a)[i := HSignal]\<rparr>)"
| signal: "i < length (ct_workers a) \<Longrightarrow> ct_workers a ! i = HSignal \<Longrightarrow>
    ct_step a (a\<lparr>ct_wg := ct_wg a - 1, ct_workers := (ct_workers a)[i := HEnd]\<rparr>)"

inductive ct_reach :: "chan_task \<Rightarrow> chan_task \<Rightarrow> bool" where
  refl [intro!]: "ct_reach a a"
| step: "ct_reach a b \<Longrightarrow> ct_step b c \<Longrightarrow> ct_reach a c"

definition ct_inv :: "chan_task \<Rightarrow> bool" where
  "ct_inv a \<longleftrightarrow> ct_tokens a = cnt (\<lambda>w. w = HTask \<or> w = HToken) (ct_workers a) \<and> ct_tokens a \<le> ct_cap a \<and>
     ct_wg a = cnt (\<lambda>c. c = HSend) (ct_callers a) + cnt (\<lambda>w. w \<noteq> HEnd) (ct_workers a)"

lemma ct_step_inv:
  assumes "ct_step a a'" and "ct_inv a"
  shows "ct_inv a'"
  using assms
proof (induction rule: ct_step.induct)
  case (send i a)
  then show ?case using cnt_update [of i "ct_callers a" "\<lambda>c. c = HSend" HReturned] by (simp add: ct_inv_def)
next
  case (task i a)
  then show ?case
    using cnt_update [of i "ct_workers a" "\<lambda>w. w = HTask \<or> w = HToken" HToken]
      cnt_update [of i "ct_workers a" "\<lambda>w. w \<noteq> HEnd" HToken] by (simp add: ct_inv_def)
next
  case (token i a)
  then show ?case
    using cnt_update [of i "ct_workers a" "\<lambda>w. w = HTask \<or> w = HToken" HSignal]
      cnt_update [of i "ct_workers a" "\<lambda>w. w \<noteq> HEnd" HSignal] by (auto simp: ct_inv_def)
next
  case (signal i a)
  then show ?case
    using cnt_update [of i "ct_workers a" "\<lambda>w. w = HTask \<or> w = HToken" HEnd]
      cnt_update [of i "ct_workers a" "\<lambda>w. w \<noteq> HEnd" HEnd] by (simp add: ct_inv_def)
qed (simp add: ct_inv_def)

lemma ct_reach_inv: "ct_reach a b \<Longrightarrow> ct_inv a \<Longrightarrow> ct_inv b"
  by (induction rule: ct_reach.induct) (auto intro: ct_step_inv)

subsection \<open>Collecting results\<close>

text \<open>
  \<^verbatim>\<open>RunTaskGetSpecifyQuantityResultContext\<close>: one goroutine per parameter. After \<^verbatim>\<open>fn\<close> returns a value it checks
  the context, takes a ticket from \<^verbatim>\<open>resultCount\<close>, sends without blocking, and counts down \<^verbatim>\<open>enterCount\<close>; the
  last one cancels the context and closes the channel. \<open>rs_sent\<close> is what was sent so far, \<open>rs_buffer\<close> what
  is still in the channel, whose capacity is \<open>rs_expect\<close>. Sending to a closed channel panics. The outer
  context may be cancelled at any time.
\<close>

datatype 'v collector =
    KFn           \<comment> \<open>running fn\<close>
  | KCheck 'v     \<comment> \<open>at the select on the context\<close>
  | KTicket 'v    \<comment> \<open>about to count down resultCount\<close>
  | KSend 'v      \<comment> \<open>about to send\<close>
  | KEnter        \<comment> \<open>about to count down enterCount\<close>
  | KFailed | KSkipped | KDone

record 'v results =
  rs_expect :: nat
  resultCount :: int
  enterCount :: int
  rs_buffer :: "'v list"
  rs_sent :: "'v list"
  rs_closed :: bool
  rs_outer :: bool
  rs_inner :: bool
  rs_panic :: bool
  rs_goroutines :: "'v collector list"

definition start_results :: "nat \<Rightarrow> nat \<Rightarrow> 'v results" where
  "start_results expectResultCount n = \<lparr>rs_expect = expectResultCount, resultCount = int expectResultCount,
     enterCount = int expectResultCount, rs_buffer = [], rs_sent = [], rs_closed = False, rs_outer = False,
     rs_inner = False, rs_panic = False, rs_goroutines = replicate n KFn\<rparr>"

abbreviation gor :: "nat \<Rightarrow> 'v results \<Rightarrow> 'v collector \<Rightarrow> bool" where
  "gor i s k \<equiv> i < length (rs_goroutines s) \<and> rs_goroutines s ! i = k"

definition goto_k :: "nat \<Rightarrow> 'v collector \<Rightarrow> 'v results \<Rightarrow> 'v results" where
  "goto_k i k s = s\<lparr>rs_goroutines := (rs_goroutines s)[i := k]\<rparr>"

inductive rs_step :: "'v results \<Rightarrow> 'v results \<Rightarrow> bool" where
  fn_ok: "gor i s KFn \<Longrightarrow> rs_step s (goto_k i (KCheck v) s)"
| fn_fails: "gor i s KFn \<Longrightarrow> rs_step s (goto_k i KFailed s)"
| check: "gor i s (KCheck v) \<Longrightarrow> rs_step s (goto_k i (if rs_outer s \<or> rs_inner s then KSkipped else KTicket v) s)"
| ticket: "gor i s (KTicket v) \<Longrightarrow> s' = s\<lparr>resultCount := resultCount s - 1\<rparr> \<Longrightarrow>
    rs_step s (if resultCount s' < 0 then goto_k i KSkipped (s'\<lparr>rs_inner := True\<rparr>) else goto_k i (KSend v) s')"
| send: "gor i s (KSend v) \<Longrightarrow> rs_step s
    (if rs_closed s then s\<lparr>rs_panic := True\<rparr>
     else if length (rs_buffer s) < rs_expect s
     then goto_k i KEnter (s\<lparr>rs_buffer := rs_buffer s @ [v], rs_sent := rs_sent s @ [v]\<rparr>)
     else goto_k i KSkipped s)"
| enter: "gor i s KEnter \<Longrightarrow> s' = s\<lparr>enterCount := enterCount s - 1\<rparr> \<Longrightarrow>
    rs_step s (goto_k i KDone (if enterCount s' = 0 then s'\<lparr>rs_inner := True, rs_closed := True\<rparr> else s'))"
| receive: "rs_buffer s = v # vs \<Longrightarrow> rs_step s (s\<lparr>rs_buffer := vs\<rparr>)"
| outer_cancel: "rs_step s (s\<lparr>rs_outer := True\<rparr>)"
| finish: "list_all (\<lambda>k. k \<in> {KFailed, KSkipped, KDone}) (rs_goroutines s) \<Longrightarrow>
    rs_step s (s\<lparr>rs_inner := True, rs_closed := True\<rparr>)"

inductive rs_reach :: "'v results \<Rightarrow> 'v results \<Rightarrow> bool" where
  refl [intro!]: "rs_reach a a"
| step: "rs_reach a b \<Longrightarrow> rs_step b c \<Longrightarrow> rs_reach a c"

definition sending :: "'v collector \<Rightarrow> bool" where
  "sending k \<longleftrightarrow> (case k of KSend v \<Rightarrow> True | _ \<Rightarrow> False)"

definition ended :: "'v collector \<Rightarrow> bool" where
  "ended k \<longleftrightarrow> k \<in> {KFailed, KSkipped, KDone}"

definition rs_inv :: "'v results \<Rightarrow> bool" where
  "rs_inv s \<longleftrightarrow> (let gs = rs_goroutines s; n = int (rs_expect s) in
     \<not> rs_panic s \<and> length (rs_buffer s) \<le> length (rs_sent s) \<and>
     int (length (rs_sent s)) + int (cnt sending gs) = n - max 0 (resultCount s) \<and>
     int (length (rs_sent s)) = int (cnt (\<lambda>k. k = KEnter) gs) + int (cnt (\<lambda>k. k = KDone) gs) \<and>
     int (cnt (\<lambda>k. k = KDone) gs) = n - enterCount s \<and>
     (rs_closed s \<or> rs_inner s \<longrightarrow> resultCount s \<le> 0 \<or> list_all ended gs) \<and>
     (rs_closed s \<longrightarrow> cnt sending gs = 0) \<and>
     (\<not> rs_outer s \<and> 0 < cnt (\<lambda>k. k = KSkipped) gs \<longrightarrow> resultCount s \<le> 0))"

lemma start_results_inv: "rs_inv (start_results n m)"
proof -
  have "cnt P (replicate m KFn) = (if P KFn then m else 0)" for P :: "'a collector \<Rightarrow> bool"
    by (induction m) auto
  then show ?thesis by (simp add: rs_inv_def start_results_def sending_def Let_def)
qed

text \<open>How the counters of a state change when goroutine \<open>i\<close> moves from \<open>k0\<close> to \<open>k\<close>.\<close>

lemma goto_cnts:
  assumes "gor i s k0"
  shows "cnt sending (rs_goroutines (goto_k i k s)) + of_bool (sending k0) = cnt sending (rs_goroutines s) + of_bool (sending k)"
    and "cnt (\<lambda>k. k = KEnter) (rs_goroutines (goto_k i k s)) + of_bool (k0 = KEnter) =
      cnt (\<lambda>k. k = KEnter) (rs_goroutines s) + of_bool (k = KEnter)"
    and "cnt (\<lambda>k. k = KDone) (rs_goroutines (goto_k i k s)) + of_bool (k0 = KDone) =
      cnt (\<lambda>k. k = KDone) (rs_goroutines s) + of_bool (k = KDone)"
    and "cnt (\<lambda>k. k = KSkipped) (rs_goroutines (goto_k i k s)) + of_bool (k0 = KSkipped) =
      cnt (\<lambda>k. k = KSkipped) (rs_goroutines s) + of_bool (k = KSkipped)"
    using cnt_update [of i "rs_goroutines s" sending k] cnt_update [of i "rs_goroutines s" "\<lambda>k. k = KEnter" k]
    cnt_update [of i "rs_goroutines s" "\<lambda>k. k = KDone" k] cnt_update [of i "rs_goroutines s" "\<lambda>k. k = KSkipped" k] assms
  by (simp_all add: goto_k_def)

lemma not_all_ended: "gor i s k0 \<Longrightarrow> \<not> ended k0 \<Longrightarrow> \<not> list_all ended (rs_goroutines s)"
  by (auto simp: list_all_length)

lemmas rs_inv_defs = rs_inv_def Let_def sending_def ended_def goto_k_def

lemma rs_step_inv:
  assumes "rs_step s s'" and "rs_inv s"
  shows "rs_inv s'"
  using assms
proof (induction rule: rs_step.induct)
  case (fn_ok i s v)
  then show ?case
    using goto_cnts [OF fn_ok(1), where k = "KCheck v"]
      not_all_ended [OF fn_ok(1)] by (auto simp: rs_inv_defs)
next
  case (fn_fails i s)
  then show ?case
    using goto_cnts [OF fn_fails(1), where k = KFailed]
      not_all_ended [OF fn_fails(1)] by (auto simp: rs_inv_defs)
next
  case (check i s v)
  then show ?case
    using goto_cnts [OF check(1), where k = "if rs_outer s \<or> rs_inner s then KSkipped else KTicket v"]
      not_all_ended [OF check(1)] by (auto simp: rs_inv_defs split: if_splits)
next
  case (ticket i s v s')
  then show ?case
    using goto_cnts [OF ticket(1), where k = KSkipped] goto_cnts [OF ticket(1), where k = "KSend v"]
      not_all_ended [OF ticket(1)] by (cases "resultCount s - 1 < 0") (auto simp: rs_inv_defs)
next
  case (send i s v)
  note c = goto_cnts [OF send(1), where k = KEnter]
  have p: "0 < cnt sending (rs_goroutines s)" using send(1) by (auto intro!: cnt_pos simp: sending_def)
  then have "\<not> rs_closed s" "length (rs_buffer s) < rs_expect s"
    using send(2) by (auto simp: rs_inv_def Let_def)
  then show ?case
    using c not_all_ended [OF send(1)] send(2)
    by (auto simp: rs_inv_defs)
next
  case (enter i s s')
  then show ?case
    using goto_cnts [OF enter(1), where k = KDone]
      not_all_ended [OF enter(1)] by (auto simp: rs_inv_defs)
next
  case (finish s)
  have "cnt sending (rs_goroutines s) = 0"
    using finish(1) by (auto simp: cnt_0_iff list_all_iff sending_def split: collector.splits)
  moreover have "list_all ended (rs_goroutines s)" using finish(1) by (simp add: list_all_iff ended_def)
  ultimately show ?case using finish(2) by (auto simp: rs_inv_def Let_def)
qed (auto simp: rs_inv_def Let_def)

lemma rs_reach_inv: "rs_reach a b \<Longrightarrow> rs_inv a \<Longrightarrow> rs_inv b"
  by (induction rule: rs_reach.induct) (auto intro: rs_step_inv)

subsection \<open>Properties\<close>

text \<open>
  \<^verbatim>\<open>AtomicTask\<close> keeps its limit and loses no wake-up: in every state reached from a new manager with a
  positive limit, the counter is the number of running tasks and at most the limit; and while a caller
  of \<^verbatim>\<open>Run\<close> or \<^verbatim>\<open>Wait\<close> sleeps on the condition, some worker has still to broadcast.
\<close>

theorem atomic_task_safe:
  assumes "at_reach (NewAtomicTask count) a" and "0 < count" and "count < 2 ^ 31"
  shows "sint (at_count a) = int (busy a) \<and> int (busy a) \<le> count \<and>
    (CWaiting \<in> set (at_callers a) \<or> JWaiting \<in> set (at_callers a) \<longrightarrow> (\<exists>w \<in> set (at_workers a). w = WTask \<or> w = WRelease))"
proof -
  have l: "at_limit a = word_of_int count"
    using assms(1) by (induction "NewAtomicTask count" a rule: at_reach.induct)
      (auto simp: NewAtomicTask_def Release_def elim!: at_step.cases)
  have "at_inv (NewAtomicTask count)"
    using assms(2,3) by (auto simp: at_inv_def NewAtomicTask_def sint32_of_int)
  then have i: "at_inv a" using assms(1) at_reach_inv by blast
  have s: "sint (word_of_int count :: 32 word) = count" using assms(2,3) by (intro sint32_of_int) auto
  have "w = WTask \<or> w = WRelease" if "w \<noteq> WEnd" for w using that by (cases w) auto
  then show ?thesis using i sint_busy [OF i] l s by (auto simp: at_inv_def)
qed

theorem atomic_task_safe_witness:
  "\<exists>a. at_reach (NewAtomicTask 1) a \<and> CWaiting \<in> set (at_callers a) \<and> busy a = 1 \<and> sint (at_count a) = 1"
proof -
  let ?a0 = "NewAtomicTask 1"
  let ?a1 = "?a0\<lparr>at_callers := [CLoad]\<rparr>"
  let ?a2 = "?a0\<lparr>at_callers := [CCas 0]\<rparr>"
  let ?a3 = "?a0\<lparr>at_count := 1, at_callers := [CReturned], at_workers := [WTask]\<rparr>"
  let ?a4 = "?a3\<lparr>at_callers := [CReturned, CLoad]\<rparr>"
  let ?a5 = "?a3\<lparr>at_callers := [CReturned, CBlock]\<rparr>"
  let ?a6 = "?a3\<lparr>at_callers := [CReturned, CWaiting]\<rparr>"
  have "at_reach ?a0 ?a1" by (rule at_reach.step [OF at_reach.refl]) (use at_step.call_run [of ?a0] in \<open>simp add: NewAtomicTask_def\<close>)
  then have "at_reach ?a0 ?a2" by (rule at_reach.step) (use at_step.load [of 0 ?a1] in \<open>simp add: NewAtomicTask_def\<close>)
  then have "at_reach ?a0 ?a3" by (rule at_reach.step) (use at_step.cas [of 0 ?a2 0] in \<open>simp add: NewAtomicTask_def\<close>)
  then have "at_reach ?a0 ?a4" by (rule at_reach.step) (use at_step.call_run [of ?a3] in \<open>simp add: NewAtomicTask_def\<close>)
  then have "at_reach ?a0 ?a5" by (rule at_reach.step) (use at_step.load [of 1 ?a4] in \<open>simp add: NewAtomicTask_def\<close>)
  then have "at_reach ?a0 ?a6" by (rule at_reach.step) (use at_step.block [of 1 ?a5] in \<open>simp add: NewAtomicTask_def Block_def\<close>)
  with atomic_task_safe [of 1 ?a6] show ?thesis by (intro exI [of _ ?a6]) simp
qed

text \<open>
  \<^verbatim>\<open>ChanTask\<close> runs at most as many tasks at once as its channel has places, and its wait group is zero, so
  that \<^verbatim>\<open>Wait\<close> returns, exactly when no call of \<^verbatim>\<open>Run\<close> is waiting for a place and every task has finished.
\<close>

theorem chan_task_safe:
  assumes "ct_reach (NewChanTask count) a"
  shows "cnt (\<lambda>w. w = HTask) (ct_workers a) \<le> count \<and>
    (ct_wg a = 0 \<longleftrightarrow> HSend \<notin> set (ct_callers a) \<and> set (ct_workers a) \<subseteq> {HEnd})"
proof -
  have i: "ct_inv a" using assms by (rule ct_reach_inv) (simp add: ct_inv_def NewChanTask_def)
  have "ct_cap a = count"
    using assms by (induction "NewChanTask count" a rule: ct_reach.induct) (auto simp: NewChanTask_def elim!: ct_step.cases)
  moreover have "cnt (\<lambda>w. w = HTask) xs \<le> cnt (\<lambda>w. w = HTask \<or> w = HToken) xs" for xs
    by (induction xs) auto
  ultimately show ?thesis using i by (fastforce simp: ct_inv_def cnt_0_iff intro: order_trans)
qed

theorem chan_task_safe_witness:
  "\<exists>a. ct_reach (NewChanTask 1) a \<and> ct_workers a = [HTask] \<and> ct_wg a \<noteq> 0"
proof -
  let ?a0 = "NewChanTask 1"
  let ?a1 = "?a0\<lparr>ct_wg := 1, ct_callers := [HSend]\<rparr>"
  let ?a2 = "?a0\<lparr>ct_wg := 1, ct_tokens := 1, ct_callers := [HReturned], ct_workers := [HTask]\<rparr>"
  have "ct_reach ?a0 ?a1" by (rule ct_reach.step [OF ct_reach.refl]) (use ct_step.call [of ?a0] in \<open>simp add: NewChanTask_def\<close>)
  then have "ct_reach ?a0 ?a2" by (rule ct_reach.step) (use ct_step.send [of 0 ?a1] in \<open>simp add: NewChanTask_def\<close>)
  with chan_task_safe [of 1 ?a2] show ?thesis by (intro exI [of _ ?a2]) auto
qed

text \<open>
  Collecting results is exact: whatever the interleaving, no goroutine ever sends to the closed channel,
  at most the wanted number of results is sent, and when all goroutines have ended without the outer
  context being cancelled, exactly the wanted number was sent, or all successful results if there were
  fewer.
\<close>

theorem collect_results_exact:
  assumes "rs_reach (start_results n m) s"
  shows "\<not> rs_panic s \<and> length (rs_sent s) \<le> n \<and>
    (list_all ended (rs_goroutines s) \<and> \<not> rs_outer s \<longrightarrow>
      length (rs_sent s) = min n (cnt (\<lambda>k. k \<noteq> KFailed) (rs_goroutines s)))"
proof -
  have i: "rs_inv s" using assms start_results_inv by (rule rs_reach_inv)
  have n: "rs_expect s = n"
    using assms by (induction "start_results n m :: 'a results" s rule: rs_reach.induct)
      (auto simp: start_results_def goto_k_def elim!: rs_step.cases)
  have "length (rs_sent s) = min n (cnt (\<lambda>k. k \<noteq> KFailed) (rs_goroutines s))"
    if e: "list_all ended (rs_goroutines s)" and o: "\<not> rs_outer s"
  proof -
    have z: "cnt sending (rs_goroutines s) = 0" "cnt (\<lambda>k. k = KEnter) (rs_goroutines s) = 0"
      using e by (auto simp: cnt_0_iff list_all_iff ended_def sending_def)
    have "list_all ended gs \<Longrightarrow> cnt (\<lambda>k. k \<noteq> KFailed) gs = cnt (\<lambda>k. k = KDone) gs + cnt (\<lambda>k. k = KSkipped) gs" for gs :: "'a collector list"
      by (induction gs) (auto simp: ended_def)
    with e have "cnt (\<lambda>k. k \<noteq> KFailed) (rs_goroutines s) = cnt (\<lambda>k. k = KDone) (rs_goroutines s) + cnt (\<lambda>k. k = KSkipped) (rs_goroutines s)"
      by blast
    with i z n o show ?thesis by (auto simp: rs_inv_def Let_def max_def split: if_splits)
  qed
  with i n show ?thesis by (auto simp: rs_inv_def Let_def max_def split: if_splits)
qed

theorem collect_results_exact_witness:
  "\<exists>s. rs_reach (start_results 1 1 :: nat results) s \<and> rs_sent s = [7] \<and> rs_closed s \<and> \<not> rs_panic s"
proof -
  let ?s0 = "start_results 1 1 :: nat results"
  let ?s1 = "?s0\<lparr>rs_goroutines := [KCheck 7]\<rparr>"
  let ?s2 = "?s0\<lparr>rs_goroutines := [KTicket 7]\<rparr>"
  let ?s3 = "?s0\<lparr>resultCount := 0, rs_goroutines := [KSend 7]\<rparr>"
  let ?s4 = "?s3\<lparr>rs_buffer := [7], rs_sent := [7], rs_goroutines := [KEnter]\<rparr>"
  let ?s5 = "?s4\<lparr>enterCount := 0, rs_inner := True, rs_closed := True, rs_goroutines := [KDone]\<rparr>"
  have "rs_reach ?s0 ?s1" by (rule rs_reach.step [OF rs_reach.refl]) (use rs_step.fn_ok [of 0 ?s0 7] in \<open>simp add: start_results_def goto_k_def\<close>)
  then have "rs_reach ?s0 ?s2" by (rule rs_reach.step) (use rs_step.check [of 0 ?s1 7] in \<open>simp add: start_results_def goto_k_def\<close>)
  then have "rs_reach ?s0 ?s3" by (rule rs_reach.step) (use rs_step.ticket [of 0 ?s2 7] in \<open>simp add: start_results_def goto_k_def\<close>)
  then have "rs_reach ?s0 ?s4" by (rule rs_reach.step) (use rs_step.send [of 0 ?s3 7] in \<open>simp add: start_results_def goto_k_def\<close>)
  then have "rs_reach ?s0 ?s5" by (rule rs_reach.step) (use rs_step.enter [of 0 ?s4] in \<open>simp add: start_results_def goto_k_def\<close>)
  with collect_results_exact [of 1 1 ?s5] show ?thesis by (intro exI [of _ ?s5]) simp
qed

subsection \<open>Results with a timeout\<close>

text \<open>
  \<^verbatim>\<open>RunTaskGetSpecifyQuantityResultTimeOutContext\<close>: a goroutine forwards the results of the collection above to a
  second channel of the same capacity until the inner channel is closed or the context (which is the
  outer context of the collection) is over. \<open>FGot v\<close> is between receiving \<open>v\<close> and forwarding it.
\<close>

datatype 'v forward_pc = FSelect | FGot 'v | FReturned

record 'v forwarder =
  fw_inner :: "'v results"
  fw_pc :: "'v forward_pc"
  fw_buffer :: "'v list"
  fw_sent :: "'v list"
  fw_closed :: bool

definition start_forwarder :: "nat \<Rightarrow> nat \<Rightarrow> 'v forwarder" where
  "start_forwarder expectResultCount n = \<lparr>fw_inner = start_results expectResultCount n, fw_pc = FSelect, fw_buffer = [],
     fw_sent = [], fw_closed = False\<rparr>"

text \<open>The steps of the collection, except receiving, which only the forwarder does.\<close>

definition collect_step :: "'v results \<Rightarrow> 'v results \<Rightarrow> bool" where
  "collect_step s s' \<longleftrightarrow> rs_step s s' \<and> length (rs_buffer s) \<le> length (rs_buffer s')"

inductive fw_step :: "'v forwarder \<Rightarrow> 'v forwarder \<Rightarrow> bool" where
  inner: "collect_step (fw_inner f) r \<Longrightarrow> fw_step f (f\<lparr>fw_inner := r\<rparr>)"
| timed_out: "fw_pc f = FSelect \<Longrightarrow> rs_outer (fw_inner f) \<Longrightarrow> fw_step f (f\<lparr>fw_pc := FReturned, fw_closed := True\<rparr>)"
| take: "fw_pc f = FSelect \<Longrightarrow> rs_buffer (fw_inner f) = v # vs \<Longrightarrow>
    fw_step f (f\<lparr>fw_inner := (fw_inner f)\<lparr>rs_buffer := vs\<rparr>, fw_pc := FGot v\<rparr>)"
| exhausted: "fw_pc f = FSelect \<Longrightarrow> rs_buffer (fw_inner f) = [] \<Longrightarrow> rs_closed (fw_inner f) \<Longrightarrow>
    fw_step f (f\<lparr>fw_pc := FReturned, fw_closed := True\<rparr>)"
| put: "fw_pc f = FGot v \<Longrightarrow>
    fw_step f (if length (fw_buffer f) < rs_expect (fw_inner f)
      then f\<lparr>fw_pc := FSelect, fw_buffer := fw_buffer f @ [v], fw_sent := fw_sent f @ [v]\<rparr>
      else f\<lparr>fw_pc := FSelect\<rparr>)"
| caller: "fw_buffer f = v # vs \<Longrightarrow> fw_step f (f\<lparr>fw_buffer := vs\<rparr>)"

definition in_hand :: "'v forwarder \<Rightarrow> 'v list" where
  "in_hand f = (case fw_pc f of FGot v \<Rightarrow> [v] | _ \<Rightarrow> [])"

definition fw_inv :: "nat \<Rightarrow> 'v forwarder \<Rightarrow> bool" where
  "fw_inv n f \<longleftrightarrow> rs_inv (fw_inner f) \<and> rs_expect (fw_inner f) = n \<and>
     rs_sent (fw_inner f) = fw_sent f @ in_hand f @ rs_buffer (fw_inner f) \<and>
     length (fw_buffer f) \<le> length (fw_sent f) \<and>
     (fw_pc f = FReturned \<and> \<not> rs_outer (fw_inner f) \<longrightarrow> rs_closed (fw_inner f) \<and> rs_buffer (fw_inner f) = [])"

lemma rs_inv_sent: "rs_inv s \<Longrightarrow> length (rs_sent s) \<le> rs_expect s"
  by (auto simp: rs_inv_def Let_def max_def split: if_splits)

lemma rs_inv_receive: "rs_inv s \<Longrightarrow> rs_buffer s = v # vs \<Longrightarrow> rs_inv (s\<lparr>rs_buffer := vs\<rparr>)"
  by (rule rs_step_inv [OF rs_step.receive])

lemma collect_step_sent:
  assumes "collect_step s s'" and "rs_inv s"
  shows "\<exists>x. rs_sent s' = rs_sent s @ x \<and> rs_buffer s' = rs_buffer s @ x \<and> (rs_closed s \<longrightarrow> x = [] \<and> rs_closed s') \<and>
    rs_expect s' = rs_expect s \<and> (rs_outer s \<longrightarrow> rs_outer s')"
proof -
  have "rs_step s s'" "length (rs_buffer s) \<le> length (rs_buffer s')" using assms(1) by (auto simp: collect_step_def)
  then show ?thesis
  proof (induction rule: rs_step.induct)
    case (send i s v)
    then show ?case by (auto simp: goto_k_def)
  qed (auto simp: goto_k_def)
qed

lemma fw_step_inv: "fw_step f f' \<Longrightarrow> fw_inv n f \<Longrightarrow> fw_inv n f'"
proof (induction rule: fw_step.induct)
  case (inner f r)
  then have i: "rs_inv (fw_inner f)" by (simp add: fw_inv_def)
  have "rs_inv r" using inner(1) i by (auto simp: collect_step_def intro: rs_step_inv)
  with collect_step_sent [OF inner(1) i] inner(2) show ?case by (auto simp: fw_inv_def in_hand_def)
next
  case (put f v)
  then have "length (fw_sent f) < rs_expect (fw_inner f)"
    using rs_inv_sent [of "fw_inner f"] by (auto simp: fw_inv_def in_hand_def)
  with put have "length (fw_buffer f) < rs_expect (fw_inner f)" by (auto simp: fw_inv_def)
  with put show ?case by (auto simp: fw_inv_def in_hand_def)
qed (auto simp: fw_inv_def in_hand_def rs_inv_receive)

lemma fw_reach_inv: "fw_step\<^sup>*\<^sup>* f f' \<Longrightarrow> fw_inv n f \<Longrightarrow> fw_inv n f'"
  by (induction rule: rtranclp_induct) (auto intro: fw_step_inv)

lemma start_forwarder_inv: "fw_inv n (start_forwarder n m)"
  using start_results_inv [of n m] by (simp add: fw_inv_def start_forwarder_def in_hand_def) (simp add: start_results_def)

text \<open>
  The variant with a timeout loses no result: whatever the interleaving, what it forwards is a prefix of what
  the collection sent, the non-blocking send never drops a value, and when it returns without a
  timeout it has forwarded everything.
\<close>

theorem timeout_results_forwarded:
  assumes "fw_step\<^sup>*\<^sup>* (start_forwarder n m) f"
  shows "(\<exists>rest. rs_sent (fw_inner f) = fw_sent f @ rest) \<and> length (fw_sent f) \<le> n \<and>
    (fw_pc f = FReturned \<and> \<not> rs_outer (fw_inner f) \<longrightarrow> fw_sent f = rs_sent (fw_inner f))"
proof -
  have i: "fw_inv n f" using assms start_forwarder_inv by (rule fw_reach_inv)
  then have "length (rs_sent (fw_inner f)) \<le> n" using rs_inv_sent [of "fw_inner f"] by (auto simp: fw_inv_def)
  with i show ?thesis by (auto simp: fw_inv_def in_hand_def)
qed

lemma fw_inner_step:
  "fw_step\<^sup>*\<^sup>* f0 f \<Longrightarrow> rs_step (fw_inner f) r \<Longrightarrow> length (rs_buffer (fw_inner f)) \<le> length (rs_buffer r) \<Longrightarrow>
   fw_step\<^sup>*\<^sup>* f0 (f\<lparr>fw_inner := r\<rparr>)"
  by (erule rtranclp.rtrancl_into_rtrancl) (auto simp: collect_step_def intro: fw_step.inner)

theorem timeout_results_forwarded_witness:
  "\<exists>f. fw_step\<^sup>*\<^sup>* (start_forwarder 1 1 :: nat forwarder) f \<and> fw_pc f = FReturned \<and> fw_sent f = [7] \<and>
     rs_sent (fw_inner f) = [7]"
proof -
  let ?f = "start_forwarder 1 1 :: nat forwarder"
  let ?s0 = "start_results 1 1 :: nat results"
  let ?s1 = "?s0\<lparr>rs_goroutines := [KCheck 7]\<rparr>"
  let ?s2 = "?s0\<lparr>rs_goroutines := [KTicket 7]\<rparr>"
  let ?s3 = "?s0\<lparr>resultCount := 0, rs_goroutines := [KSend 7]\<rparr>"
  let ?s4 = "?s3\<lparr>rs_buffer := [7], rs_sent := [7], rs_goroutines := [KEnter]\<rparr>"
  let ?s5 = "?s4\<lparr>enterCount := 0, rs_inner := True, rs_closed := True, rs_goroutines := [KDone]\<rparr>"
  note defs = start_results_def start_forwarder_def goto_k_def
  have "fw_step\<^sup>*\<^sup>* ?f (?f\<lparr>fw_inner := ?s1\<rparr>)"
    by (rule fw_inner_step) (use rs_step.fn_ok [of 0 ?s0 7] in \<open>simp_all add: defs\<close>)
  from fw_inner_step [OF this, of ?s2] have "fw_step\<^sup>*\<^sup>* ?f (?f\<lparr>fw_inner := ?s2\<rparr>)"
    using rs_step.check [of 0 ?s1 7] by (simp add: defs)
  from fw_inner_step [OF this, of ?s3] have "fw_step\<^sup>*\<^sup>* ?f (?f\<lparr>fw_inner := ?s3\<rparr>)"
    using rs_step.ticket [of 0 ?s2 7] by (simp add: defs)
  from fw_inner_step [OF this, of ?s4] have "fw_step\<^sup>*\<^sup>* ?f (?f\<lparr>fw_inner := ?s4\<rparr>)"
    using rs_step.send [of 0 ?s3 7] by (simp add: defs)
  from fw_inner_step [OF this, of ?s5] have "fw_step\<^sup>*\<^sup>* ?f (?f\<lparr>fw_inner := ?s5\<rparr>)"
    using rs_step.enter [of 0 ?s4] by (simp add: defs)
  then have "fw_step\<^sup>*\<^sup>* ?f (?f\<lparr>fw_inner := ?s5\<lparr>rs_buffer := []\<rparr>, fw_pc := FGot 7\<rparr>)"
    by (rule rtranclp.rtrancl_into_rtrancl) (use fw_step.take [of "?f\<lparr>fw_inner := ?s5\<rparr>" 7 "[]"] in \<open>simp add: defs\<close>)
  then have "fw_step\<^sup>*\<^sup>* ?f (?f\<lparr>fw_inner := ?s5\<lparr>rs_buffer := []\<rparr>, fw_buffer := [7], fw_sent := [7]\<rparr>)"
    by (rule rtranclp.rtrancl_into_rtrancl)
      (use fw_step.put [of "?f\<lparr>fw_inner := ?s5\<lparr>rs_buffer := []\<rparr>, fw_pc := FGot 7\<rparr>" 7] in \<open>simp add: defs\<close>)
  then have r: "fw_step\<^sup>*\<^sup>* ?f (?f\<lparr>fw_inner := ?s5\<lparr>rs_buffer := []\<rparr>, fw_pc := FReturned, fw_buffer := [7], fw_sent := [7], fw_closed := True\<rparr>)"
    by (rule rtranclp.rtrancl_into_rtrancl)
      (use fw_step.exhausted [of "?f\<lparr>fw_inner := ?s5\<lparr>rs_buffer := []\<rparr>, fw_buffer := [7], fw_sent := [7]\<rparr>"] in \<open>simp add: defs\<close>)
  from timeout_results_forwarded [OF r] r show ?thesis by (auto simp: defs)
qed

end
