(* ===== verification/RandString.thy ===== *)
theory RandString
  imports Prelude
begin

text \<open>
  \<^verbatim>\<open>RandStringBytesMaskImprSrcSB\<close> of \<^verbatim>\<open>utils/tool.go\<close>, the random part of a message id: each number drawn from
  the source yields ten candidates of six bits, and those below 52 select a letter. \<open>draws k\<close> is the
  \<open>k\<close>-th result of \<^verbatim>\<open>src.Int63()\<close>. The loop may run for ever (\<open>None\<close>) on a source without usable bits.
\<close>

unbundle bit_operations_syntax

definition letterBytes :: string where
  "letterBytes = ''abcdefghijklmnopqrstuvwxyzABCDEFGHIJKLMNOPQRSTUVWXYZ''"

definition letterIdxBits :: nat where "letterIdxBits = 6"
definition letterIdxMask :: "64 word" where "letterIdxMask = push_bit letterIdxBits 1 - 1"
definition letterIdxMax :: nat where "letterIdxMax = 63 div letterIdxBits"

partial_function (option) rand_loop ::
    "(nat \<Rightarrow> 64 word) \<Rightarrow> int \<Rightarrow> 64 word \<Rightarrow> nat \<Rightarrow> nat \<Rightarrow> string \<Rightarrow> string option" where
  "rand_loop draws i cache remain k sb =
     (if i < 0 then Some sb
      else (let cache1 = (if remain = 0 then draws k else cache);
                remain1 = (if remain = 0 then letterIdxMax else remain);
                k1 = (if remain = 0 then k + 1 else k);
                idx = unat (cache1 AND letterIdxMask);
                ok = idx < length letterBytes
            in rand_loop draws (if ok then i - 1 else i) (drop_bit letterIdxBits cache1) (remain1 - 1) k1
                 (if ok then sb @ [letterBytes ! idx] else sb)))"

text \<open>\<^verbatim>\<open>sb.Grow(n)\<close> panics for a negative \<open>n\<close>.\<close>

definition RandStringBytesMaskImprSrcSB :: "(nat \<Rightarrow> 64 word) \<Rightarrow> int \<Rightarrow> string outcome option" where
  "RandStringBytesMaskImprSrcSB draws n =
     (if n < 0 then Some Panic else map_option Ret (rand_loop draws (n - 1) (draws 0) letterIdxMax 1 ''''))"

subsection \<open>The stream of candidates\<close>

definition candidate :: "(nat \<Rightarrow> 64 word) \<Rightarrow> nat \<Rightarrow> nat" where
  "candidate draws m = unat (drop_bit (6 * (m mod 10)) (draws (m div 10)) AND 63)"

definition letters :: "(nat \<Rightarrow> 64 word) \<Rightarrow> nat list \<Rightarrow> string" where
  "letters draws ms = map ((!) letterBytes) (filter (\<lambda>x. x < 52) (map (candidate draws) ms))"

lemmas rand_consts = letterIdxBits_def letterIdxMask_def letterIdxMax_def

lemma length_letterBytes [simp]: "length letterBytes = 52"
  by (simp add: letterBytes_def)

lemma mask_63 [simp]: "letterIdxMask = 63"
  by (simp add: rand_consts)

text \<open>The loop at candidate number \<open>m\<close>.\<close>

definition loop_at :: "(nat \<Rightarrow> 64 word) \<Rightarrow> int \<Rightarrow> nat \<Rightarrow> string \<Rightarrow> string option" where
  "loop_at draws i m sb =
     rand_loop draws i (drop_bit (6 * (m mod 10)) (draws (m div 10))) (10 - m mod 10) (m div 10 + 1) sb"

lemma rand_loop_refresh: "rand_loop draws i cache 0 k sb = rand_loop draws i (draws k) 10 (k + 1) sb"
  by (subst (1 2) rand_loop.simps) (simp add: rand_consts Let_def)

lemma loop_at_step:
  assumes "0 \<le> i"
  shows "loop_at draws i m sb =
    (if candidate draws m < 52 then loop_at draws (i - 1) (Suc m) (sb @ [letterBytes ! candidate draws m])
     else loop_at draws i (Suc m) sb)"
proof -
  have mod10: "\<not> 10 \<le> m mod 10" by (simp add: not_le)
  have "loop_at draws i m sb =
      rand_loop draws (if candidate draws m < 52 then i - 1 else i)
        (drop_bit (6 * Suc (m mod 10)) (draws (m div 10))) (9 - m mod 10) (m div 10 + 1)
        (if candidate draws m < 52 then sb @ [letterBytes ! candidate draws m] else sb)"
    unfolding loop_at_def
    by (subst rand_loop.simps)
      (use assms mod10 in \<open>simp add: candidate_def Let_def letterIdxBits_def drop_bit_drop_bit add.commute\<close>)
  also have "\<dots> = (if candidate draws m < 52 then loop_at draws (i - 1) (Suc m) (sb @ [letterBytes ! candidate draws m])
     else loop_at draws i (Suc m) sb)"
  proof (cases "m mod 10 = 9")
    case True
    then have "Suc m mod 10 = 0" "Suc m div 10 = m div 10 + 1" by presburger+
    with True show ?thesis by (simp add: loop_at_def rand_loop_refresh)
  next
    case False
    then have "Suc m mod 10 = Suc (m mod 10)" "Suc m div 10 = m div 10" by presburger+
    then show ?thesis by (simp add: loop_at_def)
  qed
  finally show ?thesis .
qed

lemma loop_at_skip:
  assumes "0 \<le> i" and "\<And>j. j < d \<Longrightarrow> \<not> candidate draws (m + j) < 52"
  shows "loop_at draws i m sb = loop_at draws i (m + d) sb \<and> letters draws [m..<m + d] = ''''"
  using assms(2)
proof (induction d)
  case (Suc d)
  then have "loop_at draws i m sb = loop_at draws i (m + d) sb" "letters draws [m..<m + d] = ''''" by simp_all
  moreover have "loop_at draws i (m + d) sb = loop_at draws i (m + Suc d) sb"
    using loop_at_step [OF assms(1), of draws "m + d" sb] Suc.prems [of d] by simp
  ultimately show ?case using Suc.prems [of d] by (simp add: letters_def)
qed (simp add: letters_def)

lemma loop_at_total:
  assumes "\<And>m. \<exists>j. candidate draws (m + j) < 52"
  shows "\<exists>M. m \<le> M \<and> loop_at draws (int n - 1) m sb = Some (sb @ letters draws [m..<M]) \<and> length (letters draws [m..<M]) = n"
proof (induction n arbitrary: m sb)
  case 0
  then show ?case
    by (intro exI [of _ m]) (subst loop_at_def, subst rand_loop.simps, simp add: letters_def)
next
  case (Suc n)
  define d where "d = (LEAST j. candidate draws (m + j) < 52)"
  have d: "candidate draws (m + d) < 52" unfolding d_def using assms by (rule LeastI_ex)
  have "\<not> candidate draws (m + j) < 52" if "j < d" for j using that unfolding d_def by (rule not_less_Least)
  then have s: "loop_at draws (int n) m sb = loop_at draws (int n) (m + d) sb" "letters draws [m..<m + d] = ''''"
    using loop_at_skip [of "int n" d draws m sb] by simp_all
  obtain M where M: "Suc (m + d) \<le> M" "length (letters draws [Suc (m + d)..<M]) = n"
    "loop_at draws (int n - 1) (Suc (m + d)) (sb @ [letterBytes ! candidate draws (m + d)]) =
      Some ((sb @ [letterBytes ! candidate draws (m + d)]) @ letters draws [Suc (m + d)..<M])"
    using Suc.IH [of "Suc (m + d)" "sb @ [letterBytes ! candidate draws (m + d)]"] by blast
  have "[m..<M] = [m..<m + d] @ (m + d) # [Suc (m + d)..<M]"
    using upt_add_eq_append [of m "m + d" "M - (m + d)"] upt_conv_Cons [of "m + d" M] M(1) by simp
  then have "letters draws [m..<M] = letterBytes ! candidate draws (m + d) # letters draws [Suc (m + d)..<M]"
    using s(2) d by (simp add: letters_def)
  with s(1) M d loop_at_step [of "int n" draws "m + d" sb] show ?case by (intro exI [of _ M]) simp
qed

subsection \<open>Property\<close>

text \<open>
  A random string has the requested length and consists of letters: if the source keeps producing usable
  bits, \<^verbatim>\<open>RandStringBytesMaskImprSrcSB(n)\<close> returns the letters selected by the first \<open>n\<close> candidates below 52, in
  order, skipping the others, across the numbers drawn.
\<close>

theorem RandString_letters:
  assumes "\<And>m. \<exists>j. candidate draws (m + j) < 52"
  shows "\<exists>M s. RandStringBytesMaskImprSrcSB draws (int n) = Some (Ret s) \<and> s = letters draws [0..<M] \<and>
    length s = n \<and> set s \<subseteq> set letterBytes"
proof -
  obtain M where M: "loop_at draws (int n - 1) 0 '''' = Some ('''' @ letters draws [0..<M])" "length (letters draws [0..<M]) = n"
    using loop_at_total [OF assms, of 0 n "''''"] by blast
  have "RandStringBytesMaskImprSrcSB draws (int n) = map_option Ret (loop_at draws (int n - 1) 0 '''')"
    by (simp add: RandStringBytesMaskImprSrcSB_def loop_at_def letterIdxMax_def letterIdxBits_def)
  moreover have "set (letters draws [0..<M]) \<subseteq> set letterBytes"
    by (auto simp: letters_def)
  ultimately show ?thesis using M by (intro exI [of _ M]) simp
qed

theorem RandString_letters_witness:
  "\<exists>s. RandStringBytesMaskImprSrcSB (\<lambda>k. 4037) 8 = Some (Ret s) \<and> length s = 8"
proof -
  have "candidate (\<lambda>k. 4037) (m + 9 * m) < 52" for m
    by (simp add: candidate_def)
  then have "\<exists>j. candidate (\<lambda>k. 4037) (m + j) < 52" for m by blast
  from RandString_letters [OF this, of 8] show ?thesis by auto
qed

subsection \<open>Random digits\<close>

text \<open>
  \<^verbatim>\<open>RandomNum\<close> of \<^verbatim>\<open>utils/rabbitMQ/rabbitMQPool.go\<close>: \<open>Intn i n\<close> is the result of the \<open>i\<close>-th call of \<^verbatim>\<open>rand.Intn(n)\<close>; an index outside
  the array is a panic.
\<close>

definition numberAttr :: "nat list" where
  "numberAttr = [0, 1, 2, 3, 4, 5, 6, 7, 8, 9]"

fun num_loop :: "(nat \<Rightarrow> nat \<Rightarrow> nat) \<Rightarrow> nat \<Rightarrow> nat \<Rightarrow> string \<Rightarrow> string outcome" where
  "num_loop Intn i 0 sb = Ret sb"
| "num_loop Intn i (Suc k) sb = (let j = Intn i (length numberAttr) in
     if j < length numberAttr then num_loop Intn (Suc i) k (sb @ itoa (numberAttr ! j)) else Panic)"

definition RandomNum :: "(nat \<Rightarrow> nat \<Rightarrow> nat) \<Rightarrow> int \<Rightarrow> string outcome" where
  "RandomNum Intn len = num_loop Intn 0 (nat len) ''''"

lemma numberAttr_length: "length numberAttr = 10"
  by (simp add: numberAttr_def)

lemma numberAttr_nth: "j < 10 \<Longrightarrow> numberAttr ! j = j"
  by (auto simp: numberAttr_def less_Suc_eq numeral_eq_Suc)

text \<open>It returns exactly the digits drawn, as many as asked for; nothing for a negative number.\<close>

lemma RandomNum_digits:
  assumes "\<And>i n. 0 < n \<Longrightarrow> Intn i n < n"
  shows "RandomNum Intn len = Ret (map (\<lambda>i. char_of (48 + Intn i 10)) [0..<nat len])"
proof -
  have "num_loop Intn i k sb = Ret (sb @ map (\<lambda>j. char_of (48 + Intn j 10)) [i..<i + k])" for i k sb
  proof (induction k arbitrary: i sb)
    case (Suc k)
    have "Intn i 10 < 10" using assms [of 10 i] by simp
    with Suc.IH [of "Suc i"] show ?case
      by (simp add: numberAttr_nth numberAttr_length itoa.simps [of "Intn i 10"] upt_conv_Cons Let_def del: upt_Suc)
  qed simp
  then show ?thesis by (simp add: RandomNum_def)
qed

end
