(* ===== verification/Listeners.thy ===== *)
theory Listeners
  imports Prelude "HOL-Library.AList"
begin

text \<open>
  \<^verbatim>\<open>server/tcp_server.go\<close>: opening the listeners, the accept loops, and the goroutine that guards each accepted
  connection. Whether \<^verbatim>\<open>net.Listen\<close> succeeds is the parameter \<open>listen\<close>, given the addresses already bound.
  What the network does (a client connects, an accept fails on an open listener) is \<open>net_step\<close>; everything
  the server does is \<open>loop_step\<close> and \<open>tcp_step\<close>.
\<close>

subsection \<open>Opening\<close>

text \<open>
  \<^verbatim>\<open>m.tcpListener\<close> as an association list from addresses to whether the listener is open. The two
  initialisers differ only in the configured list they read; a failing \<^verbatim>\<open>net.Listen\<close> panics.
\<close>

type_synonym listeners = "(string \<times> bool) list"

fun listen_all :: "(string list \<Rightarrow> string \<Rightarrow> bool) \<Rightarrow> string list \<Rightarrow> string list \<Rightarrow> listeners \<Rightarrow> listeners outcome" where
  "listen_all listen bound [] ls = Ret ls"
| "listen_all listen bound (v # vs) ls =
     (if listen bound v then listen_all listen (v # bound) vs (AList.update v True ls) else Panic)"

definition initIpv4TcpListener :: "(string list \<Rightarrow> string \<Rightarrow> bool) \<Rightarrow> string list \<Rightarrow> listeners outcome" where
  "initIpv4TcpListener listen addrs = listen_all listen [] addrs []"

definition initIpv6TcpListener :: "(string list \<Rightarrow> string \<Rightarrow> bool) \<Rightarrow> string list \<Rightarrow> listeners outcome" where
  "initIpv6TcpListener listen addrs = listen_all listen [] addrs []"

definition initShadowSocksListener :: "(string list \<Rightarrow> string \<Rightarrow> bool) \<Rightarrow> string list \<Rightarrow> string \<Rightarrow> bool outcome" where
  "initShadowSocksListener listen bound addr = (if listen bound addr then Ret True else Panic)"

subsection \<open>A connection and its guard\<close>

text \<open>
  The guard waits for the context or for the handler (\<open>SSelect\<close>), closes the connection, waits for the
  handler (\<open>SDrain\<close>) and signals the loop (\<open>SEnd\<close>).
\<close>

datatype serve_pc = SSelect | SDrain | SEnd

record accepted =
  ac_pc :: serve_pc
  ac_handling :: bool
  ac_open :: bool

definition new_accepted :: accepted where
  "new_accepted = \<lparr>ac_pc = SSelect, ac_handling = True, ac_open = True\<rparr>"

inductive serve_step :: "bool \<Rightarrow> accepted \<Rightarrow> accepted \<Rightarrow> bool" for cancelled where
  ctx_done: "cancelled \<Longrightarrow> ac_pc c = SSelect \<Longrightarrow> serve_step cancelled c (c\<lparr>ac_pc := SDrain, ac_open := False\<rparr>)"
| handler_done: "ac_pc c = SSelect \<Longrightarrow> \<not> ac_handling c \<Longrightarrow>
    serve_step cancelled c (c\<lparr>ac_pc := SDrain, ac_open := False\<rparr>)"
| drained: "ac_pc c = SDrain \<Longrightarrow> \<not> ac_handling c \<Longrightarrow> serve_step cancelled c (c\<lparr>ac_pc := SEnd\<rparr>)"
| handler_returns: "ac_handling c \<Longrightarrow> serve_step cancelled c (c\<lparr>ac_handling := False\<rparr>)"

subsection \<open>An accept loop\<close>

datatype accept_pc =
    LTest     \<comment> \<open>at the test of \<^verbatim>\<open>m.isRun\<close>\<close>
  | LAccept   \<comment> \<open>in \<^verbatim>\<open>Accept\<close>\<close>
  | LWait     \<comment> \<open>in the deferred wait for the guards\<close>
  | LReturned

record accept_loop =
  lp_open :: bool
  lp_pc :: accept_pc
  lp_conns :: "accepted list"

definition new_loop :: accept_loop where
  "new_loop = \<lparr>lp_open = True, lp_pc = LTest, lp_conns = []\<rparr>"

inductive loop_step :: "bool \<Rightarrow> bool \<Rightarrow> accept_loop \<Rightarrow> accept_loop \<Rightarrow> bool" for running cancelled where
  again: "running \<Longrightarrow> lp_pc l = LTest \<Longrightarrow> loop_step running cancelled l (l\<lparr>lp_pc := LAccept\<rparr>)"
| leave: "\<not> running \<Longrightarrow> lp_pc l = LTest \<Longrightarrow> loop_step running cancelled l (l\<lparr>lp_pc := LWait\<rparr>)"
| closed: "lp_pc l = LAccept \<Longrightarrow> \<not> lp_open l \<Longrightarrow> loop_step running cancelled l (l\<lparr>lp_pc := LTest\<rparr>)"
| joined: "lp_pc l = LWait \<Longrightarrow> list_all (\<lambda>c. ac_pc c = SEnd) (lp_conns l) \<Longrightarrow>
    loop_step running cancelled l (l\<lparr>lp_pc := LReturned\<rparr>)"
| serve: "i < length (lp_conns l) \<Longrightarrow> serve_step cancelled (lp_conns l ! i) c' \<Longrightarrow>
    loop_step running cancelled l (l\<lparr>lp_conns := (lp_conns l)[i := c']\<rparr>)"

inductive net_step :: "accept_loop \<Rightarrow> accept_loop \<Rightarrow> bool" where
  connects: "lp_pc l = LAccept \<Longrightarrow> lp_open l \<Longrightarrow>
    net_step l (l\<lparr>lp_pc := LTest, lp_conns := lp_conns l @ [new_accepted]\<rparr>)"
| accept_fails: "lp_pc l = LAccept \<Longrightarrow> lp_open l \<Longrightarrow> net_step l (l\<lparr>lp_pc := LTest\<rparr>)"

text \<open>
  \<^verbatim>\<open>tcpListenerAccept\<close> and \<^verbatim>\<open>shadowSocksListenerAccept\<close> run the same loop, the second on the listener that the
  server's \<^verbatim>\<open>Stop\<close> does not close.
\<close>

definition tcpListenerAccept :: "bool \<Rightarrow> bool \<Rightarrow> accept_loop \<Rightarrow> accept_loop \<Rightarrow> bool" where
  "tcpListenerAccept running cancelled l l' \<longleftrightarrow> loop_step running cancelled l l' \<or> net_step l l'"

definition shadowSocksListenerAccept :: "bool \<Rightarrow> bool \<Rightarrow> accept_loop \<Rightarrow> accept_loop \<Rightarrow> bool" where
  "shadowSocksListenerAccept running cancelled l l' \<longleftrightarrow> loop_step running cancelled l l' \<or> net_step l l'"

subsection \<open>All TCP listeners\<close>

text \<open>
  \<^verbatim>\<open>tcpAccept\<close> runs one loop per listener, joins them (\<open>TJoin\<close>) and waits up to five more seconds (\<open>TDelay\<close>).
  The server's \<^verbatim>\<open>Stop\<close> clears \<^verbatim>\<open>isRun\<close>, closes the listeners one by one and then cancels the context.
\<close>

datatype tcp_pc = TJoin | TDelay | TReturned

record tcp_state =
  tc_running :: bool
  tc_cancelled :: bool
  tc_loops :: "accept_loop list"
  tc_pc :: tcp_pc

definition tcp_start :: "nat \<Rightarrow> tcp_state" where
  "tcp_start n = \<lparr>tc_running = True, tc_cancelled = False, tc_loops = replicate n new_loop, tc_pc = TJoin\<rparr>"

inductive tcpAccept :: "tcp_state \<Rightarrow> tcp_state \<Rightarrow> bool" where
  loops: "i < length (tc_loops s) \<Longrightarrow> tcpListenerAccept (tc_running s) (tc_cancelled s) (tc_loops s ! i) l' \<Longrightarrow>
    tcpAccept s (s\<lparr>tc_loops := (tc_loops s)[i := l']\<rparr>)"
| joined_all: "tc_pc s = TJoin \<Longrightarrow> list_all (\<lambda>l. lp_pc l = LReturned) (tc_loops s) \<Longrightarrow>
    tcpAccept s (s\<lparr>tc_pc := TDelay\<rparr>)"
| delayed: "tc_pc s = TDelay \<Longrightarrow> tcpAccept s (s\<lparr>tc_pc := TReturned\<rparr>)"

inductive stop_step :: "tcp_state \<Rightarrow> tcp_state \<Rightarrow> bool" where
  flag: "stop_step s (s\<lparr>tc_running := False\<rparr>)"
| close: "\<not> tc_running s \<Longrightarrow> i < length (tc_loops s) \<Longrightarrow>
    stop_step s (s\<lparr>tc_loops := (tc_loops s)[i := (tc_loops s ! i)\<lparr>lp_open := False\<rparr>]\<rparr>)"
| cancel: "\<not> tc_running s \<Longrightarrow> list_all (\<lambda>l. \<not> lp_open l) (tc_loops s) \<Longrightarrow> stop_step s (s\<lparr>tc_cancelled := True\<rparr>)"

definition accepting :: "tcp_state \<Rightarrow> tcp_state \<Rightarrow> bool" where
  "accepting s s' \<longleftrightarrow> tcpAccept s s' \<or> stop_step s s'"

subsection \<open>Invariant\<close>

definition conn_ok :: "bool \<Rightarrow> accepted \<Rightarrow> bool" where
  "conn_ok cancelled c \<longleftrightarrow> (ac_open c \<longleftrightarrow> ac_pc c = SSelect) \<and> (ac_pc c = SEnd \<longrightarrow> \<not> ac_handling c) \<and>
     (\<not> ac_open c \<and> ac_handling c \<longrightarrow> cancelled)"

definition loop_ok :: "bool \<Rightarrow> bool \<Rightarrow> accept_loop \<Rightarrow> bool" where
  "loop_ok running cancelled l \<longleftrightarrow> list_all (conn_ok cancelled) (lp_conns l) \<and>
     (lp_pc l = LReturned \<longrightarrow> list_all (\<lambda>c. ac_pc c = SEnd) (lp_conns l)) \<and>
     (lp_pc l \<in> {LWait, LReturned} \<longrightarrow> \<not> running)"

definition tcp_ok :: "tcp_state \<Rightarrow> bool" where
  "tcp_ok s \<longleftrightarrow> list_all (loop_ok (tc_running s) (tc_cancelled s)) (tc_loops s) \<and>
     (tc_pc s \<noteq> TJoin \<longrightarrow> list_all (\<lambda>l. lp_pc l = LReturned) (tc_loops s)) \<and>
     (tc_cancelled s \<longrightarrow> \<not> tc_running s \<and> list_all (\<lambda>l. \<not> lp_open l) (tc_loops s))"

lemma serve_step_ok: "serve_step cancelled c c' \<Longrightarrow> conn_ok cancelled c \<Longrightarrow> conn_ok cancelled c'"
  by (erule serve_step.cases) (auto simp: conn_ok_def)

lemma serve_step_not_end: "serve_step cancelled c c' \<Longrightarrow> conn_ok cancelled c \<Longrightarrow> ac_pc c \<noteq> SEnd"
  by (erule serve_step.cases) (auto simp: conn_ok_def)

lemma loop_step_ok:
  assumes "loop_step running cancelled l l'" and "loop_ok running cancelled l"
  shows "loop_ok running cancelled l'"
  using assms
proof (induction rule: loop_step.induct)
  case (serve i l c')
  then have "conn_ok cancelled (lp_conns l ! i)" by (auto simp: loop_ok_def list_all_length)
  with serve have "conn_ok cancelled c'" "lp_pc l \<noteq> LReturned"
    using serve_step_ok serve_step_not_end by (auto simp: loop_ok_def list_all_length)
  with serve show ?case by (auto simp: loop_ok_def list_all_update)
qed (auto simp: loop_ok_def)

lemma net_step_ok: "net_step l l' \<Longrightarrow> loop_ok running cancelled l \<Longrightarrow> loop_ok running cancelled l'"
  by (erule net_step.cases) (auto simp: loop_ok_def conn_ok_def new_accepted_def)

lemma tcpListenerAccept_ok:
  "tcpListenerAccept running cancelled l l' \<Longrightarrow> loop_ok running cancelled l \<Longrightarrow> loop_ok running cancelled l'"
  by (auto simp: tcpListenerAccept_def intro: loop_step_ok net_step_ok)

lemma tcpListenerAccept_open: "tcpListenerAccept running cancelled l l' \<Longrightarrow> lp_open l' = lp_open l"
  by (auto simp: tcpListenerAccept_def elim!: loop_step.cases net_step.cases)

text \<open>A loop that has returned takes no further step.\<close>

lemma returned_stuck: "tcpListenerAccept running cancelled l l' \<Longrightarrow> loop_ok running cancelled l \<Longrightarrow> lp_pc l \<noteq> LReturned"
  by (auto simp: tcpListenerAccept_def loop_ok_def list_all_length
      elim!: loop_step.cases net_step.cases dest: serve_step_not_end)

lemma tcpAccept_ok: "tcpAccept s s' \<Longrightarrow> tcp_ok s \<Longrightarrow> tcp_ok s'"
proof (induction rule: tcpAccept.induct)
  case (loops i s l')
  then have l: "loop_ok (tc_running s) (tc_cancelled s) (tc_loops s ! i)" by (simp add: tcp_ok_def list_all_length)
  with loops have "loop_ok (tc_running s) (tc_cancelled s) l'" "lp_pc (tc_loops s ! i) \<noteq> LReturned"
    by (auto intro: tcpListenerAccept_ok dest: returned_stuck)
  with loops tcpListenerAccept_open [OF loops(2)] show ?case
    by (auto simp: tcp_ok_def list_all_length nth_list_update)
qed (auto simp: tcp_ok_def)

lemma loop_ok_mono: "loop_ok running cancelled l \<Longrightarrow> loop_ok False True l"
  by (auto simp: loop_ok_def conn_ok_def list_all_iff)

lemma loop_ok_stop: "loop_ok running cancelled l \<Longrightarrow> loop_ok False cancelled l"
  by (auto simp: loop_ok_def)

lemma loop_ok_close: "loop_ok running cancelled (l\<lparr>lp_open := b\<rparr>) = loop_ok running cancelled l"
  by (simp add: loop_ok_def)

lemma stop_step_ok: "stop_step s s' \<Longrightarrow> tcp_ok s \<Longrightarrow> tcp_ok s'"
proof (induction rule: stop_step.induct)
  case (close s i)
  then have "loop_ok False (tc_cancelled s) (tc_loops s ! i)" "tc_pc s \<noteq> TJoin \<Longrightarrow> lp_pc (tc_loops s ! i) = LReturned"
    by (auto simp: tcp_ok_def list_all_length)
  with close show ?case by (auto simp: tcp_ok_def loop_ok_close intro!: list_all_update)
qed (auto simp: tcp_ok_def list_all_iff intro: loop_ok_mono loop_ok_stop)

lemma tcp_start_ok: "tcp_ok (tcp_start n)"
  by (simp add: tcp_ok_def tcp_start_def loop_ok_def new_loop_def list_all_iff)

lemma accepting_ok: "accepting\<^sup>*\<^sup>* s s' \<Longrightarrow> tcp_ok s \<Longrightarrow> tcp_ok s'"
  by (induction rule: rtranclp_induct) (auto simp: accepting_def intro: tcpAccept_ok stop_step_ok)

subsection \<open>The steps left after a stop\<close>

definition conn_left :: "accepted \<Rightarrow> nat" where
  "conn_left c = (case ac_pc c of SSelect \<Rightarrow> 2 | SDrain \<Rightarrow> 1 | SEnd \<Rightarrow> 0) + of_bool (ac_handling c)"

definition loop_left :: "accept_loop \<Rightarrow> nat" where
  "loop_left l = (case lp_pc l of LAccept \<Rightarrow> 3 | LTest \<Rightarrow> 2 | LWait \<Rightarrow> 1 | LReturned \<Rightarrow> 0) +
     sum_list (map conn_left (lp_conns l))"

definition tcp_left :: "tcp_state \<Rightarrow> nat" where
  "tcp_left s = (case tc_pc s of TJoin \<Rightarrow> 2 | TDelay \<Rightarrow> 1 | TReturned \<Rightarrow> 0) + sum_list (map loop_left (tc_loops s))"

lemma serve_step_left: "serve_step cancelled c c' \<Longrightarrow> conn_left c' < conn_left c"
  by (erule serve_step.cases) (auto simp: conn_left_def)

lemma loop_step_left: "loop_step False cancelled l l' \<Longrightarrow> loop_left l' < loop_left l"
proof (induction rule: loop_step.induct)
  case (serve i l c')
  then show ?case
    using sum_list_map_update [of i "lp_conns l" conn_left c'] serve_step_left by (fastforce simp: loop_left_def)
qed (auto simp: loop_left_def)

definition stopped :: "tcp_state \<Rightarrow> bool" where
  "stopped s \<longleftrightarrow> \<not> tc_running s \<and> tc_cancelled s \<and> list_all (\<lambda>l. \<not> lp_open l) (tc_loops s)"

lemma tcpAccept_left:
  assumes "tcpAccept s s'" and "stopped s"
  shows "tcp_left s' < tcp_left s \<and> stopped s'"
  using assms
proof (induction rule: tcpAccept.induct)
  case (loops i s l')
  then have l: "\<not> lp_open (tc_loops s ! i)" "\<not> tc_running s" by (auto simp: stopped_def list_all_length)
  with loops have "loop_step False (tc_cancelled s) (tc_loops s ! i) l'"
    by (auto simp: tcpListenerAccept_def elim: net_step.cases)
  then have "loop_left l' < loop_left (tc_loops s ! i)" by (rule loop_step_left)
  with loops(1) have "tcp_left (s\<lparr>tc_loops := (tc_loops s)[i := l']\<rparr>) < tcp_left s"
    using sum_list_map_update [of i "tc_loops s" loop_left l'] by (simp add: tcp_left_def)
  moreover have "\<not> lp_open l'" using tcpListenerAccept_open [OF loops(2)] l(1) by simp
  ultimately show ?case using loops(3) by (auto simp: stopped_def list_all_update)
qed (auto simp: tcp_left_def stopped_def)

lemma tcpAccept_relpow:
  "(tcpAccept ^^ k) s s' \<Longrightarrow> stopped s \<Longrightarrow> tcp_left s' + k \<le> tcp_left s \<and> stopped s'"
proof (induction k arbitrary: s')
  case (Suc k)
  then obtain s1 where "(tcpAccept ^^ k) s s1" "tcpAccept s1 s'" by auto
  with Suc tcpAccept_left [of s1 s'] show ?case by fastforce
qed simp

text \<open>A connection, a loop and \<^verbatim>\<open>tcpAccept\<close> can always go on until they have returned.\<close>

lemma serve_progress: "ac_pc c \<noteq> SEnd \<Longrightarrow> \<exists>c'. serve_step True c c'"
  by (cases "ac_pc c"; cases "ac_handling c") (auto intro: serve_step.intros)

lemma loop_progress:
  assumes "lp_pc l \<noteq> LReturned" and "\<not> lp_open l"
  shows "\<exists>l'. loop_step False True l l'"
proof (cases "list_all (\<lambda>c. ac_pc c = SEnd) (lp_conns l)")
  case True
  with assms show ?thesis by (cases "lp_pc l") (auto intro: loop_step.intros)
next
  case False
  then obtain i where "i < length (lp_conns l)" "ac_pc (lp_conns l ! i) \<noteq> SEnd" by (auto simp: list_all_length)
  then show ?thesis using serve_progress loop_step.serve by meson
qed

lemma tcp_progress:
  assumes "tcp_ok s" and "stopped s" and "tc_pc s \<noteq> TReturned"
  shows "\<exists>s'. tcpAccept s s'"
proof (cases "list_all (\<lambda>l. lp_pc l = LReturned) (tc_loops s)")
  case True
  with assms show ?thesis by (cases "tc_pc s") (auto intro: tcpAccept.intros)
next
  case False
  then obtain i where i: "i < length (tc_loops s)" "lp_pc (tc_loops s ! i) \<noteq> LReturned" by (auto simp: list_all_length)
  with assms(2) obtain l' where "loop_step False True (tc_loops s ! i) l'"
    using loop_progress by (auto simp: stopped_def list_all_length)
  with i(1) assms(2) have "tcpAccept s (s\<lparr>tc_loops := (tc_loops s)[i := l']\<rparr>)"
    by (intro tcpAccept.loops) (auto simp: stopped_def tcpListenerAccept_def)
  then show ?thesis ..
qed

subsection \<open>Properties\<close>

text \<open>
  C32. The accept loops stop with the server: after \<^verbatim>\<open>Stop\<close> has cleared \<^verbatim>\<open>isRun\<close>, closed the listeners and
  cancelled the context, in any state the accept loops can have reached, \<^verbatim>\<open>tcpAccept\<close> takes at most
  \<open>tcp_left\<close> more steps and can go on until it has returned. (A handler may return at any time; that it
  does is the subject of theory \<open>Server\<close>.)
\<close>

theorem tcpAccept_stops:
  assumes "accepting\<^sup>*\<^sup>* (tcp_start n) s" and "stopped s"
  shows "((tcpAccept ^^ k) s s' \<longrightarrow> k \<le> tcp_left s) \<and>
    ((tcpAccept ^^ k) s s' \<longrightarrow> tc_pc s' \<noteq> TReturned \<longrightarrow> (\<exists>s''. tcpAccept s' s''))"
proof (intro conjI impI)
  assume k: "(tcpAccept ^^ k) s s'"
  then show "k \<le> tcp_left s" using tcpAccept_relpow assms(2) by fastforce
  assume "tc_pc s' \<noteq> TReturned"
  moreover have "tcp_ok s" using assms(1) tcp_start_ok by (rule accepting_ok)
  then have "tcp_ok s'" using k
  proof (induction k arbitrary: s')
    case (Suc k)
    then show ?case using tcpAccept_ok by (auto dest!: relpowp_Suc_D2 elim: relpowp_Suc_E)
  qed simp
  moreover have "stopped s'" using tcpAccept_relpow [OF k assms(2)] by simp
  ultimately show "\<exists>s''. tcpAccept s' s''" by (intro tcp_progress)
qed

lemma accepting_stop: "accepting\<^sup>*\<^sup>* s0 s \<Longrightarrow> stop_step s s' \<Longrightarrow> accepting\<^sup>*\<^sup>* s0 s'"
  by (erule rtranclp.rtrancl_into_rtrancl) (simp add: accepting_def)

lemma accepting_loop:
  "accepting\<^sup>*\<^sup>* s0 s \<Longrightarrow> i < length (tc_loops s) \<Longrightarrow> tcpListenerAccept (tc_running s) (tc_cancelled s) (tc_loops s ! i) l' \<Longrightarrow>
   accepting\<^sup>*\<^sup>* s0 (s\<lparr>tc_loops := (tc_loops s)[i := l']\<rparr>)"
  by (erule rtranclp.rtrancl_into_rtrancl) (auto simp: accepting_def intro: tcpAccept.loops)

lemma new_loop_again: "loop_step True False new_loop (new_loop\<lparr>lp_pc := LAccept\<rparr>)"
  by (rule loop_step.again) (simp_all add: new_loop_def)

definition one_client :: accept_loop where
  "one_client = \<lparr>lp_open = True, lp_pc = LTest, lp_conns = [new_accepted]\<rparr>"

lemma one_client_reach: "accepting\<^sup>*\<^sup>* (tcp_start 1) ((tcp_start 1)\<lparr>tc_loops := [one_client]\<rparr>)"
proof -
  have "tcpListenerAccept True False new_loop (new_loop\<lparr>lp_pc := LAccept\<rparr>)"
    by (simp add: tcpListenerAccept_def new_loop_again)
  then have "accepting\<^sup>*\<^sup>* (tcp_start 1) ((tcp_start 1)\<lparr>tc_loops := [new_loop\<lparr>lp_pc := LAccept\<rparr>]\<rparr>)"
    using accepting_loop [of "tcp_start 1" "tcp_start 1" 0] by (simp add: tcp_start_def)
  moreover have "tcpListenerAccept True False (new_loop\<lparr>lp_pc := LAccept\<rparr>) one_client"
    using net_step.connects [of "new_loop\<lparr>lp_pc := LAccept\<rparr>"]
    by (simp add: tcpListenerAccept_def new_loop_def one_client_def)
  ultimately show ?thesis
    using accepting_loop [of "tcp_start 1" "(tcp_start 1)\<lparr>tc_loops := [new_loop\<lparr>lp_pc := LAccept\<rparr>]\<rparr>" 0]
    by (simp add: tcp_start_def)
qed

lemma one_client_stopped:
  "accepting\<^sup>*\<^sup>* (tcp_start 1) \<lparr>tc_running = False, tc_cancelled = True, tc_loops = [one_client\<lparr>lp_open := False\<rparr>], tc_pc = TJoin\<rparr>"
proof -
  let ?s = "\<lparr>tc_running = False, tc_cancelled = False, tc_loops = [one_client], tc_pc = TJoin\<rparr>"
  let ?t = "?s\<lparr>tc_loops := [one_client\<lparr>lp_open := False\<rparr>]\<rparr>"
  have "accepting\<^sup>*\<^sup>* (tcp_start 1) ?s"
    using accepting_stop [OF one_client_reach stop_step.flag] by (simp add: tcp_start_def)
  moreover have "stop_step ?s ?t" using stop_step.close [of ?s 0] by simp
  ultimately have "accepting\<^sup>*\<^sup>* (tcp_start 1) ?t" by (rule accepting_stop)
  then show ?thesis using accepting_stop [OF _ stop_step.cancel [of ?t]] by simp
qed

theorem tcpAccept_stops_witness:
  "\<exists>s. accepting\<^sup>*\<^sup>* (tcp_start 1) s \<and> stopped s \<and> length (lp_conns (tc_loops s ! 0)) = 1 \<and> tcp_left s = 7 \<and>
     (\<exists>s''. tcpAccept s s'')"
proof -
  let ?s = "\<lparr>tc_running = False, tc_cancelled = True, tc_loops = [one_client\<lparr>lp_open := False\<rparr>], tc_pc = TJoin\<rparr>"
  have s: "stopped ?s" by (simp add: stopped_def)
  have "\<exists>s''. tcpAccept ?s s''" using tcpAccept_stops [OF one_client_stopped s, of 0 ?s] by simp
  moreover have "tcp_left ?s = 7" by (simp add: tcp_left_def loop_left_def conn_left_def one_client_def new_accepted_def)
  ultimately show ?thesis using one_client_stopped s by (intro exI [of _ ?s]) (simp add: one_client_def)
qed

text \<open>
  C39. Accepted connections are closed, and only when they may be: in every state of the accept loops, the guard
  closes a connection under a running handler only once the context is cancelled; and when \<^verbatim>\<open>tcpAccept\<close> has
  joined its loops, the server is stopping, every connection it accepted is closed and every handler has
  returned.
\<close>

theorem connections_closed:
  assumes "accepting\<^sup>*\<^sup>* (tcp_start n) s" and "l \<in> set (tc_loops s)" and "c \<in> set (lp_conns l)"
  shows "(\<not> ac_open c \<and> ac_handling c \<longrightarrow> tc_cancelled s) \<and> (ac_pc c \<noteq> SSelect \<longrightarrow> \<not> ac_open c) \<and>
    (tc_pc s \<noteq> TJoin \<longrightarrow> \<not> tc_running s \<and> \<not> ac_open c \<and> \<not> ac_handling c)"
proof -
  have ok: "tcp_ok s" using assms(1) tcp_start_ok by (rule accepting_ok)
  with assms(2) have "loop_ok (tc_running s) (tc_cancelled s) l" "tc_pc s \<noteq> TJoin \<longrightarrow> lp_pc l = LReturned"
    by (auto simp: tcp_ok_def list_all_iff)
  with assms(3) show ?thesis by (auto simp: loop_ok_def conn_ok_def list_all_iff)
qed

theorem connections_closed_witness:
  "\<exists>s l c. accepting\<^sup>*\<^sup>* (tcp_start 1) s \<and> l \<in> set (tc_loops s) \<and> c \<in> set (lp_conns l) \<and> ac_open c \<and> \<not> tc_cancelled s \<and>
     (\<not> ac_open c \<and> ac_handling c \<longrightarrow> tc_cancelled s)"
proof -
  let ?s = "(tcp_start 1)\<lparr>tc_loops := [one_client]\<rparr>"
  have l: "one_client \<in> set (tc_loops ?s)" "new_accepted \<in> set (lp_conns one_client)" by (simp_all add: one_client_def)
  from connections_closed [OF one_client_reach l] one_client_reach l show ?thesis
    by (intro exI [of _ ?s] exI [of _ one_client] exI [of _ new_accepted]) (simp add: new_accepted_def tcp_start_def)
qed

text \<open>
  The Shadowsocks loop does not stop with the server: \<^verbatim>\<open>Stop\<close> closes the listeners of \<^verbatim>\<open>m.tcpListener\<close> but
  not \<^verbatim>\<open>m.shadowSocksListener\<close>, so a loop that is in \<^verbatim>\<open>Accept\<close> when the server stops stays there through every
  step of the server, and leaves it only when another client connects or the network makes it fail.
\<close>

theorem shadow_accept_blocks:
  assumes "(shadowSocksListenerAccept True False)\<^sup>*\<^sup>* new_loop l" and "lp_pc l = LAccept"
    and "(loop_step False True)\<^sup>*\<^sup>* l l'"
  shows "lp_pc l' = LAccept \<and> lp_open l'"
proof -
  have "lp_open l" using assms(1)
    by (induction rule: rtranclp_induct)
      (auto simp: new_loop_def shadowSocksListenerAccept_def elim!: loop_step.cases net_step.cases)
  with assms(2) have "lp_pc l = LAccept \<and> lp_open l" by simp
  with assms(3) show ?thesis
    by (induction rule: rtranclp_induct) (auto elim!: loop_step.cases)
qed

theorem shadow_accept_blocks_witness:
  "(shadowSocksListenerAccept True False)\<^sup>*\<^sup>* new_loop (new_loop\<lparr>lp_pc := LAccept\<rparr>) \<and>
   lp_pc (new_loop\<lparr>lp_pc := LAccept\<rparr>) = LAccept"
proof -
  have r: "(shadowSocksListenerAccept True False)\<^sup>*\<^sup>* new_loop (new_loop\<lparr>lp_pc := LAccept\<rparr>)"
    by (rule r_into_rtranclp) (simp add: shadowSocksListenerAccept_def new_loop_again)
  show ?thesis using r shadow_accept_blocks [OF r _ rtranclp.rtrancl_refl] by simp
qed

end
