(* ===== verification/Startup.thy ===== *)
theory Startup
  imports Nacos Product TaskManager Listeners
begin

text \<open>
  \<^verbatim>\<open>newManager\<close>, \<^verbatim>\<open>StartIpv4\<close>, \<^verbatim>\<open>StartIpv6\<close> and \<^verbatim>\<open>Stop\<close> of \<^verbatim>\<open>server/manager.go\<close>: the order in which the components
  are started and stopped. The state holds the fields these functions assign; the connection maps and the
  tracker, which start empty, are the state of theory \<open>Server\<close>. The parameters are those of the components:
  \<open>listen\<close> for \<^verbatim>\<open>net.Listen\<close> and \<open>vops g\<close> for the Viper client that reads the configuration group \<open>g\<close>.
\<close>

datatype auth_kind = NewIpv4Auth | NewIpv6Auth

datatype stop_pc = Serving | StoppingTasks | QueuesClosed

record conf_data =
  Ipv4TcpListenerAddress :: "string list"
  Ipv6TcpListenerAddress :: "string list"
  OpenShadowSocks :: bool
  ShadowSocksAddress :: string
  Ipv4GroupName :: string
  Ipv6GroupName :: string
  conf_Nacos :: nacos_conf

record 'v server_state =
  s_mode :: string
  s_auth :: "auth_kind option"
  s_nacos :: "'v nacos_state"
  s_alarms :: nat
  s_listeners :: listeners
  s_shadow :: "bool option"
  s_producer :: producer
  s_tcm :: task_manager
  s_isRun :: bool
  s_stop :: stop_pc

definition newManager :: "'v \<Rightarrow> 'v server_state" where
  "newManager v = \<lparr>s_mode = '''', s_auth = None,
     s_nacos = \<lparr>nacosConfig = zero_nacos, viperClient = v, nacosRespChan = False\<rparr>, s_alarms = 0,
     s_listeners = [], s_shadow = None,
     s_producer = \<lparr>rabbitmqSendQueueSlices = [], rabbitmqSendQueueSlicesCounter = 0\<rparr>,
     s_tcm = New_tcm, s_isRun = True, s_stop = Serving\<rparr>"

text \<open>The part both functions start with: mode, authentication and configuration; a failure raises an alarm.\<close>

definition start_common :: "string \<Rightarrow> auth_kind \<Rightarrow> 'v viper_ops \<Rightarrow> nacos_conf \<Rightarrow> 'v server_state \<Rightarrow> 'v server_state" where
  "start_common mode auth ops nconf s =
     (case initNacosConf ops nconf (setNacosConf zero_nacos (s_nacos s)) of (successInit, n) \<Rightarrow>
        s\<lparr>s_mode := mode, s_auth := Some auth, s_nacos := n,
          s_alarms := (if successInit then s_alarms s else Suc (s_alarms s))\<rparr>)"

definition start_queues :: "listeners \<Rightarrow> 'v server_state \<Rightarrow> 'v server_state" where
  "start_queues ls s = s\<lparr>s_listeners := ls, s_producer := initRabbitmqSendQueueSlices (s_producer s)\<rparr>"

definition StartIpv4 :: "(string list \<Rightarrow> string \<Rightarrow> bool) \<Rightarrow> (string \<Rightarrow> 'v viper_ops) \<Rightarrow> conf_data \<Rightarrow>
    'v server_state \<Rightarrow> 'v server_state outcome" where
  "StartIpv4 listen vops conf s =
     (let s1 = start_common ''ipv4'' NewIpv4Auth (vops (Ipv4GroupName conf)) (conf_Nacos conf) s in
      bind_outcome (initIpv4TcpListener listen (Ipv4TcpListenerAddress conf)) (\<lambda>ls.
        let s2 = start_queues ls s1;
            s3 = s2\<lparr>s_tcm := AddTask AcceptAmount ''tcpAccept'' (s_tcm s2)\<rparr>
        in bind_outcome
             (if OpenShadowSocks conf
              then bind_outcome (initShadowSocksListener listen (map fst ls) (ShadowSocksAddress conf))
                     (\<lambda>l. Ret (s3\<lparr>s_shadow := Some l, s_tcm := AddTask 1 ''shadowSocksListenerAccept'' (s_tcm s3)\<rparr>))
              else Ret s3)
             (\<lambda>s4. Ret (s4\<lparr>s_tcm := AddTask 1 ''runRabbitmqConsume'' (AddTask 1 ''runNacosConfServer'' (s_tcm s4))\<rparr>))))"

definition StartIpv6 :: "(string list \<Rightarrow> string \<Rightarrow> bool) \<Rightarrow> (string \<Rightarrow> 'v viper_ops) \<Rightarrow> conf_data \<Rightarrow>
    'v server_state \<Rightarrow> 'v server_state outcome" where
  "StartIpv6 listen vops conf s =
     (let s1 = start_common ''ipv6'' NewIpv6Auth (vops (Ipv6GroupName conf)) (conf_Nacos conf) s in
      bind_outcome (initIpv6TcpListener listen (Ipv6TcpListenerAddress conf)) (\<lambda>ls.
        let s2 = start_queues ls s1
        in Ret (s2\<lparr>s_tcm := ipv6_tasks (s_tcm s2)\<rparr>)))"

text \<open>
  \<^verbatim>\<open>Stop\<close>: it clears \<^verbatim>\<open>isRun\<close>, closes the listeners of \<^verbatim>\<open>m.tcpListener\<close> and stops the task manager, which
  cancels the context and waits for every task; only then it closes the send queues, which drains them.
\<close>

definition manager_Stop :: "'v server_state \<Rightarrow> 'v server_state" where
  "manager_Stop s = s\<lparr>s_isRun := False, s_listeners := map (\<lambda>(a, _). (a, False)) (s_listeners s),
     s_tcm := Stop_cancel (s_tcm s), s_stop := StoppingTasks\<rparr>"

inductive sr_step :: "(string \<Rightarrow> bool) \<Rightarrow> 'v server_state \<Rightarrow> 'v server_state \<Rightarrow> bool" for returns where
  tasks: "tm_step returns (s_tcm s) m' \<Longrightarrow> sr_step returns s (s\<lparr>s_tcm := m'\<rparr>)"
| push: "pushRabbitmqSendQueue pick d (s_producer s) = Ret p \<Longrightarrow> sr_step returns s (s\<lparr>s_producer := p\<rparr>)"
| stop: "s_stop s = Serving \<Longrightarrow> sr_step returns s (manager_Stop s)"
| close: "s_stop s = StoppingTasks \<Longrightarrow> Stop_returns (s_tcm s) \<Longrightarrow> closeRabbitmqSendQueueSlices (s_producer s) = Ret p \<Longrightarrow>
    sr_step returns s (s\<lparr>s_producer := p, s_stop := QueuesClosed\<rparr>)"

subsection \<open>Lemmas\<close>

text \<open>Every address can be bound, one after the other.\<close>

fun binds :: "(string list \<Rightarrow> string \<Rightarrow> bool) \<Rightarrow> string list \<Rightarrow> string list \<Rightarrow> bool" where
  "binds listen bound [] = True"
| "binds listen bound (v # vs) = (listen bound v \<and> binds listen (v # bound) vs)"

definition all_open :: "listeners \<Rightarrow> bool" where
  "all_open ls \<longleftrightarrow> list_all snd ls"

lemma update_open: "all_open ls \<Longrightarrow> all_open (AList.update v True ls)"
  by (induction ls) (auto simp: all_open_def)

lemma listen_all_spec: "all_open ls \<Longrightarrow>
    (case listen_all listen bound vs ls of Panic \<Rightarrow> \<not> binds listen bound vs
     | Ret ls' \<Rightarrow> binds listen bound vs \<and> fst ` set ls' = fst ` set ls \<union> set vs \<and> all_open ls')"
proof (induction vs arbitrary: bound ls)
  case (Cons v vs)
  from Cons(1) [OF update_open [OF Cons(2), of v], of "v # bound"] show ?case
    by (auto split: outcome.splits simp: dom_update)
qed simp

lemma start_common_simps:
  "s_listeners (start_common mode a ops nc s) = s_listeners s" "s_shadow (start_common mode a ops nc s) = s_shadow s"
  "s_producer (start_common mode a ops nc s) = s_producer s" "s_tcm (start_common mode a ops nc s) = s_tcm s"
  "s_isRun (start_common mode a ops nc s) = s_isRun s" "s_stop (start_common mode a ops nc s) = s_stop s"
  "s_mode (start_common mode a ops nc s) = mode" "s_auth (start_common mode a ops nc s) = Some a"
  by (simp_all add: start_common_def split: prod.splits)

definition conf_in_force :: "'v viper_ops \<Rightarrow> 'v server_state \<Rightarrow> nacos_config" where
  "conf_in_force ops s =
     (if s_alarms s = 0 then (case Unmarshal ops (viperClient (s_nacos s)) of Ret (Inr c) \<Rightarrow> c | _ \<Rightarrow> default_nacos)
      else default_nacos)"

lemma start_common_conf:
  "s_alarms s = 0 \<Longrightarrow> nacosConfig (s_nacos (start_common mode a ops nc s)) = conf_in_force ops (start_common mode a ops nc s)"
  using init_in_force [of ops nc "setNacosConf zero_nacos (s_nacos s)"]
  by (cases "initNacosConf ops nc (setNacosConf zero_nacos (s_nacos s))") (auto simp: start_common_def conf_in_force_def)

definition task_counts :: "task_manager \<Rightarrow> (string \<times> nat) list" where
  "task_counts m = map (\<lambda>d. (d_task d, d_count d)) (dispatchers m)"

text \<open>What a started server is: \<open>tasks\<close> are its tasks with the number of workers of each.\<close>

definition started :: "string \<Rightarrow> auth_kind \<Rightarrow> string list \<Rightarrow> bool option \<Rightarrow> (string \<times> nat) list \<Rightarrow> 'v viper_ops \<Rightarrow>
    'v server_state \<Rightarrow> bool" where
  "started mode a addrs shadow tasks ops s \<longleftrightarrow>
     s_mode s = mode \<and> s_auth s = Some a \<and> fst ` set (s_listeners s) = set addrs \<and> all_open (s_listeners s) \<and>
     s_shadow s = shadow \<and> s_producer s = producer0 \<and> nacosConfig (s_nacos s) = conf_in_force ops s \<and>
     task_counts (s_tcm s) = tasks \<and> s_isRun s \<and> s_stop s = Serving \<and> \<not> cancelled (s_tcm s)"

lemmas start_simps = started_def start_common_simps start_queues_def newManager_def producer0_def task_counts_def
  AddTask_def New_tcm_def new_dispatcher_def AcceptAmount_def

text \<open>
  The server starts completely or not at all: \<^verbatim>\<open>StartIpv4\<close> panics exactly when an address cannot be bound;
  otherwise it has one open listener for each configured address (and the Shadowsocks one if asked for),
  the remote configuration or, after an alarm, the default one, eight empty send queues, and its tasks
  with the number of workers of each.
\<close>

theorem StartIpv4_starts:
  "case StartIpv4 listen vops conf (newManager v) of
     Panic \<Rightarrow> \<not> binds listen [] (Ipv4TcpListenerAddress conf) \<or>
       OpenShadowSocks conf \<and> (\<exists>bound. \<not> listen bound (ShadowSocksAddress conf))
   | Ret s \<Rightarrow> binds listen [] (Ipv4TcpListenerAddress conf) \<and>
       started ''ipv4'' NewIpv4Auth (Ipv4TcpListenerAddress conf) (if OpenShadowSocks conf then Some True else None)
         ([(''tcpAccept'', 2)] @ (if OpenShadowSocks conf then [(''shadowSocksListenerAccept'', 1)] else []) @
          [(''runNacosConfServer'', 1), (''runRabbitmqConsume'', 1)]) (vops (Ipv4GroupName conf)) s"
proof (cases "listen_all listen [] (Ipv4TcpListenerAddress conf) []")
  case Panic
  with listen_all_spec [of "[]" listen "[]" "Ipv4TcpListenerAddress conf"] show ?thesis
    by (simp add: StartIpv4_def initIpv4TcpListener_def all_open_def Let_def)
next
  case (Ret ls)
  let ?s = "start_common ''ipv4'' NewIpv4Auth (vops (Ipv4GroupName conf)) (conf_Nacos conf) (newManager v)"
  have b: "binds listen [] (Ipv4TcpListenerAddress conf)" "fst ` set ls = set (Ipv4TcpListenerAddress conf)" "all_open ls"
    using Ret listen_all_spec [of "[]" listen "[]" "Ipv4TcpListenerAddress conf"] by (simp_all add: all_open_def)
  have n: "nacosConfig (s_nacos ?s) = conf_in_force (vops (Ipv4GroupName conf)) ?s"
    by (rule start_common_conf) (simp add: newManager_def)
  show ?thesis
  proof (cases "OpenShadowSocks conf")
    case True
    with Ret b n show ?thesis
      by (auto simp: StartIpv4_def initIpv4TcpListener_def initShadowSocksListener_def Let_def start_simps conf_in_force_def)
  next
    case False
    with Ret b n show ?thesis
      by (simp add: StartIpv4_def initIpv4TcpListener_def Let_def start_simps conf_in_force_def)
  qed
qed

definition demo_conf :: conf_data where
  "demo_conf = \<lparr>Ipv4TcpListenerAddress = ['':8080'', '':8081''], Ipv6TcpListenerAddress = ['':8082''], OpenShadowSocks = True,
     ShadowSocksAddress = '':8388'', Ipv4GroupName = ''ipv4'', Ipv6GroupName = ''ipv6'', conf_Nacos = demo_nconf\<rparr>"

abbreviation demo_start :: "nacos_config option server_state outcome" where
  "demo_start \<equiv> StartIpv4 (\<lambda>bound v. v \<notin> set bound) (\<lambda>_. remote_ops False default_nacos) demo_conf (newManager None)"

lemma demo_start_returns: "demo_start \<noteq> Panic"
  by (simp add: StartIpv4_def initIpv4TcpListener_def initShadowSocksListener_def Let_def demo_conf_def)

theorem StartIpv4_starts_witness:
  "\<exists>s. demo_start = Ret s \<and> all_open (s_listeners s) \<and> s_shadow s = Some True \<and> length (task_counts (s_tcm s)) = 4"
proof -
  obtain s where s: "demo_start = Ret s" using demo_start_returns by (cases demo_start) auto
  with StartIpv4_starts [where listen = "\<lambda>bound v. v \<notin> set bound" and conf = demo_conf and v = None
      and vops = "\<lambda>_. remote_ops False default_nacos"]
  show ?thesis by (simp add: started_def demo_conf_def)
qed

subsection \<open>Stopping\<close>

lemma sr_steps_tasks: "tm_reach returns m m' \<Longrightarrow> s_tcm s = m \<Longrightarrow> (sr_step returns)\<^sup>*\<^sup>* s (s\<lparr>s_tcm := m'\<rparr>)"
proof (induction rule: tm_reach.induct)
  case (step m m1 m2)
  then have "(sr_step returns)\<^sup>*\<^sup>* s (s\<lparr>s_tcm := m1\<rparr>)" by simp
  moreover have "sr_step returns (s\<lparr>s_tcm := m1\<rparr>) (s\<lparr>s_tcm := m2\<rparr>)"
    using sr_step.tasks [of returns "s\<lparr>s_tcm := m1\<rparr>" m2] step by simp
  ultimately show ?case by (rule rtranclp.rtrancl_into_rtrancl)
qed simp

text \<open>What every step keeps: the tasks' invariant, and the eight queues in order.\<close>

definition sr_inv :: "'v server_state \<Rightarrow> bool" where
  "sr_inv s \<longleftrightarrow> tm_inv (s_tcm s) \<and> length (rabbitmqSendQueueSlices (s_producer s)) = RabbitmqSendQueueSlicesShareSize \<and>
     (s_stop s \<noteq> Serving \<longrightarrow> cancelled (s_tcm s) \<and> \<not> s_isRun s \<and> list_all (\<lambda>l. \<not> snd l) (s_listeners s)) \<and>
     (s_stop s = QueuesClosed \<longrightarrow> Stop_returns (s_tcm s) \<and> list_all (\<lambda>q. \<not> q_status q) (rabbitmqSendQueueSlices (s_producer s)))"

lemma push_closed: "\<not> q_status q \<Longrightarrow> \<not> q_status (snd (MQueue_Enqueue pick d q))"
  by (simp add: MQueue_Enqueue_def)

lemma push_keeps:
  assumes "pushRabbitmqSendQueue pick d p = Ret p'"
  shows "length (rabbitmqSendQueueSlices p') = length (rabbitmqSendQueueSlices p) \<and>
    (list_all (\<lambda>q. \<not> q_status q) (rabbitmqSendQueueSlices p) \<longrightarrow> list_all (\<lambda>q. \<not> q_status q) (rabbitmqSendQueueSlices p'))"
  using assms by (auto simp: pushRabbitmqSendQueue_def Let_def list_all_length nth_list_update push_closed split: if_splits)

lemma tm_step_cancelled: "tm_step returns m m' \<Longrightarrow> cancelled m \<Longrightarrow> cancelled m'"
  by (erule tm_step.cases) (auto simp: AddTask_def Stop_cancel_def)

lemma sr_step_inv: "sr_step returns s s' \<Longrightarrow> sr_inv s \<Longrightarrow> sr_inv s'"
proof (induction rule: sr_step.induct)
  case (tasks s m')
  then show ?case by (auto simp: sr_inv_def intro: tm_step_inv tm_step_cancelled gone_stays)
next
  case (push pick d s p)
  then show ?case using push_keeps [OF push(1)] by (auto simp: sr_inv_def)
next
  case (stop s)
  then show ?case
    using tm_step_inv [OF tm_step.cancel] by (auto simp: sr_inv_def manager_Stop_def Stop_cancel_def list_all_iff)
next
  case (close s p)
  then show ?case
    by (auto simp: sr_inv_def closeRabbitmqSendQueueSlices_def Let_def list_all_iff MQueue_Close_def split: if_splits)
qed

lemma sr_reach_inv: "(sr_step returns)\<^sup>*\<^sup>* s s' \<Longrightarrow> sr_inv s \<Longrightarrow> sr_inv s'"
  by (induction rule: rtranclp_induct) (auto intro: sr_step_inv)

lemma StartIpv4_tasks:
  assumes "StartIpv4 listen vops conf (newManager v) = Ret s"
  shows "s_tcm s = ipv4_tasks (OpenShadowSocks conf) New_tcm \<and> s_stop s = Serving \<and> s_producer s = producer0"
  using assms
  by (cases "initIpv4TcpListener listen (Ipv4TcpListenerAddress conf)";
      cases "OpenShadowSocks conf"; cases "initShadowSocksListener listen (map fst (s_listeners s)) (ShadowSocksAddress conf)")
    (auto simp: StartIpv4_def ipv4_tasks_def Let_def start_common_simps start_queues_def newManager_def producer0_def
      initShadowSocksListener_def split: if_splits)

lemma StartIpv4_inv:
  assumes "StartIpv4 listen vops conf (newManager v) = Ret s"
  shows "sr_inv s"
proof -
  have "tm_inv (s_tcm s)"
    using StartIpv4_tasks [OF assms] ipv4_tasks_reach tm_reach_inv New_tcm_inv by metis
  with StartIpv4_tasks [OF assms] show ?thesis
    by (simp add: sr_inv_def producer0_def initRabbitmqSendQueueSlices_def)
qed

lemma StartIpv6_tasks:
  assumes "StartIpv6 listen vops conf (newManager v) = Ret s"
  shows "s_tcm s = ipv6_tasks New_tcm \<and> s_stop s = Serving \<and> s_producer s = producer0"
  using assms
  by (cases "initIpv6TcpListener listen (Ipv6TcpListenerAddress conf)")
    (auto simp: StartIpv6_def Let_def start_common_simps start_queues_def newManager_def producer0_def)

lemma StartIpv6_inv:
  assumes "StartIpv6 listen vops conf (newManager v) = Ret s"
  shows "sr_inv s"
proof -
  have "tm_inv (s_tcm s)"
    using StartIpv6_tasks [OF assms] ipv6_tasks_reach tm_reach_inv New_tcm_inv by metis
  with StartIpv6_tasks [OF assms] show ?thesis
    by (simp add: sr_inv_def producer0_def initRabbitmqSendQueueSlices_def)
qed

lemma sr_reach_tasks:
  "(sr_step returns)\<^sup>*\<^sup>* s s' \<Longrightarrow> tm_reach returns New_tcm (s_tcm s) \<Longrightarrow> tm_reach returns New_tcm (s_tcm s')"
proof (induction rule: rtranclp_induct)
  case (step s1 s2)
  from step(2) step(3) [OF step(4)] show ?case
    by (induction rule: sr_step.induct) (auto simp: manager_Stop_def intro: tm_reach.step tm_step.cancel)
qed simp

lemma stuck_server:
  assumes "(sr_step returns)\<^sup>*\<^sup>* s s'" and "stuck_worker returns (s_tcm s)" and "sr_inv s"
  shows "stuck_worker returns (s_tcm s') \<and> s_stop s' \<noteq> QueuesClosed"
proof -
  have "stuck_worker returns (s_tcm s')" using assms(1,2)
  proof (induction rule: rtranclp_induct)
    case (step s1 s2)
    from step(2) step(3) [OF step(4)] show ?case
      by (induction rule: sr_step.induct)
        (auto simp: manager_Stop_def intro: stuck_worker_step stuck_worker_step [OF tm_step.cancel])
  qed
  moreover have "sr_inv s'" using assms(1,3) by (rule sr_reach_inv)
  ultimately show ?thesis using stuck_not_stopped by (auto simp: sr_inv_def)
qed

text \<open>
  Stopping a server whose task functions return: from any state after \<^verbatim>\<open>Stop\<close> was called, the server can
  reach the end of \<^verbatim>\<open>Stop\<close>, where the TCP listeners are closed, no task is running and the eight send queues
  are closed, so that their workers drain them.
\<close>

theorem Stop_drains:
  assumes "StartIpv4 listen vops conf (newManager v) = Ret s0" and "(sr_step returns)\<^sup>*\<^sup>* s0 s" and "s_stop s \<noteq> Serving"
    and "\<And>fc. returns fc"
  shows "\<exists>s'. (sr_step returns)\<^sup>*\<^sup>* s s' \<and> s_stop s' = QueuesClosed \<and> list_all (\<lambda>l. \<not> snd l) (s_listeners s') \<and>
    list_all (\<lambda>d. d_running d = 0) (dispatchers (s_tcm s')) \<and>
    list_all (\<lambda>q. \<not> q_status q) (rabbitmqSendQueueSlices (s_producer s'))"
proof -
  have t: "tm_reach returns New_tcm (s_tcm s)"
    using sr_reach_tasks [OF assms(2)] StartIpv4_tasks [OF assms(1)] ipv4_tasks_reach by metis
  have inv: "sr_inv s" using assms(2) StartIpv4_inv [OF assms(1)] by (rule sr_reach_inv)
  then have c: "cancelled (s_tcm s)" using assms(3) by (simp add: sr_inv_def)
  obtain m where m: "tm_reach returns (s_tcm s) m" "Stop_returns m"
    using stop_completes [OF t c assms(4)] by blast
  let ?s = "s\<lparr>s_tcm := m\<rparr>"
  have r: "(sr_step returns)\<^sup>*\<^sup>* s ?s" using m(1) by (rule sr_steps_tasks) simp
  obtain s' where s': "(sr_step returns)\<^sup>*\<^sup>* s s'" "s_stop s' = QueuesClosed"
  proof (cases "s_stop s = QueuesClosed")
    case False
    then have "s_stop ?s = StoppingTasks" using assms(3) by (cases "s_stop s") auto
    moreover obtain p where "closeRabbitmqSendQueueSlices (s_producer ?s) = Ret p"
      using inv by (auto simp: sr_inv_def closeRabbitmqSendQueueSlices_def Let_def)
    ultimately have "sr_step returns ?s (?s\<lparr>s_producer := p, s_stop := QueuesClosed\<rparr>)"
      using m(2) by (intro sr_step.close) auto
    with r have "(sr_step returns)\<^sup>*\<^sup>* s (?s\<lparr>s_producer := p, s_stop := QueuesClosed\<rparr>)"
      by (rule rtranclp.rtrancl_into_rtrancl)
    then show thesis by (rule that) simp
  qed (use that in blast)
  have i: "sr_inv s'" using s'(1) inv by (rule sr_reach_inv)
  with s'(2) have "list_all (\<lambda>d. d_running d = 0) (dispatchers (s_tcm s'))"
    by (auto simp: sr_inv_def Stop_returns_def tm_inv_def d_inv_def list_all_iff)
  with i s' show ?thesis by (auto simp: sr_inv_def)
qed

lemma demo_started:
  obtains s where "demo_start = Ret s" and "s_stop s = Serving" and "s_tcm s = ipv4_tasks True New_tcm"
proof -
  obtain s where "demo_start = Ret s" using demo_start_returns by (cases demo_start) auto
  with StartIpv4_tasks [OF this] that show thesis by (simp add: demo_conf_def)
qed

theorem Stop_drains_witness:
  "\<exists>s0 s'. demo_start = Ret s0 \<and> (sr_step (\<lambda>_. True))\<^sup>*\<^sup>* (manager_Stop s0) s' \<and> s_stop s' = QueuesClosed"
proof -
  obtain s0 where s0: "demo_start = Ret s0" "s_stop s0 = Serving" using demo_started by metis
  have "(sr_step (\<lambda>_. True))\<^sup>*\<^sup>* s0 (manager_Stop s0)" using s0(2) by (intro r_into_rtranclp sr_step.stop)
  from Stop_drains [OF s0(1) this] s0(1) show ?thesis by (auto simp: manager_Stop_def)
qed

text \<open>
  A task that does not return keeps \<^verbatim>\<open>Stop\<close> from draining the send queues: once a worker of a function that
  never returns is running, \<^verbatim>\<open>Stop\<close> waits for it for ever and the queues are not closed, in any further run
  of the server. \<^verbatim>\<open>runRabbitmqConsume\<close> is such a function, as it ignores its context, and so is
  \<^verbatim>\<open>shadowSocksListenerAccept\<close> while no client connects, as its listener is not closed.
\<close>

theorem stop_never_drains_queues:
  assumes "StartIpv4 listen vops conf (newManager v) = Ret s0" and "(sr_step returns)\<^sup>*\<^sup>* s0 s"
    and "d \<in> set (dispatchers (s_tcm s))" and "\<not> returns (d_task d)" and "0 < d_running d"
    and "(sr_step returns)\<^sup>*\<^sup>* s s'"
  shows "s_stop s' \<noteq> QueuesClosed"
proof -
  have "sr_inv s" using assms(2) StartIpv4_inv [OF assms(1)] by (rule sr_reach_inv)
  moreover have "stuck_worker returns (s_tcm s)" using assms(3-5) by (auto simp: stuck_worker_def)
  ultimately show ?thesis using stuck_server [OF assms(6)] by simp
qed

lemma consumer_stuck:
  "\<exists>m. tm_reach (\<lambda>fc. fc \<noteq> ''runRabbitmqConsume'') (ipv4_tasks True New_tcm) m \<and>
     stuck_worker (\<lambda>fc. fc \<noteq> ''runRabbitmqConsume'') m"
proof -
  let ?r = "\<lambda>fc. fc \<noteq> ''runRabbitmqConsume''"
  let ?m = "ipv4_tasks True New_tcm"
  have l: "length (dispatchers ?m) = 4" by (simp add: ipv4_tasks_def AddTask_def New_tcm_def)
  obtain d where d: "tm_reach ?r ?m (?m\<lparr>dispatchers := (dispatchers ?m)[3 := d]\<rparr>)"
    "d_task d = ''runRabbitmqConsume''" "0 < d_running d"
    using worker_starts [of 3 ?m ?r] by (auto simp: ipv4_tasks_def AddTask_def New_tcm_def new_dispatcher_def eval_nat_numeral)
  moreover have "d \<in> set (dispatchers (?m\<lparr>dispatchers := (dispatchers ?m)[3 := d]\<rparr>))"
    using l by (simp add: set_update_memI)
  ultimately show ?thesis unfolding stuck_worker_def by blast
qed

theorem stop_never_drains_queues_witness:
  "\<exists>s0 s. demo_start = Ret s0 \<and> (sr_step (\<lambda>fc. fc \<noteq> ''runRabbitmqConsume''))\<^sup>*\<^sup>* s0 s \<and>
     s_stop s = Serving \<and> s_stop (manager_Stop s) \<noteq> QueuesClosed"
proof -
  let ?r = "\<lambda>fc. fc \<noteq> ''runRabbitmqConsume''"
  obtain s0 where s0: "demo_start = Ret s0" "s_stop s0 = Serving" "s_tcm s0 = ipv4_tasks True New_tcm"
    using demo_started by metis
  obtain m where m: "tm_reach ?r (s_tcm s0) m" "stuck_worker ?r m" using consumer_stuck s0(3) by metis
  then obtain d where d: "d \<in> set (dispatchers m)" "\<not> ?r (d_task d)" "0 < d_running d" by (auto simp: stuck_worker_def)
  have r: "(sr_step ?r)\<^sup>*\<^sup>* s0 (s0\<lparr>s_tcm := m\<rparr>)" using m(1) by (rule sr_steps_tasks) simp
  have "sr_step ?r (s0\<lparr>s_tcm := m\<rparr>) (manager_Stop (s0\<lparr>s_tcm := m\<rparr>))"
    using s0(2) by (intro sr_step.stop) simp
  then have "s_stop (manager_Stop (s0\<lparr>s_tcm := m\<rparr>)) \<noteq> QueuesClosed"
    using stop_never_drains_queues [OF s0(1) r, of d] d by (simp add: r_into_rtranclp)
  with s0(1,2) r show ?thesis by (intro exI [of _ s0] exI [of _ "s0\<lparr>s_tcm := m\<rparr>"]) simp
qed

end
