(* ===== verification/QueueConsume.thy ===== *)
theory QueueConsume
  imports AuthEvents
begin

text \<open>
  The consumers that work on one queue each (\<^verbatim>\<open>server/rabbitmq_*_consume.go\<close>): each opens a channel, declares its
  queue, binds it where the queue belongs to an exchange, registers as a consumer, and then hands every
  delivery to its action until the context or the channel is closed. The seven functions differ in the
  queue, its arguments, the acknowledgement mode and the action; \<open>ans\<close> is what the broker answers to the
  calls, \<open>evs\<close> what the loop's \<^verbatim>\<open>select\<close> receives. The result is the list of calls made on the channel, how
  far the function got, and the state the action works on.
\<close>

datatype chan_call = CallDeclare string "int option" | CallBind string string | CallConsume string bool
  | CallAck nat | CallNack nat | CallClose

datatype 'b queue_event = QDelivery 'b | QNoDelivery | QCtxDone | QChanClosed

datatype consume_end = Blocked | Returned | Panicked

record broker_answers =
  ans_Channel :: bool
  ans_QueueDeclare :: bool
  ans_QueueBind :: bool
  ans_Consume :: bool

record ('b, 's) queue_spec =
  qs_name :: string
  qs_ttl :: "int option"
  qs_exchange :: "string option"
  qs_autoAck :: bool
  qs_action :: "'b \<Rightarrow> 's \<Rightarrow> (ack \<times> 's) outcome"

text \<open>What the action asks for on the delivery with number \<open>tag\<close>.\<close>

definition settle :: "nat \<Rightarrow> ack \<Rightarrow> chan_call list" where
  "settle tag a = (case a of Ack \<Rightarrow> [CallAck tag] | Nack \<Rightarrow> [CallNack tag] | AutoAck \<Rightarrow> [])"

fun consume_loop :: "('b \<Rightarrow> 's \<Rightarrow> (ack \<times> 's) outcome) \<Rightarrow> nat \<Rightarrow> 'b queue_event list \<Rightarrow> 's \<Rightarrow>
    chan_call list \<times> consume_end \<times> 's" where
  "consume_loop act tag [] s = ([], Blocked, s)"
| "consume_loop act tag (QDelivery b # evs) s = (case act b s of
     Panic \<Rightarrow> ([], Panicked, s)
   | Ret (a, s1) \<Rightarrow> (case consume_loop act (Suc tag) evs s1 of (cs, e, s2) \<Rightarrow> (settle tag a @ cs, e, s2)))"
| "consume_loop act tag (QNoDelivery # evs) s = consume_loop act tag evs s"
| "consume_loop act tag (QCtxDone # evs) s = ([], Returned, s)"
| "consume_loop act tag (QChanClosed # evs) s = ([], Returned, s)"

text \<open>The calls in order, each with its early return; the deferred \<^verbatim>\<open>ch.Close\<close> runs unless the loop still waits.\<close>

definition consume_setup :: "('b, 's) queue_spec \<Rightarrow> broker_answers \<Rightarrow> 'b queue_event list \<Rightarrow> 's \<Rightarrow>
    chan_call list \<times> consume_end \<times> 's" where
  "consume_setup q ans evs s =
     (let d = CallDeclare (qs_name q) (qs_ttl q);
          b = (case qs_exchange q of None \<Rightarrow> [] | Some ex \<Rightarrow> [CallBind (qs_name q) ex]);
          c = CallConsume (qs_name q) (qs_autoAck q) in
      if \<not> ans_QueueDeclare ans then ([d], Returned, s)
      else if qs_exchange q \<noteq> None \<and> \<not> ans_QueueBind ans then (d # b, Returned, s)
      else if \<not> ans_Consume ans then (d # b @ [c], Returned, s)
      else (case consume_loop (qs_action q) 0 evs s of (cs, e, s1) \<Rightarrow> (d # b @ c # cs, e, s1)))"

definition queue_consume :: "('b, 's) queue_spec \<Rightarrow> broker_answers \<Rightarrow> 'b queue_event list \<Rightarrow> 's \<Rightarrow>
    chan_call list \<times> consume_end \<times> 's" where
  "queue_consume q ans evs s =
     (if \<not> ans_Channel ans then ([], Returned, s)
      else (case consume_setup q ans evs s of (cs, e, s1) \<Rightarrow> (cs @ (if e = Blocked then [] else [CallClose]), e, s1)))"

subsection \<open>The seven consumers\<close>

text \<open>\<^verbatim>\<open>LocalIp\<close> and \<^verbatim>\<open>ProcessName\<close> of the configuration make the queue's name.\<close>

definition queue_name :: "string \<Rightarrow> string \<times> string \<Rightarrow> string" where
  "queue_name prefix ident = prefix @ ''_'' @ fst ident @ ''_'' @ snd ident"

definition set_user_queue :: "'r redis_ops \<Rightarrow> codecs \<Rightarrow> string \<times> string \<Rightarrow> (string, 'r) queue_spec" where
  "set_user_queue rops cd ident = \<lparr>qs_name = queue_name ''SetUserData'' ident, qs_ttl = None, qs_exchange = None, qs_autoAck = False,
     qs_action = (\<lambda>body r. Ret (runRabbitmqSetUserDataQueueConsumeAction rops cd body r))\<rparr>"

definition runRabbitmqSetUserDataQueueConsume ::
    "'r redis_ops \<Rightarrow> codecs \<Rightarrow> string \<times> string \<Rightarrow> broker_answers \<Rightarrow> string queue_event list \<Rightarrow> 'r \<Rightarrow> chan_call list \<times> consume_end \<times> 'r" where
  "runRabbitmqSetUserDataQueueConsume rops cd ident = queue_consume (set_user_queue rops cd ident)"

definition set_ipv6_queue :: "'r redis_ops \<Rightarrow> codecs \<Rightarrow> string \<times> string \<Rightarrow> (string, 'r) queue_spec" where
  "set_ipv6_queue rops cd ident = \<lparr>qs_name = queue_name ''SetUserIpv6Data'' ident, qs_ttl = None, qs_exchange = None, qs_autoAck = False,
     qs_action = (\<lambda>body r. Ret (runRabbitmqSetUserIpv6DataQueueConsumeAction rops cd body r))\<rparr>"

definition runRabbitmqSetUserIpv6DataQueueConsume ::
    "'r redis_ops \<Rightarrow> codecs \<Rightarrow> string \<times> string \<Rightarrow> broker_answers \<Rightarrow> string queue_event list \<Rightarrow> 'r \<Rightarrow> chan_call list \<times> consume_end \<times> 'r" where
  "runRabbitmqSetUserIpv6DataQueueConsume rops cd ident = queue_consume (set_ipv6_queue rops cd ident)"

text \<open>A delivery of this queue comes with the time at which it is handled.\<close>

definition add_user_queue :: "'r redis_ops \<Rightarrow> codecs \<Rightarrow> string \<times> string \<Rightarrow> (int \<times> string, 'r) queue_spec" where
  "add_user_queue rops cd ident = \<lparr>qs_name = queue_name ''AddUserData'' ident, qs_ttl = None, qs_exchange = None, qs_autoAck = False,
     qs_action = (\<lambda>(now, body). runRabbitmqAddUserDataQueueConsumeAction rops cd now body)\<rparr>"

definition runRabbitmqAddUserDataQueueConsume ::
    "'r redis_ops \<Rightarrow> codecs \<Rightarrow> string \<times> string \<Rightarrow> broker_answers \<Rightarrow> (int \<times> string) queue_event list \<Rightarrow> 'r \<Rightarrow>
     chan_call list \<times> consume_end \<times> 'r" where
  "runRabbitmqAddUserDataQueueConsume rops cd ident = queue_consume (add_user_queue rops cd ident)"

definition delete_user_queue :: "'r redis_ops \<Rightarrow> codecs \<Rightarrow> string \<times> string \<Rightarrow> (string, 'r) queue_spec" where
  "delete_user_queue rops cd ident = \<lparr>qs_name = queue_name ''DeleteUserData'' ident, qs_ttl = None, qs_exchange = None, qs_autoAck = True,
     qs_action = (\<lambda>body r. Ret (AutoAck, runRabbitmqDeleteUserDataQueueConsumeAction rops cd body r))\<rparr>"

definition runRabbitmqDeleteUserDataQueueConsume ::
    "'r redis_ops \<Rightarrow> codecs \<Rightarrow> string \<times> string \<Rightarrow> broker_answers \<Rightarrow> string queue_event list \<Rightarrow> 'r \<Rightarrow> chan_call list \<times> consume_end \<times> 'r" where
  "runRabbitmqDeleteUserDataQueueConsume rops cd ident = queue_consume (delete_user_queue rops cd ident)"

definition delete_ipv6_queue :: "'r redis_ops \<Rightarrow> codecs \<Rightarrow> string \<times> string \<Rightarrow> (string, 'r) queue_spec" where
  "delete_ipv6_queue rops cd ident = \<lparr>qs_name = queue_name ''DeleteUserIpv6Data'' ident, qs_ttl = None, qs_exchange = None, qs_autoAck = True,
     qs_action = (\<lambda>body r. Ret (AutoAck, runRabbitmqDeleteUserIpv6DataQueueConsumeAction rops cd body r))\<rparr>"

definition runRabbitmqDeleteUserIpv6DataQueueConsume ::
    "'r redis_ops \<Rightarrow> codecs \<Rightarrow> string \<times> string \<Rightarrow> broker_answers \<Rightarrow> string queue_event list \<Rightarrow> 'r \<Rightarrow> chan_call list \<times> consume_end \<times> 'r" where
  "runRabbitmqDeleteUserIpv6DataQueueConsume rops cd ident = queue_consume (delete_ipv6_queue rops cd ident)"

definition disconnect_queue :: "('m, addr, ctx_heap) cmap_ops \<Rightarrow> (string \<Rightarrow> string + disconnect_info) \<Rightarrow> string \<times> string \<Rightarrow>
    (string, 'm \<times> ctx_heap) queue_spec" where
  "disconnect_queue ops dec ident = \<lparr>qs_name = queue_name ''Disconnect'' ident, qs_ttl = Some (60 * 1000), qs_exchange = None,
     qs_autoAck = True, qs_action = (\<lambda>body s. Ret (AutoAck, runRabbitmqDisconnectQueueConsumeAction ops dec body s))\<rparr>"

definition runRabbitmqDisconnectQueueConsume ::
    "('m, addr, ctx_heap) cmap_ops \<Rightarrow> (string \<Rightarrow> string + disconnect_info) \<Rightarrow> string \<times> string \<Rightarrow> broker_answers \<Rightarrow>
     string queue_event list \<Rightarrow> 'm \<times> ctx_heap \<Rightarrow> chan_call list \<times> consume_end \<times> 'm \<times> ctx_heap" where
  "runRabbitmqDisconnectQueueConsume ops dec ident = queue_consume (disconnect_queue ops dec ident)"

definition blacklist_queue :: "(bytes \<Rightarrow> string + string list) \<Rightarrow> string \<Rightarrow> string \<times> string \<Rightarrow>
    (bytes, string list option) queue_spec" where
  "blacklist_queue dec exchange ident = \<lparr>qs_name = queue_name ''new_blackListMsg'' ident, qs_ttl = None, qs_exchange = Some exchange,
     qs_autoAck = True, qs_action = (\<lambda>body s. Ret (AutoAck, runRabbitmqBlacklistConsumeAction dec body s))\<rparr>"

definition runRabbitmqBlacklistConsume ::
    "(bytes \<Rightarrow> string + string list) \<Rightarrow> string \<Rightarrow> string \<times> string \<Rightarrow> broker_answers \<Rightarrow> bytes queue_event list \<Rightarrow>
     string list option \<Rightarrow> chan_call list \<times> consume_end \<times> string list option" where
  "runRabbitmqBlacklistConsume dec exchange ident = queue_consume (blacklist_queue dec exchange ident)"

subsection \<open>The contract of an action\<close>

text \<open>
  The messages a run handles are those that arrive before the loop leaves; \<open>tags\<close> are the deliveries that
  were settled, in order.
\<close>

fun handled :: "'b queue_event list \<Rightarrow> 'b list" where
  "handled [] = []"
| "handled (QDelivery b # evs) = b # handled evs"
| "handled (QNoDelivery # evs) = handled evs"
| "handled (QCtxDone # evs) = []"
| "handled (QChanClosed # evs) = []"

fun tags :: "chan_call list \<Rightarrow> nat list" where
  "tags [] = []"
| "tags (CallAck n # cs) = n # tags cs"
| "tags (CallNack n # cs) = n # tags cs"
| "tags (_ # cs) = tags cs"

fun apply_all :: "('b \<Rightarrow> 's \<Rightarrow> (ack \<times> 's) outcome) \<Rightarrow> 'b list \<Rightarrow> 's \<Rightarrow> 's outcome" where
  "apply_all act [] s = Ret s"
| "apply_all act (b # bs) s = bind_outcome (act b s) (\<lambda>(_, s1). apply_all act bs s1)"

definition consuming :: "('b, 's) queue_spec \<Rightarrow> broker_answers \<Rightarrow> bool" where
  "consuming q ans \<longleftrightarrow> ans_Channel ans \<and> ans_QueueDeclare ans \<and> (qs_exchange q \<noteq> None \<longrightarrow> ans_QueueBind ans) \<and> ans_Consume ans"

text \<open>
  What a run of a consumer must do: its effect is that of the action on every message handled, in order; unless
  an action panics, these are settled once each, in order, if the queue is not in automatic mode, and none
  is otherwise; a channel that was opened is closed exactly when the function has returned, by the last call.
\<close>

definition settles_all :: "('b, 's) queue_spec \<Rightarrow> broker_answers \<Rightarrow> 'b queue_event list \<Rightarrow> 's \<Rightarrow>
    chan_call list \<times> consume_end \<times> 's \<Rightarrow> bool" where
  "settles_all q ans evs s = (\<lambda>(cs, e, s').
     (case apply_all (qs_action q) (if consuming q ans then handled evs else []) s of
        Panic \<Rightarrow> e = Panicked | Ret s1 \<Rightarrow> e \<noteq> Panicked \<and> s' = s1) \<and>
     (e \<noteq> Panicked \<longrightarrow> tags cs = (if consuming q ans \<and> \<not> qs_autoAck q then [0..<length (handled evs)] else [])) \<and>
     (ans_Channel ans \<longrightarrow> (CallClose \<in> set cs \<longleftrightarrow> e \<noteq> Blocked) \<and> (e \<noteq> Blocked \<longrightarrow> last cs = CallClose)))"

locale queue_consumer =
  fixes q :: "('b, 's) queue_spec"
  assumes auto_law: "qs_action q b s = Ret (a, s') \<Longrightarrow> qs_autoAck q \<longleftrightarrow> a = AutoAck"
begin

lemma tags_append: "tags (xs @ ys) = tags xs @ tags ys"
  by (induction xs rule: tags.induct) auto

lemma loop_tags:
  "consume_loop (qs_action q) tag evs s = (cs, e, s') \<Longrightarrow> e \<noteq> Panicked \<Longrightarrow>
   tags cs = (if qs_autoAck q then [] else [tag..<tag + length (handled evs)]) \<and> CallClose \<notin> set cs"
proof (induction evs arbitrary: tag s cs)
  case (Cons ev evs)
  show ?case
  proof (cases ev)
    case (QDelivery b)
    with Cons.prems obtain a s1 cs1 where a: "qs_action q b s = Ret (a, s1)"
      "consume_loop (qs_action q) (Suc tag) evs s1 = (cs1, e, s')" "cs = settle tag a @ cs1"
      by (auto split: outcome.splits prod.splits)
    with Cons.IH [OF a(2) Cons.prems(2)] auto_law [OF a(1)] QDelivery show ?thesis
      by (cases a) (auto simp: settle_def upt_rec)
  qed (use Cons in auto)
qed simp

lemma loop_no_close: "consume_loop act tag evs s = (cs, e, s') \<Longrightarrow> CallClose \<notin> set cs"
  by (induction act tag evs s arbitrary: cs e s' rule: consume_loop.induct)
    (auto simp: settle_def split: outcome.splits prod.splits ack.splits)

lemma setup_no_close: "consume_setup q ans evs s = (cs, e, s') \<Longrightarrow> CallClose \<notin> set cs"
  by (auto simp: consume_setup_def Let_def split: if_splits option.splits prod.splits dest: loop_no_close)

lemma setup_tags:
  assumes "consume_setup q ans evs s = (cs, e, s')" and "e \<noteq> Panicked" and "ans_Channel ans"
  shows "tags cs = (if consuming q ans \<and> \<not> qs_autoAck q then [0..<length (handled evs)] else [])"
  using assms loop_tags [of 0 evs s]
  by (auto simp: consume_setup_def consuming_def Let_def tags_append split: if_splits option.splits prod.splits)

lemma loop_effect:
  "consume_loop act tag evs s = (cs, e, s') \<Longrightarrow>
   (case apply_all act (handled evs) s of Panic \<Rightarrow> e = Panicked | Ret s1 \<Rightarrow> e \<noteq> Panicked \<and> s' = s1)"
proof (induction evs arbitrary: tag s cs)
  case (Cons ev evs)
  show ?case
  proof (cases ev)
    case (QDelivery b)
    show ?thesis
    proof (cases "act b s")
      case (Ret x)
      then obtain a s1 where a: "act b s = Ret (a, s1)" by (cases x) auto
      with Cons.prems QDelivery obtain cs1 where "consume_loop act (Suc tag) evs s1 = (cs1, e, s')"
        by (auto split: prod.splits)
      with Cons.IH a QDelivery show ?thesis by auto
    qed (use Cons.prems QDelivery in auto)
  qed (use Cons in auto)
qed auto

lemma setup_effect:
  assumes "consume_setup q ans evs s = (cs, e, s')" and "ans_Channel ans"
  shows "case apply_all (qs_action q) (if consuming q ans then handled evs else []) s of
    Panic \<Rightarrow> e = Panicked | Ret s1 \<Rightarrow> e \<noteq> Panicked \<and> s' = s1"
  using assms loop_effect [of "qs_action q" 0 evs s]
  by (auto simp: consume_setup_def consuming_def Let_def split: if_splits option.splits prod.splits)

lemma consume_settles: "settles_all q ans evs s (queue_consume q ans evs s)"
proof (cases "ans_Channel ans")
  case True
  obtain cs e s' where r: "consume_setup q ans evs s = (cs, e, s')" by (cases "consume_setup q ans evs s") auto
  with True setup_tags [OF r] setup_no_close [OF r] setup_effect [OF r] show ?thesis
    by (auto simp: settles_all_def queue_consume_def tags_append)
qed (simp add: settles_all_def queue_consume_def consuming_def)

end

subsection \<open>The consumers keep the contract\<close>

interpretation set_user: queue_consumer "set_user_queue rops cd ident" for rops cd ident
  by unfold_locales (auto simp: set_user_queue_def runRabbitmqSetUserDataQueueConsumeAction_def split: sum.splits prod.splits option.splits)

interpretation set_ipv6: queue_consumer "set_ipv6_queue rops cd ident" for rops cd ident
  by unfold_locales (auto simp: set_ipv6_queue_def runRabbitmqSetUserIpv6DataQueueConsumeAction_def split: sum.splits prod.splits option.splits)

interpretation add_user: queue_consumer "add_user_queue rops cd ident" for rops cd ident
  by unfold_locales (auto simp: add_user_queue_def runRabbitmqAddUserDataQueueConsumeAction_def Let_def
      split: sum.splits prod.splits option.splits outcome.splits)

interpretation delete_user: queue_consumer "delete_user_queue rops cd ident" for rops cd ident
  by unfold_locales (auto simp: delete_user_queue_def)

interpretation delete_ipv6: queue_consumer "delete_ipv6_queue rops cd ident" for rops cd ident
  by unfold_locales (auto simp: delete_ipv6_queue_def)

interpretation disconnects: queue_consumer "disconnect_queue ops dec ident" for ops dec ident
  by unfold_locales (auto simp: disconnect_queue_def)

interpretation blacklists: queue_consumer "blacklist_queue dec exchange ident" for dec exchange ident
  by unfold_locales (auto simp: blacklist_queue_def)

lemmas queue_consumer_defs = runRabbitmqSetUserDataQueueConsume_def runRabbitmqSetUserIpv6DataQueueConsume_def
  runRabbitmqAddUserDataQueueConsume_def runRabbitmqDeleteUserDataQueueConsume_def runRabbitmqDeleteUserIpv6DataQueueConsume_def
  runRabbitmqDisconnectQueueConsume_def runRabbitmqBlacklistConsume_def

text \<open>
  The per-queue consumers neither lose nor repeat a message: whatever the broker answers and in whatever order
  events arrive, each of the seven applies its action to every delivery before the loop ends, once and in
  order, settles each of them exactly once with \<^verbatim>\<open>Ack\<close> or \<^verbatim>\<open>Nack\<close> when the queue is in manual mode and never
  otherwise, and closes its channel exactly when it returns.
\<close>

theorem queue_consumers_settle:
  "settles_all (set_user_queue rops cd ident) ans evs r (runRabbitmqSetUserDataQueueConsume rops cd ident ans evs r) \<and>
   settles_all (set_ipv6_queue rops cd ident) ans evs r (runRabbitmqSetUserIpv6DataQueueConsume rops cd ident ans evs r) \<and>
   settles_all (add_user_queue rops cd ident) ans tevs r (runRabbitmqAddUserDataQueueConsume rops cd ident ans tevs r) \<and>
   settles_all (delete_user_queue rops cd ident) ans evs r (runRabbitmqDeleteUserDataQueueConsume rops cd ident ans evs r) \<and>
   settles_all (delete_ipv6_queue rops cd ident) ans evs r (runRabbitmqDeleteUserIpv6DataQueueConsume rops cd ident ans evs r) \<and>
   settles_all (disconnect_queue ops ddec ident) ans evs m (runRabbitmqDisconnectQueueConsume ops ddec ident ans evs m) \<and>
   settles_all (blacklist_queue bdec ex ident) ans bevs bl (runRabbitmqBlacklistConsume bdec ex ident ans bevs bl)"
  unfolding queue_consumer_defs
  by (intro conjI set_user.consume_settles set_ipv6.consume_settles add_user.consume_settles delete_user.consume_settles
      delete_ipv6.consume_settles disconnects.consume_settles blacklists.consume_settles)

end
