(* ===== verification/ProxyClient.thy ===== *)
theory ProxyClient
  imports Handlers
begin

text \<open>
  The clients of \<^verbatim>\<open>proto/http\<close> and \<^verbatim>\<open>proto/socks\<close>, which reach a target through an upstream proxy. \<^verbatim>\<open>url.Parse\<close> is
  the parameter \<open>parse\<close>, whose result is the record \<open>url\<close>; \<^verbatim>\<open>golang.org/x/net/proxy\<close> is the parameter \<open>dialer\<close>.
\<close>

record url =
  u_Scheme :: string
  u_User :: "(string \<times> string option) option"
  u_Host :: string
  u_Hostname :: string
  u_Port :: string
  u_Fragment :: string

subsection \<open>Base64\<close>

text \<open>\<^verbatim>\<open>base64.StdEncoding.EncodeToString\<close>\<close>

definition b64_char :: "nat \<Rightarrow> char" where
  "b64_char n = (if n < 26 then char_of (n + 65) else if n < 52 then char_of (n + 71) else if n < 62 then char_of (n - 4)
     else if n = 62 then CHR ''+'' else CHR ''/'')"

fun base64_encode :: "bytes \<Rightarrow> string" where
  "base64_encode [] = ''''"
| "base64_encode [a] = [b64_char (unat a div 4), b64_char (unat a mod 4 * 16), CHR ''='', CHR ''='']"
| "base64_encode [a, b] = [b64_char (unat a div 4), b64_char (unat a mod 4 * 16 + unat b div 16),
     b64_char (unat b mod 16 * 4), CHR ''='']"
| "base64_encode (a # b # c # rest) = b64_char (unat a div 4) # b64_char (unat a mod 4 * 16 + unat b div 16) #
     b64_char (unat b mod 16 * 4 + unat c div 64) # b64_char (unat c mod 64) # base64_encode rest"

subsection \<open>HTTP\<close>

text \<open>The named results of \<^verbatim>\<open>ParseURL\<close>; an early return keeps what was assigned before it.\<close>

datatype url_error = UrlParseError string | MissingPassword | UnsupportedScheme string

record http_url =
  hu_auth :: string
  hu_addr :: string
  hu_domain :: string
  hu_scheme :: string
  hu_err :: "url_error option"

definition no_url :: http_url where
  "no_url = \<lparr>hu_auth = '''', hu_addr = '''', hu_domain = '''', hu_scheme = '''', hu_err = None\<rparr>"

definition basic_auth :: "string \<Rightarrow> string \<Rightarrow> string" where
  "basic_auth username password = ''Basic '' @ base64_encode (bytes_of (username @ '':'' @ password))"

definition url_endpoint :: "url \<Rightarrow> http_url \<Rightarrow> http_url" where
  "url_endpoint u r =
     (if u_Scheme u = ''http'' then
        (let host = u_Hostname u; port = (if u_Port u = '''' then ''80'' else u_Port u) in
         r\<lparr>hu_addr := JoinHostPort host port, hu_domain := (if u_Fragment u = '''' then host else u_Fragment u),
           hu_scheme := ''http''\<rparr>)
      else r\<lparr>hu_err := Some (UnsupportedScheme (u_Scheme u))\<rparr>)"

definition http_ParseURL :: "(string \<Rightarrow> string + url) \<Rightarrow> string \<Rightarrow> http_url" where
  "http_ParseURL parse s = (case parse s of
     Inl e \<Rightarrow> no_url\<lparr>hu_err := Some (UrlParseError e)\<rparr>
   | Inr u \<Rightarrow> (case u_User u of
       None \<Rightarrow> url_endpoint u no_url
     | Some (username, None) \<Rightarrow> no_url\<lparr>hu_err := Some MissingPassword\<rparr>
     | Some (username, Some password) \<Rightarrow> url_endpoint u (no_url\<lparr>hu_auth := basic_auth username password\<rparr>)))"

text \<open>
  \<^verbatim>\<open>GetConn\<close>. The environment of a call: whether the dial, the request and its writing succeed, what
  \<^verbatim>\<open>http.ReadResponse\<close> reports (\<open>None\<close> is an error, else the status code), the bytes the proxy sends after
  its response, and how many of them the buffered reader has already taken. The result tells whether
  the connection was closed; \<open>t_incoming\<close> is what the caller will read from it.
\<close>

record connect_request =
  cr_Host :: string
  cr_ProxyAuthorization :: "string option"

record connect_env =
  ce_dial :: "string \<Rightarrow> bool"
  ce_request :: bool
  ce_write :: "connect_request \<Rightarrow> bool"
  ce_status :: "nat option"
  ce_tunnel :: bytes
  ce_buffered :: nat

datatype connect_error = BadUrl url_error | DialFailed | RequestFailed | WriteFailed | ResponseFailed
  | BadStatus nat | BufferedFailed

record tunnel =
  t_request :: connect_request
  t_incoming :: bytes

datatype conn_state = NeverOpened | Closed | Handed

definition StatusOK :: nat where "StatusOK = 200"

definition http_GetConn :: "(string \<Rightarrow> string + url) \<Rightarrow> connect_env \<Rightarrow> string \<Rightarrow> string \<Rightarrow>
    (connect_error + tunnel) \<times> conn_state" where
  "http_GetConn parse env s targetAddr =
     (let r = http_ParseURL parse s in
      case hu_err r of
        Some e \<Rightarrow> (Inl (BadUrl e), NeverOpened)
      | None \<Rightarrow>
        if \<not> ce_dial env (hu_addr r) then (Inl DialFailed, NeverOpened)
        else if \<not> ce_request env then (Inl RequestFailed, Closed)
        else (let req = \<lparr>cr_Host = targetAddr, cr_ProxyAuthorization = (if hu_auth r \<noteq> '''' then Some (hu_auth r) else None)\<rparr> in
          if \<not> ce_write env req then (Inl WriteFailed, Closed)
          else (case ce_status env of
              None \<Rightarrow> (Inl ResponseFailed, Closed)
            | Some code \<Rightarrow>
              if code \<noteq> StatusOK then (Inl (BadStatus code), Closed)
              else (let n = ce_buffered env; fresh = drop n (ce_tunnel env) in
                if 0 < n \<and> length fresh < n then (Inl BufferedFailed, Closed)
                else (Inr \<lparr>t_request = req, t_incoming = drop n fresh\<rparr>, Handed)))))"

subsection \<open>SOCKS5\<close>

definition socks_ParseURL :: "(string \<Rightarrow> string + url) \<Rightarrow> string \<Rightarrow> (string \<times> string) option \<times> string \<times> url_error option" where
  "socks_ParseURL parse s = (case parse s of
     Inl e \<Rightarrow> (None, '''', Some (UrlParseError e))
   | Inr u \<Rightarrow> (case u_User u of
       None \<Rightarrow> (None, u_Host u, None)
     | Some (username, None) \<Rightarrow> (None, u_Host u, Some MissingPassword)
     | Some (username, Some password) \<Rightarrow> (Some (username, password), u_Host u, None)))"

datatype socks_dial_error = SocksBadUrl url_error | SocksDialer string | SocksConnect string

definition socks_GetConn :: "(string \<Rightarrow> string + url) \<Rightarrow>
    (string \<Rightarrow> (string \<times> string) option \<Rightarrow> string + (string \<Rightarrow> string + 'c)) \<Rightarrow> string \<Rightarrow> string \<Rightarrow> socks_dial_error + 'c" where
  "socks_GetConn parse dialer s targetAddr = (case socks_ParseURL parse s of
     (auth, server, Some e) \<Rightarrow> Inl (SocksBadUrl e)
   | (auth, server, None) \<Rightarrow> (case dialer server auth of
       Inl e \<Rightarrow> Inl (SocksDialer e)
     | Inr dial \<Rightarrow> (case dial targetAddr of Inl e \<Rightarrow> Inl (SocksConnect e) | Inr conn \<Rightarrow> Inr conn)))"

subsection \<open>Base64 is read back\<close>

lemma b64_val_char: "n < 64 \<Longrightarrow> b64_val (b64_char n) = Some n"
  by (auto simp: b64_val_def b64_char_def Let_def)

lemma b64_char_code: "n < 64 \<Longrightarrow> b64_char n \<noteq> CHR ''='' \<and> b64_char n \<noteq> CHR 0x0D \<and> b64_char n \<noteq> CHR 0x0A"
  using b64_val_char [of n] by (auto simp: b64_val_def Let_def)

lemma byte_div:
  "unat (a :: byte) div 4 < 64" "unat a div 16 < 16" "unat a div 64 < 4"
  using unat_byte_less [of a] by (simp_all add: less_mult_imp_div_less)

lemma digit_less: "r < (k :: nat) \<Longrightarrow> q < m \<Longrightarrow> q * k + r < m * k"
proof -
  assume "r < k" "q < m"
  then have "q * k + r < Suc q * k" "Suc q * k \<le> m * k" by (simp, intro mult_le_mono1) simp
  then show ?thesis by (rule less_le_trans)
qed

lemma byte_quarters:
  "unat (a :: byte) mod 4 * 16 < 64" "unat a mod 4 * 16 + unat (b :: byte) div 16 < 64"
  "unat b mod 16 * 4 < 64" "unat b mod 16 * 4 + unat (c :: byte) div 64 < 64" "unat c mod 64 < 64"
  using digit_less [of 0 16 "unat a mod 4" 4] digit_less [of "unat b div 16" 16 "unat a mod 4" 4]
    digit_less [of 0 4 "unat b mod 16" 16] digit_less [of "unat c div 64" 4 "unat b mod 16" 16] byte_div
  by simp_all

lemma byte_join:
  "of_nat (unat (a :: byte) div k * k + unat a mod k) = a"
  unfolding div_mult_mod_eq by simp

lemma base64_quads: "b64_quads (base64_encode bs) = Some bs"
proof (induction bs rule: base64_encode.induct)
  case (2 a)
  then show ?case using byte_div byte_quarters byte_join [of a 4] by (simp add: b64_val_char)
next
  case (3 a b)
  then show ?case using byte_div byte_quarters b64_char_code [of "unat b mod 16 * 4"] byte_join [of a 4] byte_join [of b 16]
    by (simp add: b64_val_char Let_def)
next
  case (4 a b c rest)
  then show ?case
    using byte_div byte_quarters byte_join [of a 4] byte_join [of b 16] byte_join [of c 64]
      b64_char_code [of "unat b mod 16 * 4 + unat c div 64"] b64_char_code [of "unat c mod 64"]
    by (simp add: b64_val_char Let_def)
qed simp

lemma base64_no_newline: "c \<in> set (base64_encode bs) \<Longrightarrow> c \<noteq> CHR 0x0D \<and> c \<noteq> CHR 0x0A"
proof (induction bs rule: base64_encode.induct)
  case (2 a)
  then show ?case using b64_char_code byte_div byte_quarters by auto
next
  case (3 a b)
  then show ?case using b64_char_code byte_div byte_quarters by auto
next
  case (4 a b c' rest)
  then show ?case using b64_char_code byte_div byte_quarters by auto
qed simp

lemma base64_roundtrip: "base64_decode (base64_encode bs) = Some bs"
proof -
  have "filter (\<lambda>c. c \<noteq> CHR 0x0D \<and> c \<noteq> CHR 0x0A) (base64_encode bs) = base64_encode bs"
    using base64_no_newline by (intro filter_True) blast
  then show ?thesis by (simp add: base64_decode_def base64_quads)
qed

subsection \<open>Properties\<close>

lemma replace_prefix: "old \<noteq> '''' \<Longrightarrow> replace_first old (old @ s) = s"
  by (cases old) (auto simp: is_prefix_iff)

lemma length_split_on: "length (split_on c s) = Suc (count_list s c)"
  by (induction s) (auto split: list.splits)

lemma split_pair: "length (split_on c (xs @ c # ys)) = 2 \<longleftrightarrow> c \<notin> set xs \<and> c \<notin> set ys"
  by (auto simp: length_split_on count_list_0_iff)

text \<open>
  C36. The server reads the credentials its own client sends: for an \<^verbatim>\<open>http\<close> URL with user and password, the header
  that \<^verbatim>\<open>ParseURL\<close> builds makes \<^verbatim>\<open>httpTcpConn\<close> authenticate exactly this user with this password, unless one of
  them contains a colon, when it answers 407 without asking.
\<close>

theorem client_credentials_accepted:
  assumes "parse s = Inr u" and "u_User u = Some (user, Some pw)" and "u_Scheme u = ''http''"
  shows "hu_err (http_ParseURL parse s) = None \<and>
    httpTcpConn parseIP lip peer (req\<lparr>rq_auth := hu_auth (http_ParseURL parse s)\<rparr>) =
      (if CHR '':'' \<in> set user \<union> set pw then say http407
       else CValid user pw lip peer (\<lambda>r. case r of
           Inl err \<Rightarrow> say http407
         | Inr exitIpStr \<Rightarrow> http_admit parseIP (req\<lparr>rq_auth := basic_auth user pw\<rparr>) user pw exitIpStr))"
proof -
  have "hu_auth (http_ParseURL parse s) = basic_auth user pw" "hu_err (http_ParseURL parse s) = None"
    using assms by (simp_all add: http_ParseURL_def url_endpoint_def no_url_def Let_def)
  moreover have "base64_decode (replace_first ''Basic '' (basic_auth user pw)) = Some (bytes_of (user @ '':'' @ pw))"
    unfolding basic_auth_def using replace_prefix [of "''Basic ''"] by (simp add: base64_roundtrip)
  ultimately show ?thesis
    using split_pair [of "CHR '':''" user pw]
    by (auto simp: httpTcpConn_def split_on_append split_on_no_sep)
qed

definition demo_url :: url where
  "demo_url = \<lparr>u_Scheme = ''http'', u_User = Some (''bob'', Some ''secret''), u_Host = ''proxy:3128'', u_Hostname = ''proxy'',
     u_Port = ''3128'', u_Fragment = ''''\<rparr>"

theorem client_credentials_accepted_witness:
  "\<exists>k. httpTcpConn (\<lambda>_. []) ''10.0.0.1'' ''10.0.0.2'' \<lparr>rq_auth = hu_auth (http_ParseURL (\<lambda>_. Inr demo_url) ''u''),
     rq_Host = ''h'', rq_Method = ''CONNECT'', rq_bytes = None\<rparr> = CValid ''bob'' ''secret'' ''10.0.0.1'' ''10.0.0.2'' k"
  using client_credentials_accepted [of "\<lambda>_. Inr demo_url" "''u''" demo_url "''bob''" "''secret''" "\<lambda>_. []"
      "''10.0.0.1''" "''10.0.0.2''" "\<lparr>rq_auth = '''', rq_Host = ''h'', rq_Method = ''CONNECT'', rq_bytes = None\<rparr>"]
  by (simp add: demo_url_def)

text \<open>
  \<^verbatim>\<open>GetConn\<close> through an HTTP proxy leaks no connection but corrupts the tunnel: every error after the dial
  closes the connection; on success the caller misses, of the bytes the target sent through the tunnel,
  twice the number the buffered reader had taken with the response, once because they stay in the
  reader that is dropped and once because as many more are read from the connection and thrown away, so
  the stream is intact exactly if nothing was buffered.
\<close>

theorem http_GetConn_spec:
  "case http_GetConn parse env s targetAddr of
     (Inl e, st) \<Rightarrow> st = (if hu_err (http_ParseURL parse s) = None \<and> ce_dial env (hu_addr (http_ParseURL parse s)) then Closed
       else NeverOpened)
   | (Inr t, st) \<Rightarrow> st = Handed \<and> cr_Host (t_request t) = targetAddr \<and>
       t_incoming t = drop (2 * ce_buffered env) (ce_tunnel env) \<and>
       (t_incoming t = ce_tunnel env \<longleftrightarrow> ce_buffered env = 0)"
proof -
  have "drop (n + n) xs \<noteq> xs" if "0 < n" "\<not> length xs - n < n" for n and xs :: bytes
  proof
    assume "drop (n + n) xs = xs"
    then have "length xs - (n + n) = length xs" by (metis length_drop)
    with that show False by simp
  qed
  then show ?thesis
    by (auto simp: http_GetConn_def Let_def mult_2 split: option.splits if_splits)
qed

end
