(* ===== verification/Alarm.thy ===== *)
theory Alarm
  imports ProxyClient
begin

text \<open>
  \<^verbatim>\<open>utils/alarm.go\<close>: the signed request that carries an alarm to the chat service. \<open>hmac\<close> stands for HMAC-SHA256
  (\<^verbatim>\<open>crypto/hmac\<close>), \<open>marshal\<close> for \<^verbatim>\<open>json.Marshal\<close>, \<open>now\<close> for the time in milliseconds.
\<close>

subsection \<open>Query strings\<close>

text \<open>\<^verbatim>\<open>url.QueryEscape\<close>, and what a server does with the result.\<close>

definition unreserved :: "char \<Rightarrow> bool" where
  "unreserved c \<longleftrightarrow> (let n = of_char c :: nat in
     48 \<le> n \<and> n \<le> 57 \<or> 65 \<le> n \<and> n \<le> 90 \<or> 97 \<le> n \<and> n \<le> 122 \<or> c \<in> {CHR ''-'', CHR ''_'', CHR ''.'', CHR ''~''})"

definition upperhex :: "nat \<Rightarrow> char" where
  "upperhex n = char_of (if n < 10 then n + 48 else n + 55)"

definition escape_char :: "char \<Rightarrow> string" where
  "escape_char c = (if unreserved c then [c] else if c = CHR '' '' then ''+''
     else [CHR ''%'', upperhex (of_char c div 16), upperhex (of_char c mod 16)])"

definition QueryEscape :: "string \<Rightarrow> string" where
  "QueryEscape s = concat (map escape_char s)"

definition unhex :: "char \<Rightarrow> nat" where
  "unhex c = (let n = of_char c :: nat in if n < 58 then n - 48 else n - 55)"

fun QueryUnescape :: "string \<Rightarrow> string" where
  "QueryUnescape [] = []"
| "QueryUnescape (c # s) =
     (if c = CHR ''%'' \<and> 2 \<le> length s then char_of (unhex (s ! 0) * 16 + unhex (s ! 1)) # QueryUnescape (drop 2 s)
      else (if c = CHR ''+'' then CHR '' '' else c) # QueryUnescape s)"

definition query_pairs :: "string \<Rightarrow> (string \<times> string) list" where
  "query_pairs q = map (\<lambda>p. (takeWhile (\<lambda>c. c \<noteq> CHR ''='') p, QueryUnescape (drop 1 (dropWhile (\<lambda>c. c \<noteq> CHR ''='') p))))
     (split_on CHR ''&'' q)"

subsection \<open>The alarm\<close>

record ding_talk_message =
  AtMobiles :: "string list"
  AtUserIds :: "string list"
  IsAtAll :: bool
  Content :: string
  MsgType :: string

definition makeSignature :: "(bytes \<Rightarrow> bytes \<Rightarrow> bytes) \<Rightarrow> string \<Rightarrow> int \<Rightarrow> string \<times> string" where
  "makeSignature hmac secret now =
     (let timestamp = itoa_int now;
          stringToSign = timestamp @ [CHR 0x0A] @ secret;
          signData = hmac (bytes_of secret) (bytes_of stringToSign);
          sign = QueryEscape (base64_encode signData)
      in (timestamp, sign))"

definition alarm_url :: string where
  "alarm_url = ''https://oapi.dingtalk.com/robot/send''"

definition alarm_query :: "string \<Rightarrow> string \<Rightarrow> string \<Rightarrow> string" where
  "alarm_query token ts sign = ''access_token='' @ token @ ''&timestamp='' @ ts @ ''&sign='' @ sign"

definition alarm_message :: "string \<Rightarrow> ding_talk_message" where
  "alarm_message content = \<lparr>AtMobiles = [], AtUserIds = [], IsAtAll = True, Content = content, MsgType = ''text''\<rparr>"

text \<open>
  The request that is posted, if any: \<open>None\<close> when the message cannot be encoded or the request not be built
  (\<open>newRequest\<close>). The answer of the service is dropped.
\<close>

definition SendAlarmToDingTalk :: "(bytes \<Rightarrow> bytes \<Rightarrow> bytes) \<Rightarrow> (ding_talk_message \<Rightarrow> bytes option) \<Rightarrow> (string \<Rightarrow> bool) \<Rightarrow>
    string \<Rightarrow> string \<Rightarrow> int \<Rightarrow> string \<Rightarrow> (string \<times> bytes) option" where
  "SendAlarmToDingTalk hmac marshal newRequest token secret now content =
     (case makeSignature hmac secret now of (ts, sign) \<Rightarrow>
        (let rawUrl = alarm_url @ ''?'' @ alarm_query token ts sign in
         case marshal (alarm_message content) of
           None \<Rightarrow> None
         | Some jsonValue \<Rightarrow> if newRequest rawUrl then Some (rawUrl, jsonValue) else None))"

subsection \<open>Escaping is undone\<close>

lemma unhex_upperhex: "n < 16 \<Longrightarrow> unhex (upperhex n) = n"
  by (auto simp: unhex_def upperhex_def Let_def)

lemma escape_roundtrip: "QueryUnescape (escape_char c @ s) = c # QueryUnescape s"
proof (cases "unreserved c")
  case True
  then have "c \<noteq> CHR ''%''" "c \<noteq> CHR ''+''" by (auto simp: unreserved_def Let_def)
  with True show ?thesis by (simp add: escape_char_def)
next
  case False
  have "(of_char c :: nat) < 256" by simp
  then have "(of_char c :: nat) div 16 < 16" by (simp add: less_mult_imp_div_less)
  with False show ?thesis by (auto simp: escape_char_def unhex_upperhex)
qed

lemma QueryEscape_roundtrip: "QueryUnescape (QueryEscape s) = s"
  by (induction s) (simp_all add: QueryEscape_def escape_roundtrip)

lemma unreserved_safe: "unreserved d \<Longrightarrow> d \<noteq> CHR ''&'' \<and> d \<noteq> CHR ''='' \<and> d \<noteq> CHR ''%'' \<and> d \<noteq> CHR ''+''"
  by (auto simp: unreserved_def Let_def)

lemma upperhex_unreserved: "n < 16 \<Longrightarrow> unreserved (upperhex n)"
  by (auto simp: unreserved_def upperhex_def Let_def)

lemma escape_char_safe: "CHR ''&'' \<notin> set (escape_char c)"
proof -
  have "(of_char c :: nat) div 16 < 16" by (simp add: less_mult_imp_div_less)
  then have "upperhex (of_char c div 16) \<noteq> CHR ''&''" "upperhex (of_char c mod 16) \<noteq> CHR ''&''"
    using upperhex_unreserved unreserved_safe by (blast, simp add: upperhex_unreserved unreserved_safe)
  then show ?thesis using unreserved_safe by (auto simp: escape_char_def)
qed

lemma QueryEscape_safe: "CHR ''&'' \<notin> set (QueryEscape s)"
  by (auto simp: QueryEscape_def escape_char_safe)

lemma itoa_unreserved: "d \<in> set (itoa n) \<Longrightarrow> unreserved d"
proof (induction n rule: itoa.induct)
  case (1 n)
  then show ?case by (subst (asm) itoa.simps) (auto simp: unreserved_def Let_def split: if_splits)
qed

lemma itoa_int_unreserved: "d \<in> set (itoa_int i) \<Longrightarrow> unreserved d"
  by (auto simp: itoa_int_def dest: itoa_unreserved split: if_splits) (simp add: unreserved_def)

lemma unescape_unreserved: "list_all unreserved s \<Longrightarrow> QueryUnescape s = s"
  by (induction s) (auto dest: unreserved_safe)

subsection \<open>Property\<close>

text \<open>
  An alarm arrives authenticated: when the message is encoded and the request is built, what is posted goes to
  the service's address with a query that the service reads back as the configured token, the time, and
  the Base64 text of the HMAC of \<open>time, newline, secret\<close>; the characters of Base64 that have a meaning in
  a query survive.
\<close>

theorem alarm_authenticated:
  assumes "SendAlarmToDingTalk hmac marshal newRequest token secret now content = Some (rawUrl, body)"
    and "list_all unreserved token"
  shows "\<exists>q. rawUrl = alarm_url @ ''?'' @ q \<and>
    query_pairs q = [(''access_token'', token), (''timestamp'', itoa_int now),
      (''sign'', base64_encode (hmac (bytes_of secret) (bytes_of (itoa_int now @ [CHR 0x0A] @ secret))))] \<and>
    marshal (alarm_message content) = Some body"
proof -
  let ?ts = "itoa_int now"
  let ?b = "base64_encode (hmac (bytes_of secret) (bytes_of (?ts @ [CHR 0x0A] @ secret)))"
  have ts: "list_all unreserved ?ts" using itoa_int_unreserved by (simp add: list_all_iff)
  have "CHR ''&'' \<notin> set (''access_token='' @ token)" "CHR ''&'' \<notin> set (''timestamp='' @ ?ts)"
    "CHR ''&'' \<notin> set (''sign='' @ QueryEscape ?b)"
    using assms(2) ts unreserved_safe by (auto simp: list_all_iff QueryEscape_safe)
  then have "split_on CHR ''&'' (alarm_query token ?ts (QueryEscape ?b)) =
      [''access_token='' @ token, ''timestamp='' @ ?ts, ''sign='' @ QueryEscape ?b]"
    using split_on_append [of "CHR ''&''" "''access_token='' @ token" "''timestamp='' @ ?ts @ ''&sign='' @ QueryEscape ?b"]
      split_on_append [of "CHR ''&''" "''timestamp='' @ ?ts" "''sign='' @ QueryEscape ?b"]
      split_on_no_sep [of "CHR ''&''" "''sign='' @ QueryEscape ?b"]
    by (simp add: alarm_query_def)
  then have "query_pairs (alarm_query token ?ts (QueryEscape ?b)) =
      [(''access_token'', token), (''timestamp'', ?ts), (''sign'', ?b)]"
    using assms(2) ts by (simp add: query_pairs_def unescape_unreserved QueryEscape_roundtrip)
  with assms(1) show ?thesis
    by (auto simp: SendAlarmToDingTalk_def makeSignature_def Let_def split: option.splits if_splits)
qed

theorem alarm_authenticated_witness:
  "\<exists>q. SendAlarmToDingTalk (\<lambda>k m. [255, 239]) (\<lambda>m. Some [1]) (\<lambda>u. True) ''t0k'' ''s'' 1700 ''disk'' =
       Some (alarm_url @ ''?'' @ q, [1]) \<and>
     query_pairs q = [(''access_token'', ''t0k''), (''timestamp'', itoa_int 1700), (''sign'', base64_encode [255, 239])]"
proof -
  obtain u where u: "SendAlarmToDingTalk (\<lambda>k m. [255, 239]) (\<lambda>m. Some [1]) (\<lambda>u. True) ''t0k'' ''s'' 1700 ''disk'' = Some (u, [1])"
    by (simp add: SendAlarmToDingTalk_def makeSignature_def Let_def)
  from alarm_authenticated [OF u] u show ?thesis by (auto simp: unreserved_def)
qed

end
