(* ===== verification/Log.thy ===== *)
theory Log
  imports Prelude
begin

text \<open>
  \<^verbatim>\<open>log/init.go\<close>, \<^verbatim>\<open>log/log.go\<close> and the goroutine of \<^verbatim>\<open>http.go\<close> that uses it: the logger with one file per
  level, and the two functions that stop a panic. The logging library \<^verbatim>\<open>go.uber.org/zap\<close> and the rotating
  files of \<^verbatim>\<open>file-rotatelogs\<close> are parameters: \<open>zap\<close> with the documented laws of the locale \<open>zap_logger\<close>, and
  \<open>rotatelogs\<close>, which opens a file or fails. The functions of \<^verbatim>\<open>path/filepath\<close> are translated.
\<close>

subsection \<open>Paths\<close>

text \<open>\<^verbatim>\<open>filepath.Clean\<close>, \<^verbatim>\<open>Base\<close>, \<^verbatim>\<open>Dir\<close> and \<^verbatim>\<open>Join\<close> of one element, on Unix.\<close>

definition clean_step :: "bool \<Rightarrow> string \<Rightarrow> string list \<Rightarrow> string list" where
  "clean_step rooted c stack =
     (if c = '''' \<or> c = ''.'' then stack
      else if c = ''..'' then
        (if stack \<noteq> [] \<and> hd stack \<noteq> ''..'' then tl stack else if rooted then stack else ''..'' # stack)
      else c # stack)"

fun join_with :: "string \<Rightarrow> string list \<Rightarrow> string" where
  "join_with sep [] = ''''"
| "join_with sep [x] = x"
| "join_with sep (x # y # xs) = x @ sep @ join_with sep (y # xs)"

definition path_Clean :: "string \<Rightarrow> string" where
  "path_Clean p =
     (let rooted = (p \<noteq> '''' \<and> hd p = CHR ''/'');
          out = join_with ''/'' (rev (fold (clean_step rooted) (split_on (CHR ''/'') p) [])) in
      if rooted then CHR ''/'' # out else if out = '''' then ''.'' else out)"

definition path_Base :: "string \<Rightarrow> string" where
  "path_Base p =
     (if p = '''' then ''.''
      else let q = rev (dropWhile (\<lambda>c. c = CHR ''/'') (rev p)) in
        if q = '''' then ''/'' else last (split_on (CHR ''/'') q))"

definition path_Dir :: "string \<Rightarrow> string" where
  "path_Dir p = path_Clean (rev (dropWhile (\<lambda>c. c \<noteq> CHR ''/'') (rev p)))"

definition path_Join :: "string \<Rightarrow> string" where
  "path_Join p = (if p = '''' then '''' else path_Clean p)"

subsection \<open>The logger\<close>

datatype log_level = DebugLevel | InfoLevel | WarnLevel | ErrorLevel | DPanicLevel | PanicLevel | FatalLevel

record rotate_conf =
  rc_pattern :: string
  rc_link :: string
  rc_max_age :: int
  rc_rotation_time :: int
  rc_rotation_size :: int

datatype 'w sink = FileSink 'w | Stdout

record 'w zcore =
  zc_sink :: "'w sink"
  zc_level :: "log_level \<Rightarrow> bool"

type_synonym fields = "(string \<times> string) list"
type_synonym 'w written = "('w sink \<times> log_level \<times> string \<times> fields) list"

text \<open>What a call leaves: it returns, it panics with its message, or it ends the process.\<close>

datatype log_end = LogReturns | LogPanics string | LogExits nat

type_synonym 'w zap = "'w zcore list \<Rightarrow> log_level \<Rightarrow> string \<Rightarrow> fields \<Rightarrow> 'w written \<Rightarrow> log_end \<times> 'w written"

text \<open>Durations in hours.\<close>

definition getWriter :: "(rotate_conf \<Rightarrow> string + 'w) \<Rightarrow> string \<Rightarrow> 'w outcome" where
  "getWriter rotatelogs filename =
     (let levelName = path_Base filename; baseDir = path_Dir filename in
      case rotatelogs \<lparr>rc_pattern = baseDir @ ''/%Y-%m-%d/'' @ levelName @ ''_%H.log'',
          rc_link = baseDir @ ''/current_'' @ levelName @ ''.log'',
          rc_max_age = 24 * 3, rc_rotation_time = 1, rc_rotation_size = 50 * 1024 * 1024\<rparr> of
        Inl err \<Rightarrow> Panic | Inr hook \<Rightarrow> Ret hook)"

fun open_writers :: "(rotate_conf \<Rightarrow> string + 'w) \<Rightarrow> string list \<Rightarrow> 'w list outcome" where
  "open_writers rotatelogs [] = Ret []"
| "open_writers rotatelogs (f # fs) =
     bind_outcome (getWriter rotatelogs f) (\<lambda>w. bind_outcome (open_writers rotatelogs fs) (\<lambda>ws. Ret (w # ws)))"

definition level_files :: "(log_level \<times> string) list" where
  "level_files = [(InfoLevel, ''/info''), (WarnLevel, ''/warn''), (ErrorLevel, ''/error''), (DebugLevel, ''/debug''),
     (DPanicLevel, ''/dPanic''), (PanicLevel, ''/panic''), (FatalLevel, ''/fatal'')]"

definition log_Init :: "(rotate_conf \<Rightarrow> string + 'w) \<Rightarrow> string \<Rightarrow> 'w zcore list outcome" where
  "log_Init rotatelogs dir =
     bind_outcome (open_writers rotatelogs (map (\<lambda>(l, f). dir @ f) level_files)) (\<lambda>writers.
       Ret (map (\<lambda>(l, w). \<lparr>zc_sink = FileSink w, zc_level = (\<lambda>lvl. lvl = l)\<rparr>) (zip (map fst level_files) writers) @
            map (\<lambda>(l, f). \<lparr>zc_sink = Stdout, zc_level = (\<lambda>lvl. lvl = l)\<rparr>) level_files))"

text \<open>The seven functions \<^verbatim>\<open>Info\<close>, \<^verbatim>\<open>Warn\<close>, \<^verbatim>\<open>Error\<close>, \<^verbatim>\<open>Debug\<close>, \<^verbatim>\<open>DPanic\<close>, \<^verbatim>\<open>Panic\<close> and \<^verbatim>\<open>Fatal\<close> have one body,
  at their level; \<open>None\<close> is the logger before \<^verbatim>\<open>Init\<close>.\<close>

definition log_at :: "'w zap \<Rightarrow> 'w zcore list option \<Rightarrow> log_level \<Rightarrow> string \<Rightarrow> fields \<Rightarrow> 'w written \<Rightarrow>
    log_end \<times> 'w written" where
  "log_at zap zaploger lvl msg fs out =
     (case zaploger of None \<Rightarrow> (LogReturns, out) | Some cores \<Rightarrow> zap cores lvl msg fs out)"

definition log_Info :: "'w zap \<Rightarrow> 'w zcore list option \<Rightarrow> string \<Rightarrow> fields \<Rightarrow> 'w written \<Rightarrow> log_end \<times> 'w written" where
  "log_Info zap zaploger = log_at zap zaploger InfoLevel"

definition log_Warn :: "'w zap \<Rightarrow> 'w zcore list option \<Rightarrow> string \<Rightarrow> fields \<Rightarrow> 'w written \<Rightarrow> log_end \<times> 'w written" where
  "log_Warn zap zaploger = log_at zap zaploger WarnLevel"

definition log_Error :: "'w zap \<Rightarrow> 'w zcore list option \<Rightarrow> string \<Rightarrow> fields \<Rightarrow> 'w written \<Rightarrow> log_end \<times> 'w written" where
  "log_Error zap zaploger = log_at zap zaploger ErrorLevel"

definition log_Debug :: "'w zap \<Rightarrow> 'w zcore list option \<Rightarrow> string \<Rightarrow> fields \<Rightarrow> 'w written \<Rightarrow> log_end \<times> 'w written" where
  "log_Debug zap zaploger = log_at zap zaploger DebugLevel"

definition log_DPanic :: "'w zap \<Rightarrow> 'w zcore list option \<Rightarrow> string \<Rightarrow> fields \<Rightarrow> 'w written \<Rightarrow> log_end \<times> 'w written" where
  "log_DPanic zap zaploger = log_at zap zaploger DPanicLevel"

definition log_Panic :: "'w zap \<Rightarrow> 'w zcore list option \<Rightarrow> string \<Rightarrow> fields \<Rightarrow> 'w written \<Rightarrow> log_end \<times> 'w written" where
  "log_Panic zap zaploger = log_at zap zaploger PanicLevel"

definition log_Fatal :: "'w zap \<Rightarrow> 'w zcore list option \<Rightarrow> string \<Rightarrow> fields \<Rightarrow> 'w written \<Rightarrow> log_end \<times> 'w written" where
  "log_Fatal zap zaploger = log_at zap zaploger FatalLevel"

text \<open>
  A deferred \<^verbatim>\<open>Recover\<close> or \<^verbatim>\<open>DRecover\<close> in a goroutine that panics with \<open>panicking\<close> (\<open>None\<close> when it returns
  normally). The result is how the logging ends, the panic that goes on, and what was written.
\<close>

definition log_Recover :: "'w zap \<Rightarrow> 'w zcore list option \<Rightarrow> string \<Rightarrow> string \<Rightarrow> string option \<Rightarrow> 'w written \<Rightarrow>
    (log_end \<times> string option) \<times> 'w written" where
  "log_Recover zap zaploger stack msg panicking out = (case zaploger of
     None \<Rightarrow> ((LogReturns, panicking), out)
   | Some cores \<Rightarrow> (case panicking of
       None \<Rightarrow> ((LogReturns, None), out)
     | Some err \<Rightarrow> (case zap cores FatalLevel msg [(''recover'', err), (''debug.Stack'', stack)] out of
         (e, out') \<Rightarrow> ((e, None), out'))))"

definition log_DRecover :: "'w zap \<Rightarrow> 'w zcore list option \<Rightarrow> string \<Rightarrow> string \<Rightarrow> string option \<Rightarrow> 'w written \<Rightarrow>
    (log_end \<times> string option) \<times> 'w written" where
  "log_DRecover zap zaploger stack msg panicking out = (case zaploger of
     None \<Rightarrow> ((LogReturns, panicking), out)
   | Some cores \<Rightarrow> (case panicking of
       None \<Rightarrow> ((LogReturns, None), out)
     | Some err \<Rightarrow> (case zap cores DPanicLevel msg [(''recover'', err), (''debug.Stack'', stack)] out of
         (e, out') \<Rightarrow> ((e, None), out'))))"

text \<open>
  The goroutine of \<^verbatim>\<open>gohttp\<close>: it listens on a port of the system's choice and serves; a failure to listen and
  the return of \<^verbatim>\<open>http.Serve\<close> (\<open>None\<close> while it serves) are panics, which the deferred \<^verbatim>\<open>Recover\<close> handles.
\<close>

definition gohttp_panic :: "(string + 'ln) \<Rightarrow> ('ln \<Rightarrow> string option) \<Rightarrow> string option" where
  "gohttp_panic listen serve = (case listen of Inl err \<Rightarrow> Some err | Inr ln \<Rightarrow> serve ln)"

definition gohttp :: "'w zap \<Rightarrow> 'w zcore list option \<Rightarrow> string \<Rightarrow> (string + 'ln) \<Rightarrow> ('ln \<Rightarrow> string option) \<Rightarrow>
    'w written \<Rightarrow> ((log_end \<times> string option) \<times> 'w written) option" where
  "gohttp zap lg stack listen serve out = (case gohttp_panic listen serve of
     None \<Rightarrow> None
   | Some err \<Rightarrow> Some (log_Recover zap lg stack ''http'' (Some err) out))"

subsection \<open>The contract of the library\<close>

text \<open>
  The documented behaviour of a production logger of zap: an entry goes once to every core that is enabled for
  its level, in order; after that \<^verbatim>\<open>Fatal\<close> calls \<^verbatim>\<open>os.Exit(1)\<close> and \<^verbatim>\<open>Panic\<close> panics, even if no core is enabled,
  and \<^verbatim>\<open>DPanic\<close> panics in development mode only, which \<^verbatim>\<open>zap.New\<close> does not switch on.
\<close>

locale zap_logger =
  fixes zap :: "'w zap"
  assumes zap_written: "snd (zap cores lvl msg fs out) =
      out @ map (\<lambda>c. (zc_sink c, lvl, msg, fs)) (filter (\<lambda>c. zc_level c lvl) cores)"
    and zap_end: "fst (zap cores lvl msg fs out) =
      (if lvl = FatalLevel then LogExits 1 else if lvl = PanicLevel then LogPanics msg else LogReturns)"
begin

lemma zap_eq: "zap cores lvl msg fs out =
    (if lvl = FatalLevel then LogExits 1 else if lvl = PanicLevel then LogPanics msg else LogReturns,
     out @ map (\<lambda>c. (zc_sink c, lvl, msg, fs)) (filter (\<lambda>c. zc_level c lvl) cores))"
  by (simp add: prod_eq_iff zap_written zap_end)

end

definition zap_production :: "'w zap" where
  "zap_production cores lvl msg fs out =
     (if lvl = FatalLevel then LogExits 1 else if lvl = PanicLevel then LogPanics msg else LogReturns,
      out @ map (\<lambda>c. (zc_sink c, lvl, msg, fs)) (filter (\<lambda>c. zc_level c lvl) cores))"

interpretation zp: zap_logger zap_production
  by unfold_locales (simp_all add: zap_production_def)

subsection \<open>The files\<close>

lemma split_on_last: "c \<notin> set name \<Longrightarrow> last (split_on c (d @ c # name)) = name"
proof (induction d)
  case Nil
  then show ?case by (simp add: split_on_no_sep)
next
  case (Cons x d)
  have "last (case split_on c ys of [] \<Rightarrow> [[x]] | p # ps \<Rightarrow> (x # p) # ps) = last (split_on c ys)"
    if "tl (split_on c ys) \<noteq> []" for ys using that by (auto split: list.splits)
  moreover have "tl (split_on c (d @ c # name)) \<noteq> []"
    by (induction d) (auto split: list.splits)
  ultimately show ?case using Cons by auto
qed

lemma Base_child:
  assumes "CHR ''/'' \<notin> set name" and "name \<noteq> ''''"
  shows "path_Base (d @ CHR ''/'' # name) = name"
proof -
  have "last name \<noteq> CHR ''/''" using assms last_in_set by fastforce
  then have "dropWhile (\<lambda>c. c = CHR ''/'') (rev name @ CHR ''/'' # rev d) = rev name @ CHR ''/'' # rev d"
    using assms(2) by (cases name rule: rev_cases) auto
  then show ?thesis using assms(1) by (simp add: path_Base_def Let_def split_on_last)
qed

lemma Dir_child:
  assumes "CHR ''/'' \<notin> set name"
  shows "path_Dir (d @ CHR ''/'' # name) = path_Clean (d @ ''/'')"
proof -
  have "dropWhile (\<lambda>c. c \<noteq> CHR ''/'') (rev name @ CHR ''/'' # rev d) = CHR ''/'' # rev d"
    using assms by (subst dropWhile_append2) auto
  then show ?thesis by (simp add: path_Dir_def)
qed

definition level_name :: "log_level \<Rightarrow> string" where
  "level_name l = tl (the (map_of level_files l))"

definition level_conf :: "string \<Rightarrow> log_level \<Rightarrow> rotate_conf" where
  "level_conf dir l = \<lparr>rc_pattern = path_Clean (dir @ ''/'') @ ''/%Y-%m-%d/'' @ level_name l @ ''_%H.log'',
     rc_link = path_Clean (dir @ ''/'') @ ''/current_'' @ level_name l @ ''.log'',
     rc_max_age = 72, rc_rotation_time = 1, rc_rotation_size = 52428800\<rparr>"

lemma level_conf_inj: "level_conf dir l = level_conf dir l' \<longleftrightarrow> l = l'"
  by (cases l; cases l') (simp_all add: level_conf_def level_name_def level_files_def)

lemma getWriter_level:
  "(l, f) \<in> set level_files \<Longrightarrow> getWriter rotatelogs (dir @ f) =
    (case rotatelogs (level_conf dir l) of Inl e \<Rightarrow> Panic | Inr w \<Rightarrow> Ret w)"
  by (auto simp: level_files_def getWriter_def Let_def level_conf_def level_name_def Base_child Dir_child)

text \<open>
  Each level has its own file: when \<^verbatim>\<open>Init\<close> returns, the rotating files of the seven levels have been opened under
  seven different configurations, and an entry of a level is written exactly twice, to that file and to the
  standard output; \<^verbatim>\<open>Init\<close> panics exactly when one of the files cannot be opened.
\<close>

theorem log_Init_routes:
  assumes "zap_logger zap"
  shows "(case log_Init rotatelogs dir of
     Panic \<Rightarrow> \<exists>l e. rotatelogs (level_conf dir l) = Inl e
   | Ret cores \<Rightarrow> \<exists>w. rotatelogs (level_conf dir lvl) = Inr w \<and>
       snd (log_at zap (Some cores) lvl msg fs out) = out @ [(FileSink w, lvl, msg, fs), (Stdout, lvl, msg, fs)])"
proof -
  have g: "getWriter rotatelogs (dir @ f) = (case rotatelogs (level_conf dir l) of Inl e \<Rightarrow> Panic | Inr w \<Rightarrow> Ret w)"
    if "(l, f) \<in> set level_files" for l f by (rule getWriter_level [OF that])
  show ?thesis
    using g [of InfoLevel "''/info''"] g [of WarnLevel "''/warn''"] g [of ErrorLevel "''/error''"]
      g [of DebugLevel "''/debug''"] g [of DPanicLevel "''/dPanic''"] g [of PanicLevel "''/panic''"]
      g [of FatalLevel "''/fatal''"]
    by (cases lvl) (auto simp: log_Init_def level_files_def log_at_def zap_logger.zap_eq [OF assms] split: sum.splits)
qed

lemma log_Init_ok: "log_Init rotatelogs dir \<noteq> Panic \<longleftrightarrow> (\<forall>l. \<exists>w. rotatelogs (level_conf dir l) = Inr w)"
proof (cases "log_Init rotatelogs dir")
  case Panic
  then obtain l e where "rotatelogs (level_conf dir l) = Inl e"
    using log_Init_routes [OF zp.zap_logger_axioms, of rotatelogs dir] by auto
  with Panic show ?thesis by (metis Inl_Inr_False)
next
  case (Ret cores)
  have "\<exists>w. rotatelogs (level_conf dir l) = Inr w" for l
    using log_Init_routes [OF zp.zap_logger_axioms, of rotatelogs dir l "''''" "[]" "[]"] Ret by auto
  with Ret show ?thesis by simp
qed

subsection \<open>Stopping panics\<close>

text \<open>
  What the deferred functions do to a panic: before \<^verbatim>\<open>Init\<close> neither stops it; afterwards \<^verbatim>\<open>DRecover\<close> logs it and
  lets the program go on, and \<^verbatim>\<open>Recover\<close> logs it and ends the process with code 1.
\<close>

theorem recover_spec:
  assumes "zap_logger zap"
  shows "fst (log_Recover zap lg stack msg (Some err) out) =
      (if lg = None then (LogReturns, Some err) else (LogExits 1, None)) \<and>
    fst (log_DRecover zap lg stack msg (Some err) out) =
      (if lg = None then (LogReturns, Some err) else (LogReturns, None))"
  by (cases lg) (simp_all add: log_Recover_def log_DRecover_def zap_logger.zap_eq [OF assms])

text \<open>
  The diagnostics take the proxy down: the profiling server is started after \<^verbatim>\<open>Init\<close>, so if it cannot listen or
  ever stops serving, its goroutine ends the whole process with code 1, after one entry at the fatal level.
\<close>

theorem gohttp_failure_exits:
  assumes "zap_logger zap" and "log_Init rotatelogs dir = Ret cores" and "gohttp_panic listen serve = Some err"
  shows "\<exists>w. gohttp zap (Some cores) stack listen serve out = Some ((LogExits 1, None),
     out @ [(FileSink w, FatalLevel, ''http'', [(''recover'', err), (''debug.Stack'', stack)]),
            (Stdout, FatalLevel, ''http'', [(''recover'', err), (''debug.Stack'', stack)])])"
  using log_Init_routes [OF assms(1), of rotatelogs dir FatalLevel "''http''" "[(''recover'', err), (''debug.Stack'', stack)]" out]
    assms(2,3) zap_logger.zap_end [OF assms(1), of cores FatalLevel "''http''" "[(''recover'', err), (''debug.Stack'', stack)]" out]
  by (auto simp: gohttp_def log_Recover_def log_at_def split: prod.splits)

theorem gohttp_failure_exits_witness:
  "\<exists>cores w. log_Init (\<lambda>c. Inr (rc_link c)) ''./logs'' = Ret cores \<and>
     gohttp zap_production (Some cores) ''main.gohttp'' (Inl ''address in use'') (\<lambda>ln :: nat. None) [] = Some ((LogExits 1, None),
       [(FileSink w, FatalLevel, ''http'', [(''recover'', ''address in use''), (''debug.Stack'', ''main.gohttp'')]),
        (Stdout, FatalLevel, ''http'', [(''recover'', ''address in use''), (''debug.Stack'', ''main.gohttp'')])])"
proof -
  obtain cores where c: "log_Init (\<lambda>c. Inr (rc_link c)) ''./logs'' = Ret cores"
    by (cases "log_Init (\<lambda>c. Inr (rc_link c) :: string + string) ''./logs''")
      (simp_all add: log_Init_def level_files_def getWriter_def Let_def)
  with gohttp_failure_exits [OF zp.zap_logger_axioms c, of "Inl ''address in use''" "\<lambda>ln :: nat. None" "''address in use''" "''main.gohttp''" "[]"]
  show ?thesis by (auto simp: gohttp_panic_def)
qed

end
