(* ===== verification/Process.thy ===== *)
theory Process
  imports Startup Log
begin

text \<open>
  The process around the server: \<^verbatim>\<open>main.go\<close>, \<^verbatim>\<open>server/ipv4_server.go\<close>, \<^verbatim>\<open>server/ipv6_server.go\<close> and the configuration
  file of \<^verbatim>\<open>config/load.go\<close>.
\<close>

subsection \<open>The configuration file\<close>

text \<open>
  Viper is a parameter: \<open>read\<close> is the outcome of \<^verbatim>\<open>ReadInConfig\<close> (\<open>Some\<close> an error), and \<open>unmarshal\<close> what
  \<^verbatim>\<open>Unmarshal\<close> leaves in a fresh structure of type \<open>'c\<close>, with its error. The state is the atomic pointer,
  \<open>None\<close> before the first store.
\<close>

definition GetConf :: "'c option \<Rightarrow> 'c outcome" where
  "GetConf p = (case p of None \<Rightarrow> Panic | Some c \<Rightarrow> Ret c)"

definition store_conf :: "string option \<times> 'c \<Rightarrow> 'c option \<Rightarrow> 'c option" where
  "store_conf unmarshal p = (case unmarshal of (err, confDataT) \<Rightarrow> Some confDataT)"

definition Load :: "string option \<Rightarrow> string option \<times> 'c \<Rightarrow> 'c option \<Rightarrow> 'c option outcome" where
  "Load read unmarshal p = (case read of Some err \<Rightarrow> Panic | None \<Rightarrow> Ret (store_conf unmarshal p))"

text \<open>The callback of \<^verbatim>\<open>OnConfigChange\<close>.\<close>

definition OnConfigChange :: "string option \<times> 'c \<Rightarrow> 'c option \<Rightarrow> 'c option" where
  "OnConfigChange unmarshal p = store_conf unmarshal p"

text \<open>
  The configuration in force is what the last change of the file left, even when it could not be read: after
  \<^verbatim>\<open>Load\<close> and any changes of the file, \<^verbatim>\<open>GetConf\<close> never fails and returns the structure that the last
  \<^verbatim>\<open>Unmarshal\<close> filled, as far as it got; the errors are only printed, and the previous configuration is lost.
\<close>

theorem conf_last_unmarshal:
  assumes "Load None u0 p = Ret p0"
  shows "GetConf (fold OnConfigChange us p0) = Ret (snd (last (u0 # us)))"
proof -
  have "fold OnConfigChange us (Some (snd u)) = Some (snd (last (u # us)))" for u
    by (induction us arbitrary: u) (auto simp: OnConfigChange_def store_conf_def split: prod.splits)
  with assms show ?thesis by (auto simp: Load_def GetConf_def store_conf_def split: prod.splits)
qed

theorem conf_last_unmarshal_witness:
  "Load None (None, 7 :: nat) None = Ret (Some 7) \<and>
   GetConf (fold OnConfigChange [(None, 8), (Some ''broken file'', 0)] (Some (7 :: nat))) = Ret 0"
proof -
  have l: "Load None (None, 7 :: nat) None = Ret (Some 7)" by (simp add: Load_def store_conf_def)
  with conf_last_unmarshal [OF l, of "[(None, 8), (Some ''broken file'', 0)]"] show ?thesis by simp
qed

subsection \<open>Initialisation\<close>

text \<open>\<^verbatim>\<open>init\<close> of \<^verbatim>\<open>main.go\<close>, after the flag is parsed: the configuration file, then the logger in the directory the
  configuration names. The result is the pointer to the configuration and the logger.\<close>

definition main_init :: "string option \<Rightarrow> string option \<times> 'c \<Rightarrow> ('c \<Rightarrow> string) \<Rightarrow> (rotate_conf \<Rightarrow> string + 'w) \<Rightarrow>
    ('c option \<times> 'w zcore list) outcome" where
  "main_init read unmarshal LogDir rotatelogs =
     bind_outcome (Load read unmarshal None) (\<lambda>p. bind_outcome (GetConf p) (\<lambda>conf.
       bind_outcome (log_Init rotatelogs (path_Join (LogDir conf))) (\<lambda>zaploger. Ret (p, zaploger))))"

text \<open>
  A process that gets past its initialisation has a configuration and a logger: the initialisation panics unless
  the file was read and all seven log files could be opened; it does not notice that the file could not be
  unmarshalled. A configuration without a log directory puts the logs in the root directory.
\<close>

theorem main_init_spec:
  "main_init read unmarshal LogDir rotatelogs \<noteq> Panic \<longleftrightarrow>
     read = None \<and> (\<forall>l. \<exists>w. rotatelogs (level_conf (path_Join (LogDir (snd unmarshal))) l) = Inr w)"
proof -
  let ?dir = "path_Join (LogDir (snd unmarshal))"
  have "main_init read unmarshal LogDir rotatelogs \<noteq> Panic \<longleftrightarrow> read = None \<and> log_Init rotatelogs ?dir \<noteq> Panic"
    by (cases "log_Init rotatelogs ?dir")
      (auto simp: main_init_def Load_def store_conf_def GetConf_def split: prod.splits option.splits)
  then show ?thesis unfolding log_Init_ok .
qed

lemma no_log_dir: "rc_link (level_conf (path_Join '''') InfoLevel) = ''//current_info.log''"
  by code_simp

subsection \<open>The main function\<close>

text \<open>
  \<^verbatim>\<open>main\<close> starts the server, waits for a signal, arms a timer that ends the process with code 1, and runs the
  deferred \<^verbatim>\<open>server.Stop\<close>; the process ends with code 0 if that returns first. \<open>drained\<close> is whether the workers
  of the closed send queues have handed over everything (the wait at the end of
  \<^verbatim>\<open>closeRabbitmqSendQueueSlices\<close>).
\<close>

datatype main_pc = MServing | MStopping | MExited nat

record 'v process =
  p_server :: "'v server_state"
  p_pc :: main_pc

definition Start4 :: "(string list \<Rightarrow> string \<Rightarrow> bool) \<Rightarrow> (string \<Rightarrow> 'v viper_ops) \<Rightarrow> conf_data \<Rightarrow> 'v \<Rightarrow> 'v process outcome" where
  "Start4 listen vops conf v = bind_outcome (StartIpv4 listen vops conf (newManager v)) (\<lambda>s. Ret \<lparr>p_server = s, p_pc = MServing\<rparr>)"

definition Start6 :: "(string list \<Rightarrow> string \<Rightarrow> bool) \<Rightarrow> (string \<Rightarrow> 'v viper_ops) \<Rightarrow> conf_data \<Rightarrow> 'v \<Rightarrow> 'v process outcome" where
  "Start6 listen vops conf v = bind_outcome (StartIpv6 listen vops conf (newManager v)) (\<lambda>s. Ret \<lparr>p_server = s, p_pc = MServing\<rparr>)"

inductive main_step :: "(string \<Rightarrow> bool) \<Rightarrow> ('v server_state \<Rightarrow> bool) \<Rightarrow> 'v process \<Rightarrow> 'v process \<Rightarrow> bool" for returns drained where
  serve: "p_pc p = MServing \<or> p_pc p = MStopping \<Longrightarrow> s_stop s' = Serving \<longleftrightarrow> p_pc p = MServing \<Longrightarrow>
    sr_step returns (p_server p) s' \<Longrightarrow> main_step returns drained p (p\<lparr>p_server := s'\<rparr>)"
| signal: "p_pc p = MServing \<Longrightarrow> main_step returns drained p (p\<lparr>p_server := manager_Stop (p_server p), p_pc := MStopping\<rparr>)"
| stop_returned: "p_pc p = MStopping \<Longrightarrow> s_stop (p_server p) = QueuesClosed \<Longrightarrow> drained (p_server p) \<Longrightarrow>
    main_step returns drained p (p\<lparr>p_pc := MExited 0\<rparr>)"
| timer: "p_pc p = MStopping \<Longrightarrow> main_step returns drained p (p\<lparr>p_pc := MExited 1\<rparr>)"

lemma main_step_server:
  "main_step returns drained p p' \<Longrightarrow> (p_pc p = MServing \<longrightarrow> s_stop (p_server p) = Serving) \<Longrightarrow>
   (sr_step returns)\<^sup>*\<^sup>* (p_server p) (p_server p') \<and> (p_pc p' = MServing \<longrightarrow> s_stop (p_server p') = Serving)"
  by (induction rule: main_step.induct) (auto intro: r_into_rtranclp sr_step.stop)

lemma main_steps_server:
  assumes "(main_step returns drained)\<^sup>*\<^sup>* p p'" and "p_pc p = MServing \<longrightarrow> s_stop (p_server p) = Serving"
  shows "(sr_step returns)\<^sup>*\<^sup>* (p_server p) (p_server p') \<and> (p_pc p' = MServing \<longrightarrow> s_stop (p_server p') = Serving)"
  using assms
proof (induction rule: rtranclp_induct)
  case (step y z)
  with main_step_server [OF step.hyps(2)] show ?case by (meson rtranclp_trans)
qed simp

lemma exit_code:
  assumes "(main_step returns drained)\<^sup>*\<^sup>* p p'" and "p_pc p = MServing"
  shows "p_pc p' = MExited c \<longrightarrow> c = 1 \<or> c = 0 \<and> s_stop (p_server p') = QueuesClosed"
  using assms
proof (induction arbitrary: c rule: rtranclp_induct)
  case (step y z)
  from step.hyps(2) step.IH [OF step.prems] show ?case by (induction rule: main_step.induct) auto
qed simp


lemma main_tasks:
  "tm_reach returns m m' \<Longrightarrow> p_pc p = MServing \<Longrightarrow> s_stop (p_server p) = Serving \<Longrightarrow> s_tcm (p_server p) = m \<Longrightarrow>
   (main_step returns drained)\<^sup>*\<^sup>* p (p\<lparr>p_server := (p_server p)\<lparr>s_tcm := m'\<rparr>\<rparr>)"
proof (induction rule: tm_reach.induct)
  case (step m m1 m2)
  let ?p = "p\<lparr>p_server := (p_server p)\<lparr>s_tcm := m1\<rparr>\<rparr>"
  have "sr_step returns (p_server ?p) ((p_server p)\<lparr>s_tcm := m2\<rparr>)"
    using sr_step.tasks [of returns "p_server ?p" m2] step by simp
  then have "main_step returns drained ?p (?p\<lparr>p_server := (p_server p)\<lparr>s_tcm := m2\<rparr>\<rparr>)"
    using step.prems by (intro main_step.serve) auto
  with step show ?case by (auto intro: rtranclp.rtrancl_into_rtrancl)
qed auto


end
