(* ===== verification/NetTools.thy ===== *)
theory NetTools
  imports NetAddr
begin

text \<open>
  Small helpers around package \<^verbatim>\<open>net\<close>: \<^verbatim>\<open>Conn\<close> of \<^verbatim>\<open>server/io.go\<close>, \<^verbatim>\<open>DialContext\<close> of \<^verbatim>\<open>server/func.go\<close>, and the address
  helpers of \<^verbatim>\<open>utils/tool.go\<close>.
\<close>

subsection \<open>Connections with deadlines\<close>

text \<open>
  \<^verbatim>\<open>Conn\<close> sets a new deadline before every operation. Times are in nanoseconds; \<open>arrives\<close> is when the other side
  lets the operation finish (\<open>None\<close> is never), and an operation fails at its deadline.
\<close>

record timed_conn =
  readtimeout :: int
  writetimeout :: int
  read_deadline :: int
  write_deadline :: int
  tc_closed :: bool

definition newConn :: "int \<Rightarrow> int \<Rightarrow> timed_conn" where
  "newConn wt rt = \<lparr>readtimeout = rt * 1000000000, writetimeout = wt * 1000000000, read_deadline = 0,
     write_deadline = 0, tc_closed = False\<rparr>"

definition io_result :: "bool \<Rightarrow> int \<Rightarrow> int option \<Rightarrow> bool" where
  "io_result closed deadline arrives = (\<not> closed \<and> (case arrives of None \<Rightarrow> False | Some t \<Rightarrow> t < deadline))"

definition Conn_Write :: "int \<Rightarrow> int option \<Rightarrow> timed_conn \<Rightarrow> bool \<times> timed_conn" where
  "Conn_Write now arrives c = (let c1 = c\<lparr>write_deadline := now + writetimeout c\<rparr> in
     (io_result (tc_closed c1) (write_deadline c1) arrives, c1))"

definition Conn_Read :: "int \<Rightarrow> int option \<Rightarrow> timed_conn \<Rightarrow> bool \<times> timed_conn" where
  "Conn_Read now arrives c = (let c1 = c\<lparr>read_deadline := now + readtimeout c\<rparr> in
     (io_result (tc_closed c1) (read_deadline c1) arrives, c1))"

definition Conn_Close :: "timed_conn \<Rightarrow> timed_conn" where
  "Conn_Close c = c\<lparr>tc_closed := True\<rparr>"

text \<open>A run of reads: each starts when the one before has ended, and waits for data that take \<open>w\<close>.\<close>

fun read_run :: "int \<Rightarrow> int list \<Rightarrow> timed_conn \<Rightarrow> bool \<times> timed_conn" where
  "read_run now [] c = (True, c)"
| "read_run now (w # ws) c = (case Conn_Read now (Some (now + w)) c of
     (ok, c1) \<Rightarrow> if ok then read_run (now + w) ws c1 else (False, c1))"

lemma read_run_ok:
  "\<not> tc_closed c \<Longrightarrow> fst (read_run now ws c) \<longleftrightarrow> (\<forall>w \<in> set ws. w < readtimeout c)"
proof (induction ws arbitrary: now c)
  case (Cons w ws)
  let ?c = "c\<lparr>read_deadline := now + readtimeout c\<rparr>"
  have "fst (read_run (now + w) ws ?c) \<longleftrightarrow> (\<forall>w \<in> set ws. w < readtimeout ?c)" using Cons by simp
  with Cons.prems show ?case by (simp add: Conn_Read_def io_result_def Let_def)
qed simp

text \<open>
  A connection times out only when it is idle for the whole timeout: reads one after the other succeed, for
  however long together, exactly if the data of each arrive in less than \<^verbatim>\<open>readtimeout\<close> seconds.
\<close>

theorem idle_timeout:
  "fst (read_run now ws (newConn wt rt)) \<longleftrightarrow> list_all (\<lambda>w. w < rt * 1000000000) ws"
  using read_run_ok [of "newConn wt rt" now ws] by (simp add: newConn_def list_all_iff)

subsection \<open>Dialling\<close>

text \<open>The local address of the new connection: the given bytes, or the system's choice (\<open>None\<close>) for an empty slice.\<close>

definition DialContext :: "(ip option \<times> int \<Rightarrow> string \<Rightarrow> 'r) \<Rightarrow> string \<Rightarrow> ip \<Rightarrow> int \<Rightarrow> 'r" where
  "DialContext dial address localIP localPort =
     dial (if length localIP \<noteq> 0 then Some localIP else None, localPort) address"

subsection \<open>Addresses\<close>

definition IsLoopback :: "ip \<Rightarrow> bool" where
  "IsLoopback p = (case To4 p of Some q \<Rightarrow> q ! 0 = 127 | None \<Rightarrow> p = replicate 15 0 @ [1])"

text \<open>
  \<^verbatim>\<open>GetIPv4FromLink\<close> on the result of \<^verbatim>\<open>net.InterfaceAddrs\<close>; an entry is \<open>None\<close> when it is not an \<^verbatim>\<open>*net.IPNet\<close>.
\<close>

fun first_ipv4 :: "ip option list \<Rightarrow> string" where
  "first_ipv4 [] = ''''"
| "first_ipv4 (a # as) = (case a of
     Some p \<Rightarrow> if \<not> IsLoopback p \<and> To4 p \<noteq> None then ip_String p else first_ipv4 as
   | None \<Rightarrow> first_ipv4 as)"

definition GetIPv4FromLink :: "string + ip option list \<Rightarrow> string" where
  "GetIPv4FromLink addrs = (case addrs of Inl err \<Rightarrow> '''' | Inr as \<Rightarrow> first_ipv4 as)"

definition ParseIPv6 :: "(string \<Rightarrow> ip option) \<Rightarrow> string \<Rightarrow> ip option" where
  "ParseIPv6 parseIP s = (case parseIP s of
     Some p \<Rightarrow> if To4 p = None then Some p else None
   | None \<Rightarrow> None)"

lemma first_ipv4_spec:
  "first_ipv4 as = (case filter (\<lambda>a. case a of None \<Rightarrow> False | Some p \<Rightarrow> \<not> IsLoopback p \<and> To4 p \<noteq> None) as of
     [] \<Rightarrow> '''' | a # _ \<Rightarrow> ip_String (the a))"
  by (induction as) (auto split: option.splits)

end
