(* ===== verification/SendPool.thy ===== *)
theory SendPool
  imports Product
begin

text \<open>
  The workers behind the send queues (\<^verbatim>\<open>runhandleRabbitmqSendQueue\<close> and \<^verbatim>\<open>handleRabbitmqSendQueue\<close> of
  \<^verbatim>\<open>server/rabbitmq_product.go\<close>): four goroutines per queue, each in \<^verbatim>\<open>DequeueFunc\<close>, interleaved with pushes and with
  closing. \<open>sq_sent\<close> are the messages handed to the pool, \<open>sq_pushed\<close> those accepted by the queue.
\<close>

definition RabbitmqSendQueueSlicesHandlerCount :: nat where
  "RabbitmqSendQueueSlicesHandlerCount = 4"

type_synonym message = "rabbit_mq_data option"

record send_queue =
  sq_queue :: "message mqueue"
  sq_workers :: "func_state list"
  sq_sent :: "message list"
  sq_pushed :: "message list"

definition start_workers :: send_queue where
  "start_workers = \<lparr>sq_queue = NewMQueue None, sq_workers = replicate RabbitmqSendQueueSlicesHandlerCount FTry,
     sq_sent = [], sq_pushed = []\<rparr>"

definition wake_worker :: "func_state \<Rightarrow> func_state" where
  "wake_worker w = (case w of FParked \<Rightarrow> FTry | _ \<Rightarrow> w)"

definition active :: "func_state \<Rightarrow> bool" where
  "active w \<longleftrightarrow> w = FTry \<or> w = FCheck"

inductive send_work :: "(message \<Rightarrow> bool) \<Rightarrow> send_queue \<Rightarrow> send_queue \<Rightarrow> bool" for push where
  work: "i < length (sq_workers s) \<Longrightarrow> active (sq_workers s ! i) \<Longrightarrow>
    handleRabbitmqSendQueue push (sq_sent s, sq_workers s ! i, sq_queue s) = (sent, w, q) \<Longrightarrow>
    send_work push s (s\<lparr>sq_queue := q, sq_workers := (sq_workers s)[i := w], sq_sent := sent\<rparr>)"

inductive send_env :: "send_queue \<Rightarrow> send_queue \<Rightarrow> bool" where
  accept: "MQueue_Enqueue pick d (sq_queue s) = (None, q) \<Longrightarrow>
    send_env s (s\<lparr>sq_queue := q, sq_workers := map wake_worker (sq_workers s), sq_pushed := sq_pushed s @ [d]\<rparr>)"
| refuse: "MQueue_Enqueue pick d (sq_queue s) = (Some e, q) \<Longrightarrow> send_env s (s\<lparr>sq_queue := q\<rparr>)"
| close: "send_env s (s\<lparr>sq_queue := MQueue_Close (sq_queue s), sq_workers := map wake_worker (sq_workers s)\<rparr>)"

definition send_step :: "(message \<Rightarrow> bool) \<Rightarrow> send_queue \<Rightarrow> send_queue \<Rightarrow> bool" where
  "send_step push s s' \<longleftrightarrow> send_work push s s' \<or> send_env s s'"

subsection \<open>Invariant\<close>

definition send_inv :: "send_queue \<Rightarrow> bool" where
  "send_inv s \<longleftrightarrow> mq_inv (sq_queue s) \<and> sq_pushed s = sq_sent s @ q_items (sq_queue s) \<and>
     (FParked \<in> set (sq_workers s) \<longrightarrow> q_status (sq_queue s) \<and> q_items (sq_queue s) = []) \<and>
     (\<forall>w \<in> set (sq_workers s). \<forall>e. w = FRet e \<longrightarrow> \<not> q_status (sq_queue s) \<and> q_items (sq_queue s) = [])"

lemma worker_try:
  assumes "mq_inv q"
  obtains (item) t q1 where "handleRabbitmqSendQueue push (sent, FTry, q) = (sent @ [t], FCheck, q1)" "mq_inv q1"
      "q_status q1 = q_status q" "q_items q = t # q_items q1"
  | (empty) "handleRabbitmqSendQueue push (sent, FTry, q) =
      (sent, if q_status q then FCheck else FRet (Some QueueCloseAndEmpty), q)" "q_items q = []"
proof -
  obtain t ok c q1 where d: "MQueue_dequeue q = ((t, ok, c), q1)" by (cases "MQueue_dequeue q") auto
  then have "MQueue_Dequeue q = ((t, ok, c), q1)" by (simp add: MQueue_Dequeue_def)
  note q = MQueue_Dequeue_cases [OF assms this]
  have s: "handleRabbitmqSendQueue push (sent, FTry, q) =
      (if ok then (sent @ [t], FCheck, q1) else if c then (sent, FRet (Some QueueCloseAndEmpty), q1) else (sent, FCheck, q1))"
    by (simp add: handleRabbitmqSendQueue_def processFunc_def d)
  show thesis
  proof (cases ok)
    case True
    with s q show thesis by (intro item [of t q1]) auto
  next
    case False
    then have "q1 = q" "q_items q = []" "c = (\<not> q_status q)" using q by blast+
    with s False show thesis by (intro empty) auto
  qed
qed

lemma worker_check:
  "mq_inv q \<Longrightarrow> handleRabbitmqSendQueue push (sent, FCheck, q) =
     (sent, if q_status q \<and> q_items q = [] then FParked else FTry, q)"
  by (simp add: handleRabbitmqSendQueue_def MQueue_check_iff)

lemma worker_step:
  assumes "mq_inv q" and "handleRabbitmqSendQueue push (sent, w, q) = (sent', w', q')" and "active w"
  shows "mq_inv q' \<and> q_status q' = q_status q \<and> sent' @ q_items q' = sent @ q_items q \<and>
    (w' = FParked \<longrightarrow> q_status q' \<and> q_items q' = []) \<and> (\<forall>e. w' = FRet e \<longrightarrow> \<not> q_status q' \<and> q_items q' = []) \<and>
    (q_items q = [] \<longrightarrow> q_items q' = [])"
proof (cases w)
  case FTry
  with assms(1,2) show ?thesis by (cases rule: worker_try [OF assms(1), of push sent]) (auto split: if_splits)
next
  case FCheck
  with assms(1,2) show ?thesis by (auto simp: worker_check split: if_splits)
qed (use assms(3) in \<open>auto simp: active_def\<close>)

lemma wake_worker_simps [simp]:
  "wake_worker w \<noteq> FParked" "FParked \<noteq> wake_worker w" "wake_worker w = FRet e \<longleftrightarrow> w = FRet e" "FRet e = wake_worker w \<longleftrightarrow> w = FRet e"
  by (cases w; auto simp: wake_worker_def)+

lemma send_work_inv: "send_work push s s' \<Longrightarrow> send_inv s \<Longrightarrow> send_inv s'"
proof (induction rule: send_work.induct)
  case (work i s sent w q)
  then have "mq_inv (sq_queue s)" by (simp add: send_inv_def)
  from worker_step [OF this work(3,2)] work(4) show ?case
    unfolding send_inv_def by (auto dest!: set_update_subset_insert [THEN subsetD])
qed

lemma send_env_inv: "send_env s s' \<Longrightarrow> send_inv s \<Longrightarrow> send_inv s'"
proof (induction rule: send_env.induct)
  case (accept pick d s q)
  then show ?case
    using MQueue_Enqueue_cases [of "sq_queue s" pick d None q] by (fastforce simp: send_inv_def)
next
  case (refuse pick d s e q)
  then show ?case using MQueue_Enqueue_cases [of "sq_queue s" pick d "Some e" q] by (auto simp: send_inv_def)
next
  case (close s)
  then show ?case using mq_close [of "sq_queue s"] by (auto simp: send_inv_def)
qed

lemma send_reach_inv: "(send_step push)\<^sup>*\<^sup>* s s' \<Longrightarrow> send_inv s \<Longrightarrow> send_inv s'"
  by (induction rule: rtranclp_induct) (auto simp: send_step_def intro: send_work_inv send_env_inv)

lemma start_workers_inv: "send_inv start_workers"
  using NewMQueue_inv [of None] by (auto simp: send_inv_def start_workers_def)

subsection \<open>The steps left after closing\<close>

definition worker_left :: "func_state \<Rightarrow> nat" where
  "worker_left w = (case w of FCheck \<Rightarrow> 2 | FTry \<Rightarrow> 1 | _ \<Rightarrow> 0)"

definition send_left :: "send_queue \<Rightarrow> nat" where
  "send_left s = 2 * length (q_items (sq_queue s)) + sum_list (map worker_left (sq_workers s))"

lemma worker_left_step:
  assumes "mq_inv q" and "\<not> q_status q" and "handleRabbitmqSendQueue push (sent, w, q) = (sent', w', q')" and "active w"
  shows "2 * length (q_items q') + worker_left w' < 2 * length (q_items q) + worker_left w"
proof (cases w)
  case FTry
  with assms(2,3) show ?thesis
    by (cases rule: worker_try [OF assms(1), of push sent]) (auto simp: worker_left_def)
next
  case FCheck
  with assms(1-3) show ?thesis by (auto simp: worker_check worker_left_def)
qed (use assms(4) in \<open>auto simp: active_def\<close>)

lemma send_work_left:
  "send_work push s s' \<Longrightarrow> send_inv s \<Longrightarrow> \<not> q_status (sq_queue s) \<Longrightarrow>
   send_left s' < send_left s \<and> \<not> q_status (sq_queue s') \<and> sq_pushed s' = sq_pushed s"
proof (induction rule: send_work.induct)
  case (work i s sent w q)
  then have i: "mq_inv (sq_queue s)" by (simp add: send_inv_def)
  from worker_left_step [OF i work(5,3,2)] worker_step [OF i work(3,2)] work show ?case
    using sum_list_map_update [of i "sq_workers s" worker_left w] by (simp add: send_left_def)
qed

lemma send_work_relpow:
  "(send_work push ^^ k) s s' \<Longrightarrow> send_inv s \<Longrightarrow> \<not> q_status (sq_queue s) \<Longrightarrow>
   send_left s' + k \<le> send_left s \<and> \<not> q_status (sq_queue s') \<and> sq_pushed s' = sq_pushed s \<and> send_inv s'"
proof (induction k arbitrary: s')
  case (Suc k)
  then obtain s1 where s1: "(send_work push ^^ k) s s1" "send_work push s1 s'" by auto
  from Suc.IH [OF s1(1) Suc.prems(2,3)] send_work_left [OF s1(2)] send_work_inv [OF s1(2)] show ?case by auto
qed simp

lemma workers_kept: "(send_step push)\<^sup>*\<^sup>* s s' \<Longrightarrow> length (sq_workers s') = length (sq_workers s)"
  by (induction rule: rtranclp_induct) (auto simp: send_step_def elim!: send_work.cases send_env.cases)

lemma work_enabled: "w \<in> set (sq_workers s) \<Longrightarrow> active w \<Longrightarrow> \<exists>s'. send_work push s s'"
proof -
  assume "w \<in> set (sq_workers s)" "active w"
  then obtain i where i: "i < length (sq_workers s)" "active (sq_workers s ! i)" by (auto simp: in_set_conv_nth)
  obtain sent w' q where "handleRabbitmqSendQueue push (sq_sent s, sq_workers s ! i, sq_queue s) = (sent, w', q)"
    by (cases "handleRabbitmqSendQueue push (sq_sent s, sq_workers s ! i, sq_queue s)") auto
  with i show ?thesis by (blast intro: send_work.work)
qed

lemma relpow_work_reach: "(send_work push ^^ k) s s' \<Longrightarrow> (send_step push)\<^sup>*\<^sup>* s s'"
proof (induction k arbitrary: s')
  case (Suc k)
  then obtain s1 where "(send_work push ^^ k) s s1" "send_work push s1 s'" by auto
  with Suc.IH show ?case by (meson rtranclp.rtrancl_into_rtrancl send_step_def)
qed simp

subsection \<open>Property\<close>

text \<open>
  Shutting down sends what was queued: once a send queue is closed, after any interleaving of pushes and its
  four workers, the workers take at most \<open>send_left\<close> more steps, and when none can go on all four have
  returned and exactly the messages accepted were handed to the pool, in the order in which they were
  accepted, whether or not the pool took them.
\<close>

theorem send_queue_drains:
  assumes "(send_step push)\<^sup>*\<^sup>* start_workers s" and "\<not> q_status (sq_queue s)" and "(send_work push ^^ k) s s'"
  shows "k \<le> send_left s \<and>
    ((\<nexists>s''. send_work push s' s'') \<longrightarrow> list_all (\<lambda>w. \<exists>e. w = FRet e) (sq_workers s') \<and> sq_sent s' = sq_pushed s)"
proof -
  have i: "send_inv s" using assms(1) start_workers_inv by (rule send_reach_inv)
  note r = send_work_relpow [OF assms(3) i assms(2)]
  have l: "length (sq_workers s') = 4"
    using workers_kept [OF rtranclp_trans [OF assms(1) relpow_work_reach [OF assms(3)]]]
    by (simp add: start_workers_def RabbitmqSendQueueSlicesHandlerCount_def)
  have "list_all (\<lambda>w. \<exists>e. w = FRet e) (sq_workers s') \<and> sq_sent s' = sq_pushed s" if "\<nexists>s''. send_work push s' s''"
  proof -
    have "\<exists>e. w = FRet e" if "w \<in> set (sq_workers s')" for w
      using work_enabled [OF that, of push] \<open>\<nexists>s''. send_work push s' s''\<close> r that
      by (cases w) (auto simp: active_def send_inv_def)
    moreover from l have "sq_workers s' ! 0 \<in> set (sq_workers s')" by simp
    ultimately show ?thesis using r by (auto simp: send_inv_def list_all_iff)
  qed
  with r show ?thesis by auto
qed

lemma workers_finish:
  "send_inv s \<Longrightarrow> \<not> q_status (sq_queue s) \<Longrightarrow> \<exists>k s'. (send_work push ^^ k) s s' \<and> (\<nexists>s''. send_work push s' s'')"
proof (induction "send_left s" arbitrary: s rule: less_induct)
  case less
  show ?case
  proof (cases "\<exists>s1. send_work push s s1")
    case True
    then obtain s1 where s1: "send_work push s s1" by blast
    have l: "send_left s1 < send_left s" "\<not> q_status (sq_queue s1)" "send_inv s1"
      using send_work_left [OF s1 less.prems] send_work_inv [OF s1 less.prems(1)] by auto
    obtain k s' where "(send_work push ^^ k) s1 s'" "\<nexists>s''. send_work push s' s''"
      using less.hyps [OF l(1,3,2)] by blast
    with s1 relpowp_Suc_I2 [of "send_work push" s s1] show ?thesis by blast
  next
    case False
    then show ?thesis by (intro exI [of _ 0]) auto
  qed
qed

theorem send_queue_drains_witness:
  "\<exists>s k s'. (send_step (\<lambda>_. False))\<^sup>*\<^sup>* start_workers s \<and> \<not> q_status (sq_queue s) \<and>
     (send_work (\<lambda>_. False) ^^ k) s s' \<and> sq_sent s' = [Some demo_message]"
proof -
  let ?push = "\<lambda>_ :: message. False"
  obtain e q where q: "MQueue_Enqueue None (Some demo_message) (NewMQueue None) = (e, q)"
    by (cases "MQueue_Enqueue None (Some demo_message) (NewMQueue None :: message mqueue)") auto
  then have "e = None" by (auto simp: MQueue_Enqueue_def NewMQueue_def Let_def split: prod.splits)
  let ?s1 = "start_workers\<lparr>sq_queue := q, sq_workers := map wake_worker (sq_workers start_workers), sq_pushed := [Some demo_message]\<rparr>"
  let ?s2 = "?s1\<lparr>sq_queue := MQueue_Close q, sq_workers := map wake_worker (sq_workers ?s1)\<rparr>"
  have "send_env start_workers ?s1"
    using send_env.accept [of None "Some demo_message" start_workers q] q \<open>e = None\<close> by (simp add: start_workers_def)
  moreover have "send_env ?s1 ?s2" using send_env.close [of ?s1] by simp
  ultimately have r: "(send_step ?push)\<^sup>*\<^sup>* start_workers ?s2"
    by (meson converse_rtranclp_into_rtranclp r_into_rtranclp send_step_def)
  have c: "\<not> q_status (sq_queue ?s2)" using mq_close [of q] by simp
  obtain k s' where k: "(send_work ?push ^^ k) ?s2 s'" "\<nexists>s''. send_work ?push s' s''"
    using workers_finish [OF send_reach_inv [OF r start_workers_inv] c] by blast
  have "sq_sent s' = [Some demo_message]" using send_queue_drains [OF r c k(1)] k(2) by simp
  with r c k(1) show ?thesis by blast
qed

end
