(* ===== verification/SendShutdown.thy ===== *)
theory SendShutdown
  imports SendPool
begin

text \<open>
  The eight send queues together (\<^verbatim>\<open>initRabbitmqSendQueueSlices\<close>, \<^verbatim>\<open>pushRabbitmqSendQueue\<close>,
  \<^verbatim>\<open>runhandleRabbitmqSendQueue\<close> and \<^verbatim>\<open>closeRabbitmqSendQueueSlices\<close> of \<^verbatim>\<open>server/rabbitmq_product.go\<close>): 32 workers, pushes in turn,
  and the closing goroutine, which closes one queue after the other and then waits on
  \<^verbatim>\<open>rabbitmqSendQueueDone\<close>, the channel that is closed when all workers have returned.
\<close>

record send_pool =
  sp_queues :: "send_queue list"
  sp_counter :: "64 word"
  sp_closed :: "nat option"
  sp_returned :: bool

definition start_pool :: send_pool where
  "start_pool = \<lparr>sp_queues = replicate RabbitmqSendQueueSlicesShareSize start_workers, sp_counter = 0,
     sp_closed = None, sp_returned = False\<rparr>"

definition enqueue_step :: "nat option \<Rightarrow> rabbit_mq_data \<Rightarrow> send_queue \<Rightarrow> send_queue" where
  "enqueue_step pick d s = (case MQueue_Enqueue pick (Some d) (sq_queue s) of
     (None, q) \<Rightarrow> s\<lparr>sq_queue := q, sq_workers := map wake_worker (sq_workers s), sq_pushed := sq_pushed s @ [Some d]\<rparr>
   | (Some e, q) \<Rightarrow> s\<lparr>sq_queue := q\<rparr>)"

definition close_step :: "send_queue \<Rightarrow> send_queue" where
  "close_step s = s\<lparr>sq_queue := MQueue_Close (sq_queue s), sq_workers := map wake_worker (sq_workers s)\<rparr>"

text \<open>\<^verbatim>\<open>runhandleRabbitmqSendQueue\<close> has returned, so the channel is closed.\<close>

definition pool_done :: "send_pool \<Rightarrow> bool" where
  "pool_done p \<longleftrightarrow> (\<forall>s \<in> set (sp_queues p). list_all (\<lambda>w. \<exists>e. w = FRet e) (sq_workers s))"

inductive pool_work :: "(message \<Rightarrow> bool) \<Rightarrow> send_pool \<Rightarrow> send_pool \<Rightarrow> bool" for push where
  worker: "i < length (sp_queues p) \<Longrightarrow> send_work push (sp_queues p ! i) s \<Longrightarrow>
    pool_work push p (p\<lparr>sp_queues := (sp_queues p)[i := s]\<rparr>)"

inductive pool_env :: "send_pool \<Rightarrow> send_pool \<Rightarrow> bool" where
  push: "c = sp_counter p + 1 \<Longrightarrow> i = unat (c mod of_nat RabbitmqSendQueueSlicesShareSize) \<Longrightarrow> i < length (sp_queues p) \<Longrightarrow>
    pool_env p (p\<lparr>sp_counter := c, sp_queues := (sp_queues p)[i := enqueue_step pick d (sp_queues p ! i)]\<rparr>)"
| call_close: "sp_closed p = None \<Longrightarrow> pool_env p (p\<lparr>sp_closed := Some 0\<rparr>)"
| close_next: "sp_closed p = Some i \<Longrightarrow> i < RabbitmqSendQueueSlicesShareSize \<Longrightarrow> i < length (sp_queues p) \<Longrightarrow>
    pool_env p (p\<lparr>sp_closed := Some (Suc i), sp_queues := (sp_queues p)[i := close_step (sp_queues p ! i)]\<rparr>)"
| returns: "sp_closed p = Some RabbitmqSendQueueSlicesShareSize \<Longrightarrow> pool_done p \<Longrightarrow> pool_env p (p\<lparr>sp_returned := True\<rparr>)"

inductive_cases pool_workE: "pool_work push p p'"

definition pool_step :: "(message \<Rightarrow> bool) \<Rightarrow> send_pool \<Rightarrow> send_pool \<Rightarrow> bool" where
  "pool_step push p p' \<longleftrightarrow> pool_work push p p' \<or> pool_env p p'"

subsection \<open>Invariant\<close>

definition pool_inv :: "send_pool \<Rightarrow> bool" where
  "pool_inv p \<longleftrightarrow> length (sp_queues p) = 8 \<and> (\<forall>s \<in> set (sp_queues p). send_inv s \<and> length (sq_workers s) = 4) \<and>
     (\<forall>n. sp_closed p = Some n \<longrightarrow> n \<le> 8 \<and> (\<forall>j < n. \<not> q_status (sq_queue (sp_queues p ! j)))) \<and>
     (sp_returned p \<longrightarrow> sp_closed p = Some 8 \<and> pool_done p)"

lemma enqueue_step_env: "send_env s (enqueue_step pick d s)"
  by (auto simp: enqueue_step_def intro: send_env.intros split: prod.split option.split)

lemma close_step_env: "send_env s (close_step s)"
  unfolding close_step_def by (rule send_env.close)

lemma send_step_kept:
  "send_work push s s' \<Longrightarrow> length (sq_workers s') = length (sq_workers s)"
  "send_env s s' \<Longrightarrow> length (sq_workers s') = length (sq_workers s)"
  by (auto elim!: send_work.cases send_env.cases)

lemma env_closed:
  "send_env s s' \<Longrightarrow> send_inv s \<Longrightarrow> \<not> q_status (sq_queue s) \<Longrightarrow> \<not> q_status (sq_queue s')"
proof (induction rule: send_env.induct)
  case (accept pick d s q)
  then show ?case using MQueue_Enqueue_cases [of "sq_queue s" pick d None q] by (auto simp: send_inv_def)
next
  case (refuse pick d s e q)
  then show ?case using MQueue_Enqueue_cases [of "sq_queue s" pick d "Some e" q] by (auto simp: send_inv_def)
next
  case (close s)
  then show ?case using mq_close [of "sq_queue s"] by simp
qed

lemma enqueue_closed: "send_inv s \<Longrightarrow> \<not> q_status (sq_queue s) \<Longrightarrow> enqueue_step pick d s = s"
  using MQueue_Enqueue_cases [of "sq_queue s" pick "Some d"]
  by (auto simp: enqueue_step_def send_inv_def split: prod.split option.split)

lemma pool_start_inv: "pool_inv start_pool"
  using start_workers_inv
  by (simp add: pool_inv_def start_pool_def RabbitmqSendQueueSlicesShareSize_def start_workers_def
      RabbitmqSendQueueSlicesHandlerCount_def)

lemma pool_update:
  assumes "pool_inv p" and "i < 8" and "send_inv s" and "length (sq_workers s) = 4"
    and "\<not> q_status (sq_queue (sp_queues p ! i)) \<Longrightarrow> \<not> q_status (sq_queue s)"
    and "sp_returned p \<Longrightarrow> s = sp_queues p ! i"
  shows "pool_inv (p\<lparr>sp_queues := (sp_queues p)[i := s]\<rparr>)"
proof -
  have l: "length (sp_queues p) = 8" using assms(1) by (simp add: pool_inv_def)
  have "x \<in> set ((sp_queues p)[i := s]) \<Longrightarrow> x = s \<or> x \<in> set (sp_queues p)" for x
    by (auto dest: set_update_subset_insert [THEN subsetD])
  moreover have "(sp_queues p)[i := s] = sp_queues p" if "sp_returned p"
    using assms(6) [OF that] by simp
  ultimately show ?thesis
    using assms(1-5) l unfolding pool_inv_def pool_done_def by (auto simp: nth_list_update)
qed

lemma pool_queue:
  assumes "pool_inv p" and "i < 8"
  shows "send_inv (sp_queues p ! i)" and "length (sq_workers (sp_queues p ! i)) = 4"
    and "sp_closed p = Some 8 \<Longrightarrow> \<not> q_status (sq_queue (sp_queues p ! i))"
  using assms by (auto simp: pool_inv_def)

lemma done_no_work:
  assumes "pool_done p" and "i < length (sp_queues p)"
  shows "\<not> send_work push (sp_queues p ! i) s"
proof
  assume "send_work push (sp_queues p ! i) s"
  then obtain j where "j < length (sq_workers (sp_queues p ! i))" "active (sq_workers (sp_queues p ! i) ! j)"
    by (cases rule: send_work.cases) auto
  with assms have "\<exists>e. sq_workers (sp_queues p ! i) ! j = FRet e" by (simp add: pool_done_def list_all_length)
  with \<open>active (sq_workers (sp_queues p ! i) ! j)\<close> show False by (auto simp: active_def)
qed

lemma pool_work_inv:
  assumes "pool_work push p p'" and "pool_inv p"
  shows "pool_inv p'"
  using assms
proof (cases rule: pool_work.cases)
  case (worker i s)
  have i: "i < 8" using worker(2) assms(2) by (simp add: pool_inv_def)
  note q = pool_queue [OF assms(2) i]
  have "\<not> sp_returned p" using done_no_work [OF _ worker(2)] worker(3) assms(2) by (auto simp: pool_inv_def)
  with worker(3) q i send_work_inv [OF worker(3)] send_work_left [OF worker(3)] send_step_kept(1) [OF worker(3)]
  show ?thesis unfolding worker(1) by (intro pool_update [OF assms(2)]) auto
qed

lemma pool_env_inv:
  assumes "pool_env p p'" and "pool_inv p"
  shows "pool_inv p'"
  using assms
proof (cases rule: pool_env.cases)
  case (push c i pick d)
  have i: "i < 8" using push(4) assms(2) by (simp add: pool_inv_def)
  note q = pool_queue [OF assms(2) i] and e = enqueue_step_env [of "sp_queues p ! i" pick d]
  have "sp_returned p \<Longrightarrow> enqueue_step pick d (sp_queues p ! i) = sp_queues p ! i"
    using enqueue_closed [OF q(1)] q(3) assms(2) by (auto simp: pool_inv_def)
  then have "pool_inv (p\<lparr>sp_queues := (sp_queues p)[i := enqueue_step pick d (sp_queues p ! i)]\<rparr>)"
    using q i send_env_inv [OF e] env_closed [OF e] send_step_kept(2) [OF e]
    by (intro pool_update [OF assms(2)]) auto
  then show ?thesis unfolding push(1) by (simp add: pool_inv_def pool_done_def)
next
  case call_close
  with assms(2) show ?thesis by (auto simp: pool_inv_def)
next
  case (close_next i)
  have i: "i < 8" using close_next(3) by (simp add: RabbitmqSendQueueSlicesShareSize_def)
  note q = pool_queue [OF assms(2) i] and e = close_step_env [of "sp_queues p ! i"]
  have r: "\<not> sp_returned p" using close_next(2) i assms(2) by (auto simp: pool_inv_def)
  have c: "\<not> q_status (sq_queue (close_step (sp_queues p ! i)))" by (simp add: close_step_def mq_close)
  have "pool_inv (p\<lparr>sp_queues := (sp_queues p)[i := close_step (sp_queues p ! i)]\<rparr>)"
    using q i r c send_env_inv [OF e] send_step_kept(2) [OF e] by (intro pool_update [OF assms(2)]) auto
  with c r i close_next(2,4) show ?thesis unfolding close_next(1)
    by (auto simp: pool_inv_def less_Suc_eq nth_list_update)
next
  case returns
  with assms(2) show ?thesis by (auto simp: pool_inv_def pool_done_def RabbitmqSendQueueSlicesShareSize_def)
qed

lemma pool_reach_inv: "(pool_step push)\<^sup>*\<^sup>* start_pool p \<Longrightarrow> pool_inv p"
  by (induction rule: rtranclp_induct) (auto simp: pool_step_def pool_start_inv intro: pool_work_inv pool_env_inv)

subsection \<open>Shutting down\<close>

definition pool_left :: "send_pool \<Rightarrow> nat" where
  "pool_left p = sum_list (map send_left (sp_queues p))"

lemma pool_work_left:
  assumes "pool_work push p p'" and "pool_inv p" and "sp_closed p = Some 8"
  shows "pool_left p' < pool_left p \<and> sp_closed p' = Some 8"
  using assms(1)
proof (cases rule: pool_work.cases)
  case (worker i s)
  have i: "i < 8" using worker(2) assms(2) by (simp add: pool_inv_def)
  note q = pool_queue [OF assms(2) i]
  from send_work_left [OF worker(3) q(1) q(3) [OF assms(3)]] sum_list_map_update [OF worker(2), of send_left s] assms(3)
  show ?thesis unfolding worker(1) by (simp add: pool_left_def)
qed

lemma pool_env_left:
  assumes "pool_env p p'" and "pool_inv p" and "sp_closed p = Some 8"
  shows "sp_queues p' = sp_queues p \<and> sp_closed p' = Some 8"
  using assms(1)
proof (cases rule: pool_env.cases)
  case (push c i pick d)
  have i: "i < 8" using push(4) assms(2) by (simp add: pool_inv_def)
  with enqueue_closed [OF pool_queue(1,3) [OF assms(2) i]] assms(3) show ?thesis unfolding push(1) by simp
qed (use assms(3) in \<open>auto simp: RabbitmqSendQueueSlicesShareSize_def\<close>)

lemma pool_envs_left:
  assumes "pool_env\<^sup>*\<^sup>* p p'" and "pool_inv p" and "sp_closed p = Some 8"
  shows "pool_inv p' \<and> pool_left p' = pool_left p \<and> sp_closed p' = Some 8"
  using assms
proof (induction rule: rtranclp_induct)
  case (step y z)
  then show ?case using pool_env_left [OF step.hyps(2)] pool_env_inv [OF step.hyps(2)] by (auto simp: pool_left_def)
qed simp

lemma pool_run_left:
  assumes "((pool_env\<^sup>*\<^sup>* OO pool_work push) ^^ k) p p'" and "pool_inv p" and "sp_closed p = Some 8"
  shows "pool_left p' + k \<le> pool_left p \<and> pool_inv p' \<and> sp_closed p' = Some 8"
  using assms(1)
proof (induction k arbitrary: p')
  case 0
  with assms(2,3) show ?case by simp
next
  case (Suc k)
  then obtain y z where y: "((pool_env\<^sup>*\<^sup>* OO pool_work push) ^^ k) p y" "pool_env\<^sup>*\<^sup>* y z" "pool_work push z p'" by auto
  from Suc.IH [OF y(1)] have "pool_left y + k \<le> pool_left p" "pool_inv y" "sp_closed y = Some 8" by auto
  with pool_envs_left [OF y(2)] pool_work_left [OF y(3)] pool_work_inv [OF y(3)] show ?case by auto
qed

lemma idle_done:
  assumes "pool_inv p" and "sp_closed p = Some 8" and "\<nexists>p'. pool_work push p p'"
  shows "pool_done p"
proof -
  have "\<exists>e. w = FRet e" if s: "s \<in> set (sp_queues p)" "w \<in> set (sq_workers s)" for s w
  proof -
    obtain i where i: "i < length (sp_queues p)" "s = sp_queues p ! i" using s(1) by (auto simp: in_set_conv_nth)
    then have q: "send_inv s" "\<not> q_status (sq_queue s)"
      using pool_queue [OF assms(1), of i] assms(1,2) by (auto simp: pool_inv_def)
    have "\<not> active w" using work_enabled [OF s(2)] pool_work.worker [OF i(1)] assms(3) i(2) by blast
    with q s(2) show ?thesis by (cases w) (auto simp: active_def send_inv_def)
  qed
  then show ?thesis by (auto simp: pool_done_def list_all_iff)
qed

lemma done_drained:
  assumes "pool_inv p" and "pool_done p" and "s \<in> set (sp_queues p)"
  shows "sq_sent s = sq_pushed s"
proof -
  have s: "send_inv s" "length (sq_workers s) = 4" using assms(1,3) by (auto simp: pool_inv_def)
  then have w: "sq_workers s ! 0 \<in> set (sq_workers s)" by simp
  then obtain e where "sq_workers s ! 0 = FRet e" using assms(2,3) by (auto simp: pool_done_def list_all_iff)
  with w s(1) have "q_items (sq_queue s) = []" unfolding send_inv_def by metis
  with s(1) show ?thesis by (simp add: send_inv_def)
qed

lemma done_closed:
  assumes "pool_inv q" and "pool_done q" and "sp_closed q = Some 8" and "s \<in> set (sp_queues q)"
  shows "\<not> q_status (sq_queue s)" and "q_items (sq_queue s) = []" and "sq_sent s = sq_pushed s"
proof -
  obtain i where i: "i < 8" "s = sp_queues q ! i" using assms(1,4) by (auto simp: in_set_conv_nth pool_inv_def)
  with pool_queue [OF assms(1) i(1)] assms(3) show "\<not> q_status (sq_queue s)" by simp
  show sent: "sq_sent s = sq_pushed s" using done_drained [OF assms(1,2,4)] .
  have "send_inv s" using assms(1,4) by (simp add: pool_inv_def)
  with sent show "q_items (sq_queue s) = []" by (simp add: send_inv_def)
qed


lemma close_all:
  assumes "pool_inv p" and "sp_closed p = Some n"
  shows "\<exists>p'. pool_env\<^sup>*\<^sup>* p p' \<and> sp_closed p' = Some 8 \<and> map sq_pushed (sp_queues p') = map sq_pushed (sp_queues p)"
  using assms
proof (induction "8 - n" arbitrary: p n)
  case 0
  then have "n = 8" by (auto simp: pool_inv_def)
  with 0 show ?case by blast
next
  case (Suc m)
  let ?p = "p\<lparr>sp_closed := Some (Suc n), sp_queues := (sp_queues p)[n := close_step (sp_queues p ! n)]\<rparr>"
  have n: "n < length (sp_queues p)" using Suc.hyps(2) Suc.prems(1) by (simp add: pool_inv_def)
  then have e: "pool_env p ?p"
    using Suc.hyps(2) Suc.prems(2) by (intro pool_env.close_next) (auto simp: RabbitmqSendQueueSlicesShareSize_def)
  have m: "m = 8 - Suc n" using Suc.hyps(2) by simp
  from Suc.hyps(1) [OF m pool_env_inv [OF e Suc.prems(1)]] obtain p' where
    p': "pool_env\<^sup>*\<^sup>* ?p p'" "sp_closed p' = Some 8" "map sq_pushed (sp_queues p') = map sq_pushed (sp_queues ?p)" by auto
  have "sq_pushed (close_step (sp_queues p ! n)) = sq_pushed (sp_queues p ! n)" by (simp add: close_step_def)
  then have "map sq_pushed (sp_queues ?p) = map sq_pushed (sp_queues p)"
    using n by (auto simp: list_eq_iff_nth_eq nth_list_update)
  with p' e show ?case by (metis converse_rtranclp_into_rtranclp)
qed

lemma work_all:
  assumes "pool_inv p" and "sp_closed p = Some 8"
  shows "\<exists>p'. (pool_work push)\<^sup>*\<^sup>* p p' \<and> (\<nexists>p''. pool_work push p' p'') \<and> pool_inv p' \<and> sp_closed p' = Some 8 \<and>
    map sq_pushed (sp_queues p') = map sq_pushed (sp_queues p)"
  using assms
proof (induction "pool_left p" arbitrary: p rule: less_induct)
  case less
  show ?case
  proof (cases "\<exists>y. pool_work push p y")
    case True
    then obtain y where y: "pool_work push p y" by blast
    from pool_work_left [OF y less.prems] pool_work_inv [OF y less.prems(1)]
    have l: "pool_left y < pool_left p" "pool_inv y" "sp_closed y = Some 8" by auto
    from y have "map sq_pushed (sp_queues y) = map sq_pushed (sp_queues p)"
    proof (cases rule: pool_work.cases)
      case (worker i s)
      then show ?thesis
        by (auto simp: list_eq_iff_nth_eq nth_list_update elim!: send_work.cases)
    qed
    with less.hyps [OF l] y show ?thesis by (metis converse_rtranclp_into_rtranclp)
  next
    case False
    with less.prems show ?thesis by blast
  qed
qed

lemma pool_steps:
  "pool_env\<^sup>*\<^sup>* p p' \<Longrightarrow> (pool_step push)\<^sup>*\<^sup>* p p'" "(pool_work push)\<^sup>*\<^sup>* p p' \<Longrightarrow> (pool_step push)\<^sup>*\<^sup>* p p'"
  by (erule rtranclp_mono [THEN predicate2D, rotated], auto simp: pool_step_def)+

lemma pool_finishes:
  assumes "pool_inv q"
  shows "\<exists>q1 q2 q3. pool_env\<^sup>*\<^sup>* q q1 \<and> (pool_work push)\<^sup>*\<^sup>* q1 q2 \<and> pool_env\<^sup>*\<^sup>* q2 q3 \<and> sp_returned q3 \<and>
    map sq_pushed (sp_queues q3) = map sq_pushed (sp_queues q)"
proof -
  obtain q0 n where q0: "pool_env\<^sup>*\<^sup>* q q0" "pool_inv q0" "sp_closed q0 = Some n" "sp_queues q0 = sp_queues q"
  proof (cases "sp_closed q")
    case None
    have e: "pool_env q (q\<lparr>sp_closed := Some 0\<rparr>)" using None by (rule pool_env.call_close)
    show thesis by (rule that [OF _ pool_env_inv [OF e assms]]) (simp_all add: e r_into_rtranclp [of pool_env])
  next
    case (Some n)
    with assms that [of q n] show thesis by simp
  qed
  obtain q1 where q1: "pool_env\<^sup>*\<^sup>* q0 q1" "sp_closed q1 = Some 8" "map sq_pushed (sp_queues q1) = map sq_pushed (sp_queues q)"
    using close_all [OF q0(2,3)] q0(4) by auto
  have "pool_inv q1" using q1(1) q0(2) by (induction rule: rtranclp_induct) (auto intro: pool_env_inv)
  with q1(2) obtain q2 where q2: "(pool_work push)\<^sup>*\<^sup>* q1 q2" "\<nexists>q. pool_work push q2 q" "pool_inv q2" "sp_closed q2 = Some 8"
      "map sq_pushed (sp_queues q2) = map sq_pushed (sp_queues q1)"
    using work_all [of q1 push] by blast
  have "pool_env q2 (q2\<lparr>sp_returned := True\<rparr>)"
    using q2(4) idle_done [OF q2(3,4,2)] by (intro pool_env.returns) (simp_all add: RabbitmqSendQueueSlicesShareSize_def)
  then have "pool_env\<^sup>*\<^sup>* q2 (q2\<lparr>sp_returned := True\<rparr>)" by blast
  moreover have "pool_env\<^sup>*\<^sup>* q q1" using q0(1) q1(1) by (rule rtranclp_trans)
  ultimately show ?thesis using q1(3) q2(1,5) by (intro exI [of _ q1] exI [of _ q2] exI [of _ "q2\<lparr>sp_returned := True\<rparr>"]) simp
qed

lemma demo_pushed:
  "\<exists>q. pool_env start_pool q \<and> sp_closed q = sp_closed start_pool \<and> sp_returned q = sp_returned start_pool \<and>
     [Some demo_message] \<in> set (map sq_pushed (sp_queues q))"
proof -
  let ?q = "start_pool\<lparr>sp_counter := 1, sp_queues := (sp_queues start_pool)[1 := enqueue_step None demo_message start_workers]\<rparr>"
  have "pool_env start_pool ?q"
    using pool_env.push [of 1 start_pool 1 None demo_message] by (simp add: start_pool_def RabbitmqSendQueueSlicesShareSize_def)
  moreover have "[Some demo_message] \<in> set (map sq_pushed (sp_queues ?q))"
    by (auto simp: start_pool_def RabbitmqSendQueueSlicesShareSize_def enqueue_step_def start_workers_def numeral_eq_Suc
        MQueue_Enqueue_def NewMQueue_def Let_def split: prod.splits option.splits)
  ultimately show ?thesis by (intro exI [of _ ?q]) simp
qed


end
