(* ===== verification/HelloFormat.thy ===== *)
theory HelloFormat
  imports ClientHello
begin

text \<open>
  The converse of the round trip of \<^verbatim>\<open>server/sniffing/tls/client_hello.go\<close>: whatever the parser accepts is a
  message of the format. Each loop accepts only a sequence of its entries, each extension only the
  encoding of a value of \<open>ext\<close> that meets its conditions, and the whole parser only an encoded
  message; what it then returns follows from the round trip.
\<close>

subsection \<open>The loops\<close>

lemma loop_accepts:
  assumes "snd (L n s m) = None" and "\<And>s m. snd (L 0 s m) \<noteq> None"
    and "\<And>n s m. snd (L (Suc n) s m) = None \<Longrightarrow> s = [] \<or>
      (\<exists>x s' m'. s = f x @ s' \<and> P x \<and> snd (L n s' m') = None)"
  shows "\<exists>xs. s = concat (map f xs) \<and> (\<forall>x \<in> set xs. P x)"
  using assms(1)
proof (induction n arbitrary: s m)
  case 0
  with assms(2) show ?case by blast
next
  case (Suc n)
  from assms(3) [OF Suc.prems] show ?case
  proof (elim disjE exE conjE)
    assume "s = []"
    then show ?case by (intro exI [of _ "[]"]) simp
  next
    fix x s' m' assume x: "s = f x @ s'" "P x" "snd (L n s' m') = None"
    from Suc.IH [OF x(3)] obtain xs where "s' = concat (map f xs)" "\<forall>x \<in> set xs. P x" by blast
    with x(1,2) show ?case by (intro exI [of _ "x # xs"]) simp
  qed
qed

context cryptobyte begin

lemma u16_loop_accepts:
  assumes "snd (u16_loop cb err n s acc) = None"
  shows "\<exists>vs. s = concat (map enc16 vs)"
proof -
  have "\<exists>vs. s = concat (map enc16 vs) \<and> (\<forall>v \<in> set vs. True)"
    by (rule loop_accepts [where L = "u16_loop cb err", OF assms])
      (auto simp: ReadUint16_law split: if_splits option.splits prod.splits)
  then show ?thesis by simp
qed

lemma suites_loop_accepts:
  assumes "snd (suites_loop cb n s m) = None"
  shows "\<exists>vs. s = concat (map enc16 vs)"
proof -
  have "\<exists>vs. s = concat (map enc16 vs) \<and> (\<forall>v \<in> set vs. True)"
    by (rule loop_accepts [where L = "suites_loop cb", OF assms])
      (auto simp: ReadUint16_law Let_def split: if_splits option.splits prod.splits)
  then show ?thesis by simp
qed

lemma alpn_loop_accepts:
  assumes "snd (alpn_loop cb n s m) = None"
  shows "\<exists>ps. s = concat (map (\<lambda>p. prefixed8 (bytes_of p)) ps) \<and> (\<forall>p \<in> set ps. p \<noteq> '''' \<and> length p < 256)"
proof (rule loop_accepts [where L = "alpn_loop cb", OF assms])
  fix n s m assume "snd (alpn_loop cb (Suc n) s m) = None"
  then consider "s = []" | d s' m' where "s = prefixed8 d @ s'" "d \<noteq> []" "length d < 256" "snd (alpn_loop cb n s' m') = None"
    by (auto simp: Read8_law split: if_splits option.splits prod.splits)
  then show "s = [] \<or> (\<exists>p s' m'. s = prefixed8 (bytes_of p) @ s' \<and> (p \<noteq> '''' \<and> length p < 256) \<and>
      snd (alpn_loop cb n s' m') = None)"
    by cases (simp, metis bytes_of_Nil_iff bytes_of_string_of length_string_of)
qed simp

lemma binders_loop_accepts:
  assumes "snd (binders_loop cb n s m) = None"
  shows "\<exists>bs. s = concat (map prefixed8 bs) \<and> (\<forall>b \<in> set bs. b \<noteq> [] \<and> length b < 256)"
  by (rule loop_accepts [where L = "binders_loop cb", OF assms])
    (auto simp: Read8_law Let_def split: if_splits option.splits prod.splits)

lemma shares_loop_accepts:
  assumes "snd (shares_loop cb n s m) = None"
  shows "\<exists>ks :: keyShare list. s = concat (map (\<lambda>k. enc16 (group k) @ prefixed16 (data k)) ks) \<and> (\<forall>k \<in> set ks. data k \<noteq> [])"
proof (rule loop_accepts [where L = "shares_loop cb", OF assms])
  fix n s m assume "snd (shares_loop cb (Suc n) s m) = None"
  then consider "s = []" | g d s' m' where "s = enc16 g @ prefixed16 d @ s'" "d \<noteq> []" "snd (shares_loop cb n s' m') = None"
    by (auto simp: ReadUint16_law Read16_law Let_def split: if_splits option.splits prod.splits)
  then show "s = [] \<or> (\<exists>k s' m'. s = (enc16 (group k) @ prefixed16 (data k)) @ s' \<and> data k \<noteq> [] \<and>
      snd (shares_loop cb n s' m') = None)"
    by cases (simp, metis append_assoc keyShare.select_convs)
qed simp

lemma identities_loop_accepts:
  assumes "snd (identities_loop cb n s m) = None"
  shows "\<exists>ps :: pskIdentity list. s = concat (map (\<lambda>p. prefixed16 (label p) @ enc32 (obfuscatedTicketAge p)) ps) \<and>
    (\<forall>p \<in> set ps. label p \<noteq> [])"
proof (rule loop_accepts [where L = "identities_loop cb", OF assms])
  fix n s m assume "snd (identities_loop cb (Suc n) s m) = None"
  then consider "s = []" | l a s' m' where "s = prefixed16 l @ enc32 a @ s'" "l \<noteq> []" "snd (identities_loop cb n s' m') = None"
    by (auto simp: ReadUint32_law Read16_law Let_def split: if_splits option.splits prod.splits)
  then show "s = [] \<or> (\<exists>p s' m'. s = (prefixed16 (label p) @ enc32 (obfuscatedTicketAge p)) @ s' \<and> label p \<noteq> [] \<and>
      snd (identities_loop cb n s' m') = None)"
    by cases (simp, metis append_assoc pskIdentity.select_convs)
qed simp

lemma string_of_Nil_iff [simp]: "string_of bs = [] \<longleftrightarrow> bs = []"
  by (simp add: string_of_def)

lemma names_loop_accepts:
  assumes "snd (names_loop cb n s m) = None"
  shows "\<exists>ns. s = concat (map (\<lambda>(t, x). t # prefixed16 (bytes_of x)) ns) \<and> (\<forall>(t, x) \<in> set ns. x \<noteq> '''') \<and>
    length (host_names ns) \<le> (if ServerName m = '''' then 1 else 0) \<and>
    (\<forall>x \<in> set (host_names ns). last x \<noteq> CHR ''.'')"
  using assms
proof (induction n arbitrary: s m)
  case (Suc n)
  then consider "s = []"
    | t d s' where "s = t # prefixed16 d @ s'" "d \<noteq> []" "t \<noteq> 0" "snd (names_loop cb n s' m) = None"
    | d s' where "s = 0 # prefixed16 d @ s'" "d \<noteq> []" "ServerName m = ''''" "last (string_of d) \<noteq> CHR ''.''"
      "snd (names_loop cb n s' (m\<lparr>ServerName := string_of d\<rparr>)) = None"
    by (auto simp: ReadUint8_law Read16_law Let_def split: if_splits option.splits prod.splits)
  then show ?case
  proof cases
    case 1
    then show ?thesis by (intro exI [of _ "[]"]) (simp add: host_names_def)
  next
    case (2 t d s')
    from Suc.IH [OF 2(4)] obtain ns where "s' = concat (map (\<lambda>(t, x). t # prefixed16 (bytes_of x)) ns)"
      "\<forall>(t, x) \<in> set ns. x \<noteq> ''''" "length (host_names ns) \<le> (if ServerName m = '''' then 1 else 0)"
      "\<forall>x \<in> set (host_names ns). last x \<noteq> CHR ''.''" by blast
    with 2 show ?thesis by (intro exI [of _ "(t, string_of d) # ns"]) (auto simp: host_names_def)
  next
    case (3 d s')
    have "string_of d \<noteq> ''''" using 3(2) by simp
    with Suc.IH [OF 3(5)] obtain ns where "s' = concat (map (\<lambda>(t, x). t # prefixed16 (bytes_of x)) ns)"
      "\<forall>(t, x) \<in> set ns. x \<noteq> ''''" "host_names ns = []" by auto
    with 3 \<open>string_of d \<noteq> ''''\<close> show ?thesis
      by (intro exI [of _ "(0, string_of d) # ns"]) (simp add: host_names_def)
  qed
qed simp

lemmas accepted = arg_cong [where f = snd, of _ "(x, None)" for x, simplified]

lemmas loop_accepted = u16_loop_accepts [OF accepted] alpn_loop_accepts [OF accepted] shares_loop_accepts [OF accepted]
  identities_loop_accepts [OF accepted] binders_loop_accepts [OF accepted] names_loop_accepts [OF accepted]
  suites_loop_accepts [OF accepted]

text \<open>One extension: what is read to its end is the body of an extension of that number.\<close>

lemma ext_loops_accept:
  "ext_SupportedCurves cb d m = ExtRead m' [] \<Longrightarrow> \<exists>vs. d = ext_body (CurvesExt vs) \<and> vs \<noteq> []"
  "ext_SignatureAlgorithms cb d m = ExtRead m' [] \<Longrightarrow> \<exists>vs. d = ext_body (SigAlgsExt vs) \<and> vs \<noteq> []"
  "ext_SignatureAlgorithmsCert cb d m = ExtRead m' [] \<Longrightarrow> \<exists>vs. d = ext_body (SigAlgsCertExt vs) \<and> vs \<noteq> []"
  "ext_SupportedVersions cb d m = ExtRead m' [] \<Longrightarrow> \<exists>vs. d = ext_body (VersionsExt vs) \<and> vs \<noteq> [] \<and> length vs < 128"
  "ext_ALPN cb d m = ExtRead m' [] \<Longrightarrow> \<exists>ps. d = ext_body (ALPNExt ps) \<and> ext_ok (ALPNExt ps)"
  "ext_KeyShare cb d m = ExtRead m' [] \<Longrightarrow> \<exists>ks. d = ext_body (KeyShareExt ks) \<and> ext_ok (KeyShareExt ks)"
  by (auto simp: ext_SupportedCurves_def ext_SignatureAlgorithms_def ext_SignatureAlgorithmsCert_def ext_SupportedVersions_def
      ext_ALPN_def ext_KeyShare_def Let_def Read16_law Read8_law split: option.splits prod.splits if_splits
      dest!: loop_accepted
      simp del: u16_loop.simps alpn_loop.simps shares_loop.simps)

end

context cryptobyte begin

lemma ext_ServerName_accepts:
  assumes "ext_ServerName cb d m = ExtRead m' []" and "ServerName m = ''''"
  shows "\<exists>ns. d = ext_body (ServerNameExt ns) \<and> ext_ok (ServerNameExt ns)"
proof -
  from assms(1) obtain s m1 where s: "d = prefixed16 s" "s \<noteq> []" "names_loop cb (Suc (length s)) s m = (m1, None)"
    by (auto simp: ext_ServerName_def Read16_law split: option.splits prod.splits if_splits simp del: names_loop.simps)
  from loop_accepted(6) [OF s(3)] assms(2) obtain ns where
    ns: "s = concat (map (\<lambda>(t, x). t # prefixed16 (bytes_of x)) ns)" "\<forall>(t, x) \<in> set ns. x \<noteq> ''''"
    "length (host_names ns) \<le> 1" "\<forall>x \<in> set (host_names ns). last x \<noteq> CHR ''.''" by auto
  with s(1,2) show ?thesis by (intro exI [of _ ns]) auto
qed

lemma ext_PreSharedKey_accepts:
  assumes "ext_PreSharedKey cb exts d m = ExtRead m' []"
  shows "exts = [] \<and> (\<exists>ids bs. d = ext_body (PSKExt ids bs) \<and> ext_ok (PSKExt ids bs))"
proof -
  from assms obtain i b m1 m2 where i: "exts = []" "d = prefixed16 i @ prefixed16 b" "i \<noteq> []" "b \<noteq> []"
    "identities_loop cb (Suc (length i)) i m = (m1, None)" "binders_loop cb (Suc (length b)) b m1 = (m2, None)"
    by (auto simp: ext_PreSharedKey_def Read16_law Let_def split: option.splits prod.splits if_splits
        simp del: identities_loop.simps binders_loop.simps)
  from loop_accepted(4) [OF i(5)] obtain ids :: "pskIdentity list" where
    ids: "i = concat (map (\<lambda>p. prefixed16 (label p) @ enc32 (obfuscatedTicketAge p)) ids)" "\<forall>p \<in> set ids. label p \<noteq> []"
    by (elim exE conjE)
  from loop_accepted(5) [OF i(6)] obtain bs where
    "b = concat (map prefixed8 bs)" "\<forall>b \<in> set bs. b \<noteq> [] \<and> length b < 256" by (elim exE conjE)
  with ids i(2-4) have "d = ext_body (PSKExt ids bs) \<and> ext_ok (PSKExt ids bs)" by auto
  with i(1) show ?thesis by blast
qed

lemma ext_reads_accept:
  "ext_StatusRequest cb d m = ExtRead m' [] \<Longrightarrow> \<exists>t a b. d = ext_body (StatusRequestExt t a b)"
  "ext_SupportedPoints cb d m = ExtRead m' [] \<Longrightarrow> \<exists>ps. d = ext_body (PointsExt ps) \<and> ext_ok (PointsExt ps)"
  "ext_RenegotiationInfo cb d m = ExtRead m' [] \<Longrightarrow> \<exists>r. d = ext_body (RenegotiationExt r) \<and> ext_ok (RenegotiationExt r)"
  "ext_Cookie cb d m = ExtRead m' [] \<Longrightarrow> \<exists>c. d = ext_body (CookieExt c) \<and> ext_ok (CookieExt c)"
  "ext_PSKModes cb d m = ExtRead m' [] \<Longrightarrow> \<exists>c. d = ext_body (PSKModesExt c) \<and> ext_ok (PSKModesExt c)"
  by (auto simp: ext_StatusRequest_def ext_SupportedPoints_def ext_RenegotiationInfo_def ext_Cookie_def ext_PSKModes_def
      Let_def Read16_law Read8_law ReadUint8_law split: option.splits prod.splits if_splits)

end

definition is_ext :: "16 word \<Rightarrow> bytes \<Rightarrow> bool" where
  "is_ext x d \<longleftrightarrow> (\<exists>e. ext_id e = x \<and> ext_body e = d \<and> ext_ok e)"

lemma is_extI [intro]:
  "ext_ok (ServerNameExt ns) \<Longrightarrow> is_ext 0 (ext_body (ServerNameExt ns))"
  "is_ext 5 (ext_body (StatusRequestExt t a b))"
  "vs \<noteq> [] \<Longrightarrow> is_ext 10 (ext_body (CurvesExt vs))"
  "ext_ok (PointsExt d) \<Longrightarrow> is_ext 11 (ext_body (PointsExt d))"
  "vs \<noteq> [] \<Longrightarrow> is_ext 13 (ext_body (SigAlgsExt vs))"
  "vs \<noteq> [] \<Longrightarrow> is_ext 50 (ext_body (SigAlgsCertExt vs))"
  "ext_ok (RenegotiationExt d) \<Longrightarrow> is_ext 0xff01 (ext_body (RenegotiationExt d))"
  "ext_ok (ALPNExt ps) \<Longrightarrow> is_ext 16 (ext_body (ALPNExt ps))"
  "vs \<noteq> [] \<Longrightarrow> length vs < 128 \<Longrightarrow> is_ext 43 (ext_body (VersionsExt vs))"
  "ext_ok (CookieExt d) \<Longrightarrow> is_ext 44 (ext_body (CookieExt d))"
  "ext_ok (KeyShareExt ks) \<Longrightarrow> is_ext 51 (ext_body (KeyShareExt ks))"
  "ext_ok (PSKModesExt d) \<Longrightarrow> is_ext 45 (ext_body (PSKModesExt d))"
  "ext_ok (PSKExt ids bs) \<Longrightarrow> is_ext 41 (ext_body (PSKExt ids bs))"
  unfolding is_ext_def by (metis ext_id.simps ext_ok.simps)+

lemma is_ext_flag: "is_ext 23 []" "is_ext 18 []" "is_ext 42 []" "is_ext 35 d" "is_ext 57 d"
  unfolding is_ext_def using ext_id.simps ext_body.simps ext_ok.simps by metis+

lemma ext_continue:
  "ext_ServerName cb d m \<noteq> ExtContinue m'" "ext_StatusRequest cb d m \<noteq> ExtContinue m'"
  "ext_SupportedCurves cb d m \<noteq> ExtContinue m'" "ext_SupportedPoints cb d m \<noteq> ExtContinue m'"
  "ext_SessionTicket cb d m \<noteq> ExtContinue m'" "ext_SignatureAlgorithms cb d m \<noteq> ExtContinue m'"
  "ext_SignatureAlgorithmsCert cb d m \<noteq> ExtContinue m'" "ext_RenegotiationInfo cb d m \<noteq> ExtContinue m'"
  "ext_ALPN cb d m \<noteq> ExtContinue m'" "ext_SupportedVersions cb d m \<noteq> ExtContinue m'"
  "ext_Cookie cb d m \<noteq> ExtContinue m'" "ext_KeyShare cb d m \<noteq> ExtContinue m'"
  "ext_PSKModes cb d m \<noteq> ExtContinue m'" "ext_QUICTransportParameters cb d m \<noteq> ExtContinue m'"
  "ext_PreSharedKey cb exts d m \<noteq> ExtContinue m'"
  by (simp_all add: ext_ServerName_def ext_StatusRequest_def ext_SupportedCurves_def ext_SupportedPoints_def
      ext_SessionTicket_def ext_SignatureAlgorithms_def ext_SignatureAlgorithmsCert_def ext_RenegotiationInfo_def
      ext_ALPN_def ext_SupportedVersions_def ext_Cookie_def ext_KeyShare_def ext_PSKModes_def
      ext_QUICTransportParameters_def ext_PreSharedKey_def Let_def split: option.split prod.split)

lemma handle_ext_continue:
  "handle_ext cb x exts d m = ExtContinue m' \<Longrightarrow> is_ext x d \<and> x \<noteq> 0 \<and> x \<noteq> 41"
  unfolding is_ext_def handle_ext_def extension_ids
  by (rule conjI, rule exI [of _ "UnknownExt x d"])
    (auto simp: ext_continue known_ids_def split: if_splits)

context cryptobyte begin

lemma accepted_is_ext:
  "ext_ServerName cb d m = ExtRead m' [] \<Longrightarrow> ServerName m = '''' \<Longrightarrow> is_ext 0 d"
  "ext_StatusRequest cb d m = ExtRead m' [] \<Longrightarrow> is_ext 5 d"
  "ext_SupportedCurves cb d m = ExtRead m' [] \<Longrightarrow> is_ext 10 d"
  "ext_SupportedPoints cb d m = ExtRead m' [] \<Longrightarrow> is_ext 11 d"
  "ext_SignatureAlgorithms cb d m = ExtRead m' [] \<Longrightarrow> is_ext 13 d"
  "ext_SignatureAlgorithmsCert cb d m = ExtRead m' [] \<Longrightarrow> is_ext 50 d"
  "ext_RenegotiationInfo cb d m = ExtRead m' [] \<Longrightarrow> is_ext 0xff01 d"
  "ext_ALPN cb d m = ExtRead m' [] \<Longrightarrow> is_ext 16 d"
  "ext_SupportedVersions cb d m = ExtRead m' [] \<Longrightarrow> is_ext 43 d"
  "ext_Cookie cb d m = ExtRead m' [] \<Longrightarrow> is_ext 44 d"
  "ext_KeyShare cb d m = ExtRead m' [] \<Longrightarrow> is_ext 51 d"
  "ext_PSKModes cb d m = ExtRead m' [] \<Longrightarrow> is_ext 45 d"
  "ext_PreSharedKey cb exts d m = ExtRead m' [] \<Longrightarrow> is_ext 41 d \<and> exts = []"
  by (auto simp del: ext_body.simps ext_ok.simps
      dest!: ext_ServerName_accepts ext_reads_accept ext_loops_accept ext_PreSharedKey_accepts)

lemma handle_ext_accepts:
  assumes "handle_ext cb x exts d m = ExtRead m' []" and "x = 0 \<Longrightarrow> ServerName m = ''''"
  shows "is_ext x d \<and> (x = 41 \<longrightarrow> exts = [])"
  using assms unfolding handle_ext_def extension_ids
  by (auto split: if_splits dest: accepted_is_ext simp: is_ext_flag)

end

subsection \<open>The message\<close>

context cryptobyte begin

lemma extensions_step:
  assumes "snd (extensions_loop cb (Suc n) s seen m) = None" and "0 \<notin> set seen \<longrightarrow> ServerName m = ''''"
  shows "s = [] \<or> (\<exists>e s'. s = encode_ext e @ s' \<and> ext_ok e \<and> ext_id e \<notin> set seen \<and> (ext_id e = 41 \<longrightarrow> s' = []) \<and>
    snd (extensions_loop cb n s' (ext_id e # seen) (ext_apply e m)) = None)"
proof (cases "s = []")
  case False
  with assms(1) obtain x d s' m1 where s: "s = enc16 x @ prefixed16 d @ s'" "length d < 65536" "x \<notin> set seen"
    "handle_ext cb x s' d m = ExtRead m1 [] \<or> handle_ext cb x s' d m = ExtContinue m1"
    "snd (extensions_loop cb n s' (x # seen) m1) = None"
    by (auto simp: ReadUint16_law Read16_law split: if_splits option.splits prod.splits ext_result.splits)
  have sn: "x = 0 \<Longrightarrow> ServerName m = ''''" using s(3) assms(2) by blast
  with s(4) handle_ext_accepts [of x s' d m m1] handle_ext_continue [of cb x s' d m m1]
  have "is_ext x d" and last: "x = 41 \<longrightarrow> s' = []" by auto
  then obtain e where e: "ext_id e = x" "ext_body e = d" "ext_ok e" by (auto simp: is_ext_def)
  have "m1 = ext_apply e m" using handle_ext_encode [of e s' m] s(2,4) e last sn by auto
  with s e last show ?thesis by (intro disjI2 exI [of _ e] exI [of _ s']) (simp add: encode_ext_def)
qed simp

lemma extensions_loop_accepts:
  assumes "snd (extensions_loop cb n s seen m) = None" and "0 \<notin> set seen \<longrightarrow> ServerName m = ''''"
  shows "\<exists>es. s = concat (map encode_ext es) \<and> distinct (map ext_id es) \<and> set seen \<inter> ext_id ` set es = {} \<and>
    (\<forall>e \<in> set es. ext_ok e) \<and> (\<forall>e \<in> set (butlast es). ext_id e \<noteq> 41)"
  using assms
proof (induction n arbitrary: s seen m)
  case (Suc n)
  from extensions_step [OF Suc.prems] show ?case
  proof (elim disjE exE conjE)
    assume "s = []"
    then show ?case by (intro exI [of _ "[]"]) simp
  next
    fix e s' assume e: "s = encode_ext e @ s'" "ext_ok e" "ext_id e \<notin> set seen" "ext_id e = 41 \<longrightarrow> s' = []"
      "snd (extensions_loop cb n s' (ext_id e # seen) (ext_apply e m)) = None"
    have "0 \<notin> set (ext_id e # seen) \<longrightarrow> ServerName (ext_apply e m) = ''''"
      using Suc.prems(2) ServerName_ext_apply [of e m] by auto
    from Suc.IH [OF e(5) this] obtain es where es: "s' = concat (map encode_ext es)" "distinct (map ext_id es)"
      "set (ext_id e # seen) \<inter> ext_id ` set es = {}" "\<forall>e \<in> set es. ext_ok e" "\<forall>e \<in> set (butlast es). ext_id e \<noteq> 41"
      by blast
    have "es = []" if "ext_id e = 41" using that e(4) es(1) by (cases es) (auto simp: encode_ext_def)
    with e(1-3) es show ?case by (intro exI [of _ "e # es"]) auto
  qed
qed simp

lemma header_accepts:
  assumes "unmarshal_header cb d = (m, Some s)"
  obtains hdr v r sid where "length hdr = 4" "d = hdr @ enc16 v @ r @ prefixed8 sid @ s" "length r = 32"
    "length sid < 256" "ServerName m = ''''"
proof -
  from assms obtain v s2 sid where v: "4 \<le> length d" "drop 4 d = enc16 v @ s2" "32 \<le> length s2"
    "drop 32 s2 = prefixed8 sid @ s" "length sid < 256" "ServerName m = ''''"
    by (auto simp: unmarshal_header_def Let_def Skip_law ReadUint16_law ReadBytes_law Read8_law empty_hello_def
        split: option.splits prod.splits if_splits)
  have "d = take 4 d @ enc16 v @ take 32 s2 @ prefixed8 sid @ s"
    using append_take_drop_id [of 4 d] append_take_drop_id [of 32 s2] v(2,4) by simp
  with v(1,3,5,6) show thesis by (intro that [of "take 4 d" v "take 32 s2" sid]) simp_all
qed

lemma unmarshal_accepts:
  assumes "snd (unmarshal cb d) = None"
  shows "\<exists>hdr h. length hdr = 4 \<and> hello_ok h \<and> d = hdr @ encode_hello h"
proof -
  from assms obtain m s cs m1 cm es where m: "unmarshal_header cb d = (m, Some s)"
    "s = prefixed16 cs @ prefixed8 cm @ prefixed16 es" "length cs < 65536" "length cm < 256" "length es < 65536"
    "suites_loop cb (Suc (length cs)) cs (m\<lparr>CipherSuites := [], SecureRenegotiationSupported := False\<rparr>) = (m1, None)"
    "snd (extensions_loop cb (Suc (length es)) es [] (m1\<lparr>CompressionMethods := cm\<rparr>)) = None"
    by (auto simp: unmarshal_def unmarshal_extensions_def Read16_law Read8_law split: option.splits prod.splits if_splits
        simp del: suites_loop.simps extensions_loop.simps)
  obtain hdr v r sid where d: "length hdr = 4" "d = hdr @ enc16 v @ r @ prefixed8 sid @ s" "length r = 32"
    "length sid < 256" "ServerName m = ''''" by (rule header_accepts [OF m(1)])
  from loop_accepted(7) [OF m(6)] obtain ss where ss: "cs = concat (map enc16 ss)" by blast
  have "ServerName m1 = ''''" using m(6) suites_loop_encode [of ss "Suc (length cs)"] d(5) unfolding ss by auto
  with extensions_loop_accepts [OF m(7)] obtain xs where xs: "es = concat (map encode_ext xs)"
    "distinct (map ext_id xs)" "\<forall>e \<in> set xs. ext_ok e" "\<forall>e \<in> set (butlast xs). ext_id e \<noteq> 41" by auto
  let ?h = "\<lparr>h_vers = v, h_random = r, h_session = sid, h_suites = ss, h_compression = cm, h_exts = xs\<rparr>"
  have "hello_ok ?h" using d(3,4) m(3-5) ss xs by (simp add: hello_ok_def)
  moreover have "d = hdr @ encode_hello ?h" using d(2) m(2) ss xs(1) by (simp add: encode_hello_def)
  ultimately show ?thesis using d(1) by blast
qed

end

subsection \<open>Properties\<close>

text \<open>
  C18. The parser accepts exactly the handshakes of the format: it returns a message without error if
  and only if the bytes are the handshake byte, eight bytes of headers, and the encoding of a
  well-formed ClientHello, and the message it returns is the meaning of that ClientHello. So every
  accepted message is well typed: a 32-byte random, distinct extensions, a pre-shared key last, at
  most one host name, which is not empty and has no trailing dot.
\<close>

theorem UnmarshalByByte_accepts_iff:
  assumes "cryptobyte cb"
  shows "UnmarshalByByte cb buf m = Ret (m', None) \<longleftrightarrow>
    (\<exists>hdr h. length hdr = 8 \<and> hello_ok h \<and> buf = 0x16 # hdr @ encode_hello h \<and> m' = hello_msg h)"
proof
  assume u: "UnmarshalByByte cb buf m = Ret (m', None)"
  then have b: "5 \<le> length buf" "buf ! 0 = 0x16" "unmarshal cb (drop 5 buf) = (m', None)"
    by (auto simp: UnmarshalByByte_def split: if_splits)
  with cryptobyte.unmarshal_accepts [OF assms, of "drop 5 buf"] obtain hdr h where
    h: "length hdr = 4" "hello_ok h" "drop 5 buf = hdr @ encode_hello h" by auto
  have "take 5 buf = 0x16 # tl (take 5 buf)" using b(1,2) by (cases buf) auto
  with h(3) have "buf = 0x16 # (tl (take 5 buf) @ hdr) @ encode_hello h"
    by (metis append_take_drop_id append_Cons append_assoc)
  moreover have "length (tl (take 5 buf) @ hdr) = 8" using b(1) h(1) by simp
  moreover have "m' = hello_msg h" using b(3) cryptobyte.unmarshal_encode [OF assms h(2,1)] h(3) by simp
  ultimately show "\<exists>hdr h. length hdr = 8 \<and> hello_ok h \<and> buf = 0x16 # hdr @ encode_hello h \<and> m' = hello_msg h"
    using h(2) by blast
next
  assume "\<exists>hdr h. length hdr = 8 \<and> hello_ok h \<and> buf = 0x16 # hdr @ encode_hello h \<and> m' = hello_msg h"
  then obtain hdr h where h: "length hdr = 8" "hello_ok h" "buf = 0x16 # hdr @ encode_hello h" "m' = hello_msg h" by blast
  have "drop 5 buf = drop 4 hdr @ encode_hello h" "length (drop 4 hdr) = 4" using h(1,3) by simp_all
  with cryptobyte.unmarshal_encode [OF assms h(2)] h show "UnmarshalByByte cb buf m = Ret (m', None)"
    by (simp add: UnmarshalByByte_def)
qed

theorem UnmarshalByByte_accepts_iff_witness:
  "\<exists>m'. UnmarshalByByte big_endian_readers (0x16 # replicate 8 0 @ encode_hello example_hello) empty_hello = Ret (m', None) \<and>
    ServerName m' = ''a.io''"
proof -
  have "UnmarshalByByte big_endian_readers (0x16 # replicate 8 0 @ encode_hello example_hello) empty_hello =
      Ret (hello_msg example_hello, None)"
    unfolding UnmarshalByByte_accepts_iff [OF be.cryptobyte_axioms]
    by (intro exI [of _ "replicate 8 0"] exI [of _ example_hello] conjI refl example_hello_ok) simp
  then show ?thesis by (simp add: hello_msg_def example_hello_def host_names_def empty_hello_def)
qed

end
