(* ===== verification/SniffEnforce.thy ===== *)
theory SniffEnforce
  imports Server HelloFormat
begin

text \<open>
  From the bytes of a TLS client to the blacklist: the composition of the wrapper of
  \<^verbatim>\<open>server/sniffing/conn.go\<close>, the parser of \<^verbatim>\<open>server/sniffing/tls/client_hello.go\<close>, the goroutine of the handlers
  that stores the name, the ticker of their loop and their deferred report.
\<close>

lemma ServerName_others: "\<forall>e \<in> set es. ext_id e \<noteq> 0 \<Longrightarrow> ServerName (fold ext_apply es m) = ServerName m"
  by (induction es arbitrary: m) (simp_all add: be.ServerName_ext_apply)

lemma ServerName_fold:
  assumes "distinct (map ext_id es)" and "ServerNameExt ns \<in> set es" and "host_names ns = n # xs"
  shows "ServerName (fold ext_apply es m) = n"
  using assms(1,2)
proof (induction es arbitrary: m)
  case (Cons e es)
  show ?case
  proof (cases "e = ServerNameExt ns")
    case True
    with Cons.prems(1) have "\<forall>e' \<in> set es. ext_id e' \<noteq> 0" by (auto simp: image_iff)
    with True assms(3) show ?thesis by (simp add: ServerName_others)
  next
    case False
    with Cons show ?thesis by simp
  qed
qed simp

lemma while_append:
  assumes "\<forall>x \<in> set xs. P x" and "\<not> P y"
  shows "takeWhile P (xs @ y # ys) = xs" and "dropWhile P (xs @ y # ys) = y # ys"
  using assms by (induction xs) auto

lemma hello_server_name:
  assumes "hello_ok h" and "ServerNameExt ns \<in> set (h_exts h)" and "host_names ns = [n]"
  shows "ServerName (hello_msg h) = n" and "n \<noteq> ''''"
proof -
  show "ServerName (hello_msg h) = n"
    unfolding hello_msg_def using assms by (intro ServerName_fold) (auto simp: hello_ok_def)
  have "ext_ok (ServerNameExt ns)" using assms(1,2) unfolding hello_ok_def by blast
  moreover have "n \<in> snd ` set ns"
  proof -
    have "n \<in> set (host_names ns)" by (simp add: assms(3))
    then show ?thesis by (auto simp: host_names_def)
  qed
  ultimately show "n \<noteq> ''''" by auto
qed

lemma sniff_hello:
  assumes "cryptobyte cb" and "hello_ok h" and "ServerNameExt ns \<in> set (h_exts h)" and "host_names ns = [n]"
    and "length hdr = 8"
  shows "sniff_domain cb http_host (0x16 # hdr @ encode_hello h) = Ret (Some n)"
proof -
  have "UnmarshalByByte cb (0x16 # hdr @ encode_hello h) empty_hello = Ret (hello_msg h, None)"
    using cryptobyte.unmarshal_encode [OF assms(1,2), of "drop 4 hdr"] assms(5) by (simp add: UnmarshalByByte_def)
  with hello_server_name [OF assms(2-4)] show ?thesis by (simp add: sniff_domain_def Let_def)
qed

definition black_entries :: "('m, 'u, 'c, 'b, 'a) manager \<Rightarrow> string list" where
  "black_entries m = (case m_blackMap m of None \<Rightarrow> [] | Some bm \<Rightarrow> bm)"

lemma Tick_spec:
  assumes "th_domain th = n" and "n \<noteq> ''''" and "rl_name r = name" and "rl_ip r = ip" and "rl_account r = account" and "rl_exit r = exit"
  shows "if \<exists>b \<in> set (black_entries m). contains_str n b
    then \<exists>b m' th'. b \<in> set (black_entries m) \<and> contains_str n b \<and> relay_step P Tick r m th = Some (m', th') \<and>
      th_proc th' = CReturn \<and> m_reports m' = m_reports m @ [black_list_record name ip b 1 account exit]
    else relay_step P Tick r m th = Some (m, th)"
proof -
  have f: "if \<exists>b \<in> set bs. contains_str d b then \<exists>b \<in> set bs. contains_str d b \<and> first_match bs d = (b, True)
      else first_match bs d = ('''', False)" for bs d
    by (induction bs) auto
  have i: "IsInBlacklist (m_blackMap m) (th_domain th) = first_match (black_entries m) (th_domain th)"
    by (simp add: IsInBlacklist_def black_entries_def split: option.split)
  from f [of "black_entries m" "th_domain th"] assms show ?thesis
    by (auto simp: i send_black_def goto_def split: if_splits)
qed

text \<open>
  C6. The server name of a ClientHello is enforced: when the bytes a client sends before the first answer
  reaches it are a well-formed ClientHello with the host name \<open>n\<close>, then the wrapper hands exactly these
  bytes to the sniffing goroutine, which stores \<open>n\<close> as the domain; from then on the first tick at which
  an entry of the blacklist occurs in \<open>n\<close> ends the handler and sends the report, at other ticks it
  goes on, and the access log written at its end names \<open>n\<close>.
\<close>

theorem sniffed_name_enforced:
  assumes "cryptobyte (o_cb P)" and "hello_ok h" and "ServerNameExt ns \<in> set (h_exts h)" and "host_names ns = [n]"
    and "length hdr = 8" and "NewReadWriterNotice (Some c) None True = Some w"
    and "rwn_run rd wr cl ops w = (map (\<lambda>(k, p). (ORead k, p)) reads @ (OWrite q, []) # tr, w')"
    and "concat (map snd reads) = 0x16 # hdr @ encode_hello h" and "rl_sniff r" and "th_proc th = CRelay r"
  shows "\<exists>buf th'. rn_notices w' = [buf] \<and> relay_step P (Sniff buf) r m th = Some (m, th') \<and>
    th_proc th' = CRelay (r\<lparr>rl_sniff := False\<rparr>) \<and> th_domain th' = n \<and>
    (\<forall>m2. if \<exists>b \<in> set (black_entries m2). contains_str n b
       then \<exists>b m3 th3. b \<in> set (black_entries m2) \<and> contains_str n b \<and>
         relay_step P Tick (r\<lparr>rl_sniff := False\<rparr>) m2 th' = Some (m3, th3) \<and> th_proc th3 = CReturn \<and>
         m_reports m3 = m_reports m2 @ [black_list_record (rl_name r) (rl_ip r) b 1 (rl_account r) (rl_exit r)]
       else relay_step P Tick (r\<lparr>rl_sniff := False\<rparr>) m2 th' = Some (m2, th')) \<and>
    (\<forall>m2 user address ip. m_accesses (run_deferred P (th_domain th') (DReport user address ip) m2) =
       m_accesses m2 @ [(user, n, ip)])"
proof -
  let ?buf = "0x16 # hdr @ encode_hello h" and ?r = "r\<lparr>rl_sniff := False\<rparr>"
  let ?th = "th\<lparr>th_domain := n, th_proc := CRelay ?r\<rparr>"
  have n: "n \<noteq> ''''" by (rule hello_server_name(2) [OF assms(2-4)])
  have w: "rn_isStart w" "\<not> rn_isNotice w" "rn_fc w" "rn_buf w = Some []" "rn_notices w = []"
    using assms(6) by (auto simp: NewReadWriterNotice_def)
  let ?rd = "map (\<lambda>(k, p). (ORead k, p)) reads"
  have "concat (map snd ?rd) = ?buf" using assms(8) by (simp add: case_prod_beta comp_def)
  have "\<forall>x \<in> set ?rd. is_read x" by auto
  moreover have "\<not> is_read (OWrite q, [])" by simp
  ultimately have tw: "takeWhile is_read (?rd @ (OWrite q, []) # tr) = ?rd"
      "dropWhile is_read (?rd @ (OWrite q, []) # tr) = (OWrite q, []) # tr"
    by (rule while_append)+
  have notice: "rn_notices w' = [?buf]"
    using rwn_run_notice [OF w(1-4), of rd wr cl ops] \<open>concat (map snd ?rd) = ?buf\<close> w(5)
    unfolding assms(7) fst_conv snd_conv tw by simp
  have sniff: "relay_step P (Sniff ?buf) r m th = Some (m, ?th)"
    using sniff_hello [OF assms(1-5), of "o_http_host P"] assms(9) by simp
  have tick: "if \<exists>b \<in> set (black_entries m2). contains_str n b
       then \<exists>b m3 th3. b \<in> set (black_entries m2) \<and> contains_str n b \<and>
         relay_step P Tick ?r m2 ?th = Some (m3, th3) \<and> th_proc th3 = CReturn \<and>
         m_reports m3 = m_reports m2 @ [black_list_record (rl_name r) (rl_ip r) b 1 (rl_account r) (rl_exit r)]
       else relay_step P Tick ?r m2 ?th = Some (m2, ?th)" for m2
    by (rule Tick_spec [OF _ n]) simp_all
  have acc: "m_accesses (run_deferred P (th_domain ?th) (DReport user address ip) m2) = m_accesses m2 @ [(user, n, ip)]" for user address ip m2
    using n by (simp add: access_domain_def)
  have th: "th_proc ?th = CRelay ?r" "th_domain ?th = n" by simp_all
  show ?thesis by (intro exI [of _ ?buf] exI [of _ ?th] conjI allI notice sniff th tick acc)
qed

definition demo_record :: bytes where
  "demo_record = 0x16 # replicate 8 0 @ encode_hello example_hello"

definition demo_reader :: "unit \<Rightarrow> nat \<Rightarrow> bytes \<times> io_error option \<times> unit" where
  "demo_reader c k = (demo_record, None, c)"

definition demo_wrapped :: "unit rwn" where
  "demo_wrapped = \<lparr>rn_rw = (), rn_buf = Some [], rn_isNotice = False, rn_isStart = True, rn_fc = True, rn_notices = []\<rparr>"

abbreviation demo_write :: "unit io_writer" where
  "demo_write \<equiv> \<lambda>c p. (length p, None, c)"

lemma demo_wrapped_run:
  "NewReadWriterNotice (Some ()) None True = Some demo_wrapped"
  "\<exists>w'. rwn_run demo_reader demo_write (\<lambda>c. (None, c)) [ORead 4096, OWrite [2]] demo_wrapped =
     (map (\<lambda>(k, p). (ORead k, p)) [(4096, demo_record)] @ (OWrite [2], []) # [], w')"
  by (simp_all add: NewReadWriterNotice_def demo_wrapped_def rwn_Read_def rwn_Write_def demo_reader_def Let_def)

theorem sniffed_name_enforced_witness:
  "\<exists>buf th' m3 th3. rn_notices (snd (rwn_run demo_reader demo_write (\<lambda>c. (None, c)) [ORead 4096, OWrite [2]] demo_wrapped)) = [buf] \<and>
     relay_step demo_ops (Sniff buf) demo_relay demo_manager (new_thread (CRelay demo_relay) demo_conn) = Some (demo_manager, th') \<and>
     th_domain th' = ''a.io'' \<and>
     relay_step demo_ops Tick (demo_relay\<lparr>rl_sniff := False\<rparr>) (demo_manager\<lparr>m_blackMap := Some [''b.io'', ''.io'']\<rparr>) th' = Some (m3, th3) \<and>
     th_proc th3 = CReturn \<and> m_reports m3 = [black_list_record ''1.2.3.4'' ''1.2.3.4'' ''.io'' 1 '''' ''1.2.3.4'']"
proof -
  let ?m2 = "demo_manager\<lparr>m_blackMap := Some [''b.io'', ''.io'']\<rparr>"
  obtain w' where w': "rwn_run demo_reader demo_write (\<lambda>c. (None, c)) [ORead 4096, OWrite [2]] demo_wrapped =
     (map (\<lambda>(k, p). (ORead k, p)) [(4096, demo_record)] @ (OWrite [2], []) # [], w')"
    using demo_wrapped_run(2) by blast
  have cb: "cryptobyte (o_cb demo_ops)" using be.cryptobyte_axioms by (simp add: demo_ops_def)
  have ns: "ServerNameExt [(0, ''a.io'')] \<in> set (h_exts example_hello)" "host_names [(0, ''a.io'')] = [''a.io'']"
    by (simp_all add: example_hello_def host_names_def)
  have rec: "concat (map snd [(4096::nat, demo_record)]) = 0x16 # replicate 8 0 @ encode_hello example_hello"
    by (simp add: demo_record_def)
  have e: "black_entries ?m2 = [''b.io'', ''.io'']" "m_reports ?m2 = []" "rl_name demo_relay = ''1.2.3.4''" "rl_ip demo_relay = ''1.2.3.4''"
      "rl_account demo_relay = ''''" "rl_exit demo_relay = ''1.2.3.4''"
    by (simp_all add: black_entries_def demo_manager_def demo_relay_def)
  have s: "rl_sniff demo_relay" "th_proc (new_thread (CRelay demo_relay) demo_conn) = CRelay demo_relay"
    by (simp_all add: demo_relay_def new_thread_def)
  have c: "contains_str ''a.io'' ''.io''" "\<not> contains_str ''a.io'' ''b.io''" by code_simp+
  obtain buf th' where b: "rn_notices w' = [buf]"
      "relay_step demo_ops (Sniff buf) demo_relay demo_manager (new_thread (CRelay demo_relay) demo_conn) = Some (demo_manager, th')"
      "th_domain th' = ''a.io''"
    and t: "if \<exists>b \<in> set (black_entries ?m2). contains_str ''a.io'' b
       then \<exists>b m3 th3. b \<in> set (black_entries ?m2) \<and> contains_str ''a.io'' b \<and>
         relay_step demo_ops Tick (demo_relay\<lparr>rl_sniff := False\<rparr>) ?m2 th' = Some (m3, th3) \<and> th_proc th3 = CReturn \<and>
         m_reports m3 = m_reports ?m2 @ [black_list_record (rl_name demo_relay) (rl_ip demo_relay) b 1 (rl_account demo_relay) (rl_exit demo_relay)]
       else relay_step demo_ops Tick (demo_relay\<lparr>rl_sniff := False\<rparr>) ?m2 th' = Some (?m2, th')"
    using sniffed_name_enforced [OF cb example_hello_ok ns length_replicate demo_wrapped_run(1) w' rec s, of demo_manager]
    by (elim exE conjE) (drule spec [of _ ?m2], rule that)
  from t c have "\<exists>m3 th3. relay_step demo_ops Tick (demo_relay\<lparr>rl_sniff := False\<rparr>) ?m2 th' = Some (m3, th3) \<and> th_proc th3 = CReturn \<and>
      m_reports m3 = [black_list_record ''1.2.3.4'' ''1.2.3.4'' ''.io'' 1 '''' ''1.2.3.4'']"
    unfolding e by (auto simp del: relay_step.simps)
  with b show ?thesis unfolding w' snd_conv by blast
qed

end
