(* ===== verification/CleanExit.thy ===== *)
theory CleanExit
  imports Process SendShutdown
begin

text \<open>
  The process together with the eight send queues and their 32 workers: \<^verbatim>\<open>main\<close> of \<^verbatim>\<open>main.go\<close>, \<^verbatim>\<open>manager.Stop\<close> of
  \<^verbatim>\<open>server/manager.go\<close>, which first stops the tasks and then calls \<^verbatim>\<open>closeRabbitmqSendQueueSlices\<close>, and the
  goroutines of \<^verbatim>\<open>server/rabbitmq_product.go\<close>. The theory \<^verbatim>\<open>Process\<close> closes the queues in one step and leaves the
  wait for their workers a parameter; here both are the steps of \<^verbatim>\<open>SendShutdown\<close>, and the
  composed system is shown to refine that abstraction.
\<close>

record 'v whole =
  w_process :: "'v process"
  w_pool :: send_pool

definition start_whole :: "'v process \<Rightarrow> 'v whole" where
  "start_whole p = \<lparr>w_process = p, w_pool = start_pool\<rparr>"

abbreviation w_pc :: "'v whole \<Rightarrow> main_pc" where
  "w_pc w \<equiv> p_pc (w_process w)"

abbreviation w_server :: "'v whole \<Rightarrow> 'v server_state" where
  "w_server w \<equiv> p_server (w_process w)"

definition alive :: "'v whole \<Rightarrow> bool" where
  "alive w \<longleftrightarrow> w_pc w = MServing \<or> w_pc w = MStopping"

text \<open>
  The goroutine of \<^verbatim>\<open>main\<close> is in \<^verbatim>\<open>closeRabbitmqSendQueueSlices\<close> (rule \<open>closing\<close>) only after \<^verbatim>\<open>tcm.Stop\<close> has returned,
  and the process ends with code 0 only after \<^verbatim>\<open>closeRabbitmqSendQueueSlices\<close> has. Pushes by the
  connections that are still open go on until the process has ended.
\<close>

inductive whole_step :: "(string \<Rightarrow> bool) \<Rightarrow> (message \<Rightarrow> bool) \<Rightarrow> 'v whole \<Rightarrow> 'v whole \<Rightarrow> bool" for returns push where
  worker: "alive w \<Longrightarrow> pool_work push (w_pool w) q \<Longrightarrow> whole_step returns push w (w\<lparr>w_pool := q\<rparr>)"
| pushes: "alive w \<Longrightarrow> pool_env (w_pool w) q \<Longrightarrow> sp_closed q = sp_closed (w_pool w) \<Longrightarrow> sp_returned q = sp_returned (w_pool w) \<Longrightarrow>
    whole_step returns push w (w\<lparr>w_pool := q\<rparr>)"
| tasks: "alive w \<Longrightarrow> tm_step returns (s_tcm (w_server w)) m \<Longrightarrow>
    whole_step returns push w (w\<lparr>w_process := (w_process w)\<lparr>p_server := (w_server w)\<lparr>s_tcm := m\<rparr>\<rparr>\<rparr>)"
| signal: "w_pc w = MServing \<Longrightarrow>
    whole_step returns push w (w\<lparr>w_process := (w_process w)\<lparr>p_server := manager_Stop (w_server w), p_pc := MStopping\<rparr>\<rparr>)"
| closing: "w_pc w = MStopping \<Longrightarrow> Stop_returns (s_tcm (w_server w)) \<Longrightarrow> pool_env (w_pool w) q \<Longrightarrow>
    whole_step returns push w (w\<lparr>w_pool := q\<rparr>)"
| stop_returned: "w_pc w = MStopping \<Longrightarrow> sp_returned (w_pool w) \<Longrightarrow>
    whole_step returns push w (w\<lparr>w_process := (w_process w)\<lparr>p_pc := MExited 0\<rparr>\<rparr>)"
| timer: "w_pc w = MStopping \<Longrightarrow> whole_step returns push w (w\<lparr>w_process := (w_process w)\<lparr>p_pc := MExited 1\<rparr>\<rparr>)"

subsection \<open>Invariant\<close>

definition whole_inv :: "'v whole \<Rightarrow> bool" where
  "whole_inv w \<longleftrightarrow> pool_inv (w_pool w) \<and> tm_inv (s_tcm (w_server w)) \<and>
     (w_pc w = MServing \<longrightarrow> s_stop (w_server w) = Serving) \<and>
     (w_pc w \<noteq> MServing \<longrightarrow> s_stop (w_server w) = StoppingTasks \<and> cancelled (s_tcm (w_server w)) \<and>
        list_all (\<lambda>l. \<not> snd l) (s_listeners (w_server w))) \<and>
     (sp_closed (w_pool w) \<noteq> None \<longrightarrow> w_pc w \<noteq> MServing \<and> Stop_returns (s_tcm (w_server w))) \<and>
     (w_pc w = MExited 0 \<longrightarrow> sp_returned (w_pool w))"

lemma pool_work_fields: "pool_work push q q' \<Longrightarrow> sp_closed q' = sp_closed q \<and> sp_returned q' = sp_returned q"
  by (auto elim!: pool_workE)

lemma whole_step_inv: "whole_step returns push w w' \<Longrightarrow> whole_inv w \<Longrightarrow> whole_inv w'"
proof (induction rule: whole_step.induct)
  case (worker w q)
  then show ?case using pool_work_inv [OF worker(2)] pool_work_fields [OF worker(2)] by (auto simp: whole_inv_def)
next
  case (pushes w q)
  then show ?case using pool_env_inv [OF pushes(2)] by (auto simp: whole_inv_def)
next
  case (tasks w m)
  then show ?case
    using tm_step_inv [OF tasks(2)] tm_step_cancelled [OF tasks(2)] gone_stays [OF tasks(2)] by (auto simp: whole_inv_def)
next
  case (signal w)
  then show ?case
    using tm_step_inv [OF tm_step.cancel] by (auto simp: whole_inv_def manager_Stop_def Stop_cancel_def list_all_iff)
next
  case (closing w q)
  then show ?case using pool_env_inv [OF closing(3)] by (auto simp: whole_inv_def)
qed (auto simp: whole_inv_def)

lemma whole_reach_inv: "(whole_step returns push)\<^sup>*\<^sup>* w w' \<Longrightarrow> whole_inv w \<Longrightarrow> whole_inv w'"
  by (induction rule: rtranclp_induct) (auto intro: whole_step_inv)

text \<open>The binary is built for IPv4 or for IPv6.\<close>

definition Starts :: "(string list \<Rightarrow> string \<Rightarrow> bool) \<Rightarrow> (string \<Rightarrow> 'v viper_ops) \<Rightarrow> conf_data \<Rightarrow> 'v \<Rightarrow> 'v process \<Rightarrow> bool" where
  "Starts listen vops conf v p \<longleftrightarrow> Start4 listen vops conf v = Ret p \<or> Start6 listen vops conf v = Ret p"

lemma Starts_server:
  assumes "Starts listen vops conf v p"
  obtains s where "sr_inv s" and "s_stop s = Serving" and "\<And>returns. tm_reach returns New_tcm (s_tcm s)"
    and "p = \<lparr>p_server = s, p_pc = MServing\<rparr>"
  using assms unfolding Starts_def
proof
  assume "Start4 listen vops conf v = Ret p"
  then obtain s where s: "StartIpv4 listen vops conf (newManager v) = Ret s" "p = \<lparr>p_server = s, p_pc = MServing\<rparr>"
    by (cases "StartIpv4 listen vops conf (newManager v)") (auto simp: Start4_def)
  with StartIpv4_inv [OF s(1)] StartIpv4_tasks [OF s(1)] show thesis by (intro that [of s]) (simp_all add: ipv4_tasks_reach)
next
  assume "Start6 listen vops conf v = Ret p"
  then obtain s where s: "StartIpv6 listen vops conf (newManager v) = Ret s" "p = \<lparr>p_server = s, p_pc = MServing\<rparr>"
    by (cases "StartIpv6 listen vops conf (newManager v)") (auto simp: Start6_def)
  with StartIpv6_inv [OF s(1)] StartIpv6_tasks [OF s(1)] show thesis by (intro that [of s]) (simp_all add: ipv6_tasks_reach)
qed

lemma start_whole_inv:
  assumes "Starts listen vops conf v p"
  shows "whole_inv (start_whole p)" and "sr_inv (p_server p)" and "s_stop (p_server p) = Serving" and "p_pc p = MServing"
    and "tm_reach returns New_tcm (s_tcm (p_server p))"
proof -
  obtain s where s: "sr_inv s" "s_stop s = Serving" "\<And>returns. tm_reach returns New_tcm (s_tcm s)"
      "p = \<lparr>p_server = s, p_pc = MServing\<rparr>" using Starts_server [OF assms] by blast
  then show "sr_inv (p_server p)" "s_stop (p_server p) = Serving" "p_pc p = MServing" by simp_all
  then show "whole_inv (start_whole p)"
    using pool_start_inv by (simp add: whole_inv_def start_whole_def sr_inv_def start_pool_def)
  show "tm_reach returns New_tcm (s_tcm (p_server p))" using s(3,4) by simp
qed

lemma whole_reach_tasks:
  "(whole_step returns push)\<^sup>*\<^sup>* w w' \<Longrightarrow> tm_reach returns New_tcm (s_tcm (w_server w)) \<Longrightarrow> tm_reach returns New_tcm (s_tcm (w_server w'))"
proof (induction rule: rtranclp_induct)
  case (step y z)
  from step(2) step(3) [OF step(4)] show ?case
    by (induction rule: whole_step.induct) (auto simp: manager_Stop_def intro: tm_reach.step tm_step.cancel)
qed simp

subsection \<open>Refinement of the process\<close>

text \<open>
  A state of the process stands for a composed state when the program counter, the tasks and the listeners agree
  and it has closed the queues exactly when all eight are closed.
\<close>

definition stands_for :: "'v process \<Rightarrow> 'v whole \<Rightarrow> bool" where
  "stands_for p w \<longleftrightarrow> p_pc p = w_pc w \<and> s_tcm (p_server p) = s_tcm (w_server w) \<and>
     s_listeners (p_server p) = s_listeners (w_server w) \<and> sr_inv (p_server p) \<and>
     s_stop (p_server p) = (if sp_closed (w_pool w) = Some 8 then QueuesClosed else s_stop (w_server w))"

lemma simulate_serve:
  assumes "stands_for p w" and "whole_inv w" and "alive w" and "sr_step returns (p_server p) s" and "s_stop s = Serving \<longleftrightarrow> w_pc w = MServing"
    and "s_tcm s = s_tcm (w_server w')" and "s_listeners s = s_listeners (w_server w')" and "w_pc w' = w_pc w"
    and "s_stop s = (if sp_closed (w_pool w') = Some 8 then QueuesClosed else s_stop (w_server w'))"
  shows "\<exists>p'. (main_step returns (\<lambda>_. True))\<^sup>*\<^sup>* p p' \<and> stands_for p' w'"
proof -
  have "main_step returns (\<lambda>_. True) p (p\<lparr>p_server := s\<rparr>)"
    using assms by (intro main_step.serve) (auto simp: stands_for_def alive_def)
  moreover have "stands_for (p\<lparr>p_server := s\<rparr>) w'"
    using assms sr_step_inv [OF assms(4)] by (simp add: stands_for_def)
  ultimately show ?thesis by blast
qed

lemma simulate_closing:
  assumes "stands_for p w" and "whole_inv w" and "w_pc w = MStopping" and "Stop_returns (s_tcm (w_server w))"
    and "pool_env (w_pool w) q"
  shows "\<exists>p'. (main_step returns (\<lambda>_. True))\<^sup>*\<^sup>* p p' \<and> stands_for p' (w\<lparr>w_pool := q\<rparr>)"
proof (cases "sp_closed q = Some 8 \<longleftrightarrow> sp_closed (w_pool w) = Some 8")
  case True
  then have "stands_for p (w\<lparr>w_pool := q\<rparr>)" using assms(1) by (simp add: stands_for_def)
  then show ?thesis by blast
next
  case False
  then have c: "sp_closed (w_pool w) \<noteq> Some 8" "sp_closed q = Some 8"
    using pool_env_left [OF assms(5)] assms(2) by (auto simp: whole_inv_def)
  have t: "s_stop (p_server p) = StoppingTasks" using assms(1-3) c(1) by (simp add: stands_for_def whole_inv_def)
  obtain pr where pr: "closeRabbitmqSendQueueSlices (s_producer (p_server p)) = Ret pr"
    using assms(1) by (auto simp: stands_for_def sr_inv_def closeRabbitmqSendQueueSlices_def Let_def)
  have "sr_step returns (p_server p) ((p_server p)\<lparr>s_producer := pr, s_stop := QueuesClosed\<rparr>)"
    using t pr assms(1,4) by (intro sr_step.close) (auto simp: stands_for_def)
  from simulate_serve [OF assms(1,2) _ this, of "w\<lparr>w_pool := q\<rparr>"] assms(1,3) c(2) show ?thesis
    by (simp add: alive_def stands_for_def)
qed

lemma whole_step_simulated:
  "whole_step returns push w w' \<Longrightarrow> whole_inv w \<Longrightarrow> stands_for p w \<Longrightarrow> \<exists>p'. (main_step returns (\<lambda>_. True))\<^sup>*\<^sup>* p p' \<and> stands_for p' w'"
proof (induction rule: whole_step.induct)
  case (worker w q)
  then have "stands_for p (w\<lparr>w_pool := q\<rparr>)" using pool_work_fields by (simp add: stands_for_def)
  then show ?case by blast
next
  case (pushes w q)
  then have "stands_for p (w\<lparr>w_pool := q\<rparr>)" by (simp add: stands_for_def)
  then show ?case by blast
next
  case (tasks w m)
  have s: "sr_step returns (p_server p) ((p_server p)\<lparr>s_tcm := m\<rparr>)"
    using tasks by (intro sr_step.tasks) (simp add: stands_for_def)
  from tasks show ?case
    by (intro simulate_serve [OF tasks(4,3,1) s]) (auto simp: stands_for_def whole_inv_def alive_def)
next
  case (signal w)
  let ?p = "p\<lparr>p_server := manager_Stop (p_server p), p_pc := MStopping\<rparr>"
  have "main_step returns (\<lambda>_. True) p ?p" using signal by (intro main_step.signal) (simp add: stands_for_def)
  moreover have "sr_inv (p_server ?p)"
    using sr_step_inv [OF sr_step.stop] signal by (auto simp: stands_for_def whole_inv_def)
  then have "stands_for ?p (w\<lparr>w_process := (w_process w)\<lparr>p_server := manager_Stop (w_server w), p_pc := MStopping\<rparr>\<rparr>)"
    using signal by (auto simp: stands_for_def whole_inv_def manager_Stop_def)
  ultimately show ?case by blast
next
  case (closing w q)
  then show ?case using simulate_closing by blast
next
  case (stop_returned w)
  then have "main_step returns (\<lambda>_. True) p (p\<lparr>p_pc := MExited 0\<rparr>)"
    by (intro main_step.stop_returned) (auto simp: stands_for_def whole_inv_def pool_inv_def)
  moreover have "stands_for (p\<lparr>p_pc := MExited 0\<rparr>) (w\<lparr>w_process := (w_process w)\<lparr>p_pc := MExited 0\<rparr>\<rparr>)"
    using stop_returned by (simp add: stands_for_def)
  ultimately show ?case by blast
next
  case (timer w)
  then have "main_step returns (\<lambda>_. True) p (p\<lparr>p_pc := MExited 1\<rparr>)" by (intro main_step.timer) (simp add: stands_for_def)
  moreover have "stands_for (p\<lparr>p_pc := MExited 1\<rparr>) (w\<lparr>w_process := (w_process w)\<lparr>p_pc := MExited 1\<rparr>\<rparr>)"
    using timer by (simp add: stands_for_def)
  ultimately show ?case by blast
qed

lemma start_stands_for: "Starts listen vops conf v p \<Longrightarrow> stands_for p (start_whole p)"
  using start_whole_inv [of listen vops conf v p] by (simp add: stands_for_def start_whole_def start_pool_def)

lemma whole_simulated:
  assumes "Starts listen vops conf v p0" and "(whole_step returns push)\<^sup>*\<^sup>* (start_whole p0) w"
  shows "\<exists>p. (main_step returns (\<lambda>_. True))\<^sup>*\<^sup>* p0 p \<and> stands_for p w"
  using assms(2)
proof (induction rule: rtranclp_induct)
  case base
  then show ?case using start_stands_for [OF assms(1)] by blast
next
  case (step y z)
  then obtain p where p: "(main_step returns (\<lambda>_. True))\<^sup>*\<^sup>* p0 p" "stands_for p y" by blast
  have "whole_inv y" using whole_reach_inv [OF step.hyps(1) start_whole_inv(1) [OF assms(1)]] .
  with whole_step_simulated [OF step.hyps(2) _ p(2)] p(1) show ?case by (meson rtranclp_trans)
qed

subsection \<open>Ends of the process\<close>

lemma whole_same [simp]:
  "w\<lparr>w_pool := w_pool w\<rparr> = w"
  "w\<lparr>w_process := (w_process w)\<lparr>p_server := (w_server w)\<lparr>s_tcm := s_tcm (w_server w)\<rparr>\<rparr>\<rparr> = w"
  for w :: "'v whole"
  by simp_all

lemma whole_tasks:
  "tm_reach returns m m' \<Longrightarrow> w_pc w = MStopping \<Longrightarrow> s_tcm (w_server w) = m \<Longrightarrow>
   (whole_step returns push)\<^sup>*\<^sup>* w (w\<lparr>w_process := (w_process w)\<lparr>p_server := (w_server w)\<lparr>s_tcm := m'\<rparr>\<rparr>\<rparr>)"
proof (induction rule: tm_reach.induct)
  case (step m m1 m2)
  let ?w = "w\<lparr>w_process := (w_process w)\<lparr>p_server := (w_server w)\<lparr>s_tcm := m1\<rparr>\<rparr>\<rparr>"
  have "whole_step returns push ?w (?w\<lparr>w_process := (w_process ?w)\<lparr>p_server := (w_server ?w)\<lparr>s_tcm := m2\<rparr>\<rparr>\<rparr>)"
    using step by (intro whole_step.tasks) (auto simp: alive_def)
  with step show ?case by (auto intro: rtranclp.rtrancl_into_rtrancl)
qed auto

lemma whole_closing:
  "pool_env\<^sup>*\<^sup>* q q' \<Longrightarrow> w_pc w = MStopping \<Longrightarrow> Stop_returns (s_tcm (w_server w)) \<Longrightarrow> w_pool w = q \<Longrightarrow>
   (whole_step returns push)\<^sup>*\<^sup>* w (w\<lparr>w_pool := q'\<rparr>)"
proof (induction rule: rtranclp_induct)
  case (step y z)
  have "whole_step returns push (w\<lparr>w_pool := y\<rparr>) (w\<lparr>w_pool := y\<rparr>\<lparr>w_pool := z\<rparr>)"
    using step by (intro whole_step.closing) auto
  with step show ?case by (auto intro: rtranclp.rtrancl_into_rtrancl)
qed auto

lemma whole_working:
  "(pool_work push)\<^sup>*\<^sup>* q q' \<Longrightarrow> w_pc w = MStopping \<Longrightarrow> w_pool w = q \<Longrightarrow> (whole_step returns push)\<^sup>*\<^sup>* w (w\<lparr>w_pool := q'\<rparr>)"
proof (induction rule: rtranclp_induct)
  case (step y z)
  have "whole_step returns push (w\<lparr>w_pool := y\<rparr>) (w\<lparr>w_pool := y\<rparr>\<lparr>w_pool := z\<rparr>)"
    using step by (intro whole_step.worker) (auto simp: alive_def)
  with step show ?case by (auto intro: rtranclp.rtrancl_into_rtrancl)
qed auto

lemma whole_finishes:
  assumes "whole_inv w" and "tm_reach returns New_tcm (s_tcm (w_server w))" and "w_pc w = MStopping" and "\<And>fc. returns fc"
  shows "\<exists>w'. (whole_step returns push)\<^sup>*\<^sup>* w w' \<and> w_pc w' = MExited 0 \<and>
    map sq_pushed (sp_queues (w_pool w')) = map sq_pushed (sp_queues (w_pool w))"
proof -
  let ?step = "whole_step returns push"
  have "cancelled (s_tcm (w_server w))" using assms(1,3) by (simp add: whole_inv_def)
  then obtain m where m: "tm_reach returns (s_tcm (w_server w)) m" "Stop_returns m"
    using stop_completes [OF assms(2) _ assms(4)] by blast
  let ?w1 = "w\<lparr>w_process := (w_process w)\<lparr>p_server := (w_server w)\<lparr>s_tcm := m\<rparr>\<rparr>\<rparr>"
  obtain q1 q2 q3 where q: "pool_env\<^sup>*\<^sup>* (w_pool w) q1" "(pool_work push)\<^sup>*\<^sup>* q1 q2" "pool_env\<^sup>*\<^sup>* q2 q3" "sp_returned q3"
      "map sq_pushed (sp_queues q3) = map sq_pushed (sp_queues (w_pool w))"
    using pool_finishes assms(1) unfolding whole_inv_def by metis
  have "?step\<^sup>*\<^sup>* w ?w1" using whole_tasks [OF m(1) assms(3)] by simp
  moreover have "?step\<^sup>*\<^sup>* ?w1 (?w1\<lparr>w_pool := q1\<rparr>)" using whole_closing [OF q(1), of ?w1] m(2) assms(3) by simp
  moreover have "?step\<^sup>*\<^sup>* (?w1\<lparr>w_pool := q1\<rparr>) (?w1\<lparr>w_pool := q2\<rparr>)"
    using whole_working [OF q(2), of "?w1\<lparr>w_pool := q1\<rparr>"] assms(3) by simp
  moreover have "?step\<^sup>*\<^sup>* (?w1\<lparr>w_pool := q2\<rparr>) (?w1\<lparr>w_pool := q3\<rparr>)"
    using whole_closing [OF q(3), of "?w1\<lparr>w_pool := q2\<rparr>"] m(2) assms(3) by simp
  ultimately have "?step\<^sup>*\<^sup>* w (?w1\<lparr>w_pool := q3\<rparr>)" by (meson rtranclp_trans)
  moreover have "?step (?w1\<lparr>w_pool := q3\<rparr>) (?w1\<lparr>w_pool := q3\<rparr>\<lparr>w_process := (w_process (?w1\<lparr>w_pool := q3\<rparr>))\<lparr>p_pc := MExited 0\<rparr>\<rparr>)"
    using q(4) assms(3) by (intro whole_step.stop_returned) simp_all
  ultimately show ?thesis using q(5)
    by (intro exI [of _ "?w1\<lparr>w_pool := q3\<rparr>\<lparr>w_process := (w_process (?w1\<lparr>w_pool := q3\<rparr>))\<lparr>p_pc := MExited 0\<rparr>\<rparr>"])
      (auto intro: rtranclp.rtrancl_into_rtrancl)
qed



end
