(* ===== verification/FreeCache.thy ===== *)
theory FreeCache
  imports Server
begin

text \<open>
  The wrappers of \<^verbatim>\<open>utils/free_cache.go\<close> and the alarms they hold back in \<^verbatim>\<open>server/shadowsocks_handler.go\<close>. The package
  \<^verbatim>\<open>github.com/coocood/freecache\<close> is a parameter: the record \<open>fc_ops\<close> of the methods that are called, with the clock reading
  in seconds as an argument, and the locale \<open>free_cache\<close> with their documented behaviour while the
  cache has room, so that nothing is evicted.
\<close>

record 'c fc_ops =
  fc_get :: "int \<Rightarrow> bytes \<Rightarrow> 'c \<Rightarrow> (string + bytes) \<times> 'c"
  fc_set :: "int \<Rightarrow> bytes \<Rightarrow> bytes \<Rightarrow> int \<Rightarrow> 'c \<Rightarrow> string option \<times> 'c"
  fc_getorset :: "int \<Rightarrow> bytes \<Rightarrow> bytes \<Rightarrow> int \<Rightarrow> 'c \<Rightarrow> (bytes option \<times> string option) \<times> 'c"

definition cacheSize :: nat where
  "cacheSize = 100 * 1024 * 1024"

definition GetOrSetFreeCache :: "'c fc_ops \<Rightarrow> int \<Rightarrow> string \<Rightarrow> bytes \<Rightarrow> int \<Rightarrow> 'c \<Rightarrow> (bytes option \<times> string option) \<times> 'c" where
  "GetOrSetFreeCache ops now key value expireSeconds cache = fc_getorset ops now (bytes_of key) value expireSeconds cache"

definition GetFreeCache :: "'c fc_ops \<Rightarrow> int \<Rightarrow> string \<Rightarrow> 'c \<Rightarrow> (bytes option \<times> string option) \<times> 'c" where
  "GetFreeCache ops now key cache = (case fc_get ops now (bytes_of key) cache of
     (Inl err, c) \<Rightarrow> ((None, Some err), c)
   | (Inr value, c) \<Rightarrow> ((Some value, None), c))"

definition SetFreeCache :: "'c fc_ops \<Rightarrow> int \<Rightarrow> string \<Rightarrow> bytes \<Rightarrow> int \<Rightarrow> 'c \<Rightarrow> string option \<times> 'c" where
  "SetFreeCache ops now key value expireSeconds cache = fc_set ops now (bytes_of key) value expireSeconds cache"

subsection \<open>The alarm of an address at its limit\<close>

definition CONNECT_MAX_IP :: string where
  "CONNECT_MAX_IP = ''connect_max_ip:''"

definition alarm_ttl :: "int \<Rightarrow> int" where
  "alarm_ttl alarmOneIPMaxThreshold = (if alarmOneIPMaxThreshold \<noteq> 0 then alarmOneIPMaxThreshold else 300)"

text \<open>Whether the alarm is sent; the error of the cache is dropped.\<close>

definition connect_max_alarm :: "'c fc_ops \<Rightarrow> int \<Rightarrow> string \<Rightarrow> int \<Rightarrow> 'c \<Rightarrow> bool \<times> 'c" where
  "connect_max_alarm ops now ip thr cache =
     (case GetOrSetFreeCache ops now (CONNECT_MAX_IP @ ip) [1] (alarm_ttl thr) cache of ((exist, _), c) \<Rightarrow> (exist = None, c))"

text \<open>Refused connections in order: the time, the address and the threshold configured at that time.\<close>

fun alarm_run :: "'c fc_ops \<Rightarrow> (int \<times> string \<times> int) list \<Rightarrow> 'c \<Rightarrow> bool list" where
  "alarm_run ops [] c = []"
| "alarm_run ops ((t, ip, thr) # as) c = (case connect_max_alarm ops t ip thr c of (sent, c1) \<Rightarrow> sent # alarm_run ops as c1)"

subsection \<open>The contract of the cache\<close>

definition fresh :: "(bytes \<Rightarrow> (bytes \<times> int option) option) \<Rightarrow> int \<Rightarrow> bytes \<Rightarrow> bytes option" where
  "fresh it t k = (case it k of
     None \<Rightarrow> None
   | Some (v, None) \<Rightarrow> Some v
   | Some (v, Some e) \<Rightarrow> if t < e then Some v else None)"

text \<open>An entry written at \<open>t\<close> for \<open>d\<close> seconds, seen at \<open>t'\<close>; without a positive number of seconds it does not expire.\<close>

definition lives :: "int \<Rightarrow> int \<Rightarrow> int \<Rightarrow> bool" where
  "lives t d t' \<longleftrightarrow> d \<le> 0 \<or> t' < t + d"

definition fits :: "bytes \<Rightarrow> bytes \<Rightarrow> bool" where
  "fits k v \<longleftrightarrow> length k < 65535 \<and> length v < cacheSize div 1024"

text \<open>An address for which one of the alarms of \<open>h\<close> is still remembered at \<open>t\<close>, and a cache that remembers exactly \<open>h\<close>.\<close>

definition covered :: "(int \<times> string \<times> int) set \<Rightarrow> string \<Rightarrow> int \<Rightarrow> bool" where
  "covered h ip t \<longleftrightarrow> (\<exists>(t1, ip1, thr1) \<in> h. ip1 = ip \<and> lives t1 (alarm_ttl thr1) t)"

definition remembers :: "('c \<Rightarrow> bytes \<Rightarrow> (bytes \<times> int option) option) \<Rightarrow> int \<Rightarrow> (int \<times> string \<times> int) set \<Rightarrow> 'c \<Rightarrow> bool" where
  "remembers item now h c \<longleftrightarrow> (\<forall>t \<ge> now. \<forall>ip. fresh (item c) t (bytes_of (CONNECT_MAX_IP @ ip)) \<noteq> None \<longleftrightarrow> covered h ip t)"

locale free_cache =
  fixes ops :: "'c fc_ops" and item :: "'c \<Rightarrow> bytes \<Rightarrow> (bytes \<times> int option) option"
  assumes get_res: "case fresh (item c) t k of Some v \<Rightarrow> fst (fc_get ops t k c) = Inr v | None \<Rightarrow> isl (fst (fc_get ops t k c))"
    and get_keeps: "t \<le> t' \<Longrightarrow> fresh (item (snd (fc_get ops t k c))) t' = fresh (item c) t'"
    and set_res: "fits k v \<Longrightarrow> fst (fc_set ops t k v d c) = None"
    and set_fresh: "fits k v \<Longrightarrow> t \<le> t' \<Longrightarrow>
      fresh (item (snd (fc_set ops t k v d c))) t' = (fresh (item c) t')(k := if lives t d t' then Some v else None)"
    and getorset_res: "fits k v \<Longrightarrow> fst (fc_getorset ops t k v d c) = (fresh (item c) t k, None)"
    and getorset_fresh: "fits k v \<Longrightarrow> t \<le> t' \<Longrightarrow> fresh (item (snd (fc_getorset ops t k v d c))) t' =
      (if fresh (item c) t k = None then (fresh (item c) t')(k := if lives t d t' then Some v else None) else fresh (item c) t')"
begin

text \<open>What was stored is read back as long as it lives.\<close>

lemma set_get:
  assumes "fits (bytes_of k) v" and "t \<le> t'"
  shows "lives t d t' \<Longrightarrow> fst (GetFreeCache ops t' k (snd (SetFreeCache ops t k v d c))) = (Some v, None)"
    and "\<not> lives t d t' \<Longrightarrow> fst (fst (GetFreeCache ops t' k (snd (SetFreeCache ops t k v d c)))) = None"
  using get_res [where c = "snd (SetFreeCache ops t k v d c)" and t = t' and k = "bytes_of k"] set_fresh [OF assms, of d c]
  by (auto simp: GetFreeCache_def SetFreeCache_def isl_def split: prod.splits sum.splits)

lemma alarm_step:
  assumes "remembers item now h c" and "now \<le> t" and "length ip < 65000" and "connect_max_alarm ops t ip thr c = (sent, c1)"
  shows "sent \<longleftrightarrow> \<not> covered h ip t" and "remembers item t (if sent then insert (t, ip, thr) h else h) c1"
proof -
  let ?k = "bytes_of (CONNECT_MAX_IP @ ip)"
  have f: "fits ?k [1]" using assms(3) by (simp add: fits_def bytes_of_def CONNECT_MAX_IP_def cacheSize_def)
  have c1: "c1 = snd (fc_getorset ops t ?k [1] (alarm_ttl thr) c)" "sent \<longleftrightarrow> fresh (item c) t ?k = None"
    using assms(4) getorset_res [OF f, of t "alarm_ttl thr" c]
    by (auto simp: connect_max_alarm_def GetOrSetFreeCache_def split: prod.splits)
  then show "sent \<longleftrightarrow> \<not> covered h ip t" using assms(1,2) unfolding remembers_def by metis
  show "remembers item t (if sent then insert (t, ip, thr) h else h) c1"
    unfolding remembers_def
  proof (intro allI impI)
    fix t' ip' assume t': "t \<le> t'"
    have k: "bytes_of (CONNECT_MAX_IP @ ip') = ?k \<longleftrightarrow> ip' = ip" by (metis same_append_eq string_of_bytes_of)
    have o: "fresh (item c) t' (bytes_of (CONNECT_MAX_IP @ ip')) \<noteq> None \<longleftrightarrow> covered h ip' t'"
      using assms(1,2) t' by (simp add: remembers_def)
    have "fresh (item c) t' ?k = None" if "fresh (item c) t ?k = None"
      using that t' by (auto simp: fresh_def split: option.splits if_splits)
    with o k c1 getorset_fresh [OF f t', of "alarm_ttl thr" c]
    show "fresh (item c1) t' (bytes_of (CONNECT_MAX_IP @ ip')) \<noteq> None \<longleftrightarrow>
      covered (if sent then insert (t, ip, thr) h else h) ip' t'"
      by (auto simp: covered_def split: if_splits)
  qed
qed

lemma alarm_run_length: "length (alarm_run ops as c) = length as"
  by (induction as arbitrary: c) (auto split: prod.splits)

lemma earlier_Cons:
  "(!) (a # as) ` {j. j < Suc k \<and> (s # bs) ! j} = (if s then {a} else {}) \<union> (!) as ` {j. j < k \<and> bs ! j}"
proof -
  have "{j. j < Suc k \<and> (s # bs) ! j} = (if s then {0} else {}) \<union> Suc ` {j. j < k \<and> bs ! j}"
    by (auto simp: less_Suc_eq_0_disj)
  then show ?thesis by (simp add: image_Un image_image)
qed

lemma alarm_run_spec:
  assumes "remembers item now h c" and "sorted (map fst as)" and "\<forall>a \<in> set as. now \<le> fst a \<and> length (fst (snd a)) < 65000"
    and "i < length as"
  shows "alarm_run ops as c ! i \<longleftrightarrow>
    \<not> covered (h \<union> (!) as ` {j. j < i \<and> alarm_run ops as c ! j}) (fst (snd (as ! i))) (fst (as ! i))"
  using assms
proof (induction as arbitrary: now h c i)
  case (Cons a as)
  obtain t ip thr where a: "a = (t, ip, thr)" by (cases a)
  obtain sent c1 where s: "connect_max_alarm ops t ip thr c = (sent, c1)" by (cases "connect_max_alarm ops t ip thr c")
  note st = alarm_step [OF Cons.prems(1) _ _ s]
  show ?case
  proof (cases i)
    case 0
    with st(1) Cons.prems(3) a s show ?thesis by simp
  next
    case (Suc k)
    let ?h = "if sent then insert (t, ip, thr) h else h"
    have r: "alarm_run ops (a # as) c = sent # alarm_run ops as c1" using a s by simp
    have h: "h \<union> (!) (a # as) ` {j. j < i \<and> alarm_run ops (a # as) c ! j} =
        ?h \<union> (!) as ` {j. j < k \<and> alarm_run ops as c1 ! j}"
      unfolding r Suc earlier_Cons using a by auto
    have "remembers item t ?h c1" using st(2) Cons.prems(3) a by simp
    from Cons.IH [OF this, of k] Cons.prems(2-4) show ?thesis
      unfolding h unfolding r Suc by (simp add: a)
  qed
qed simp

end

subsection \<open>An instance\<close>

type_synonym fc_map = "bytes \<Rightarrow> (bytes \<times> int option) option"

definition fc_write :: "int \<Rightarrow> bytes \<Rightarrow> bytes \<Rightarrow> int \<Rightarrow> fc_map \<Rightarrow> fc_map" where
  "fc_write t k v d c = c(k \<mapsto> (v, if d \<le> 0 then None else Some (t + d)))"

definition fc_map_ops :: "fc_map fc_ops" where
  "fc_map_ops = \<lparr>fc_get = (\<lambda>t k c. (case fresh c t k of Some v \<Rightarrow> Inr v | None \<Rightarrow> Inl ''Entry not found'', c)),
     fc_set = (\<lambda>t k v d c. (None, fc_write t k v d c)),
     fc_getorset = (\<lambda>t k v d c. case fresh c t k of Some w \<Rightarrow> ((Some w, None), c) | None \<Rightarrow> ((None, None), fc_write t k v d c))\<rparr>"

lemma fresh_write: "fresh (fc_write t k v d c) t' = (fresh c t')(k := if lives t d t' then Some v else None)"
  by (auto simp: fresh_def fc_write_def lives_def)

interpretation fcm: free_cache fc_map_ops "\<lambda>c. c"
  by unfold_locales (auto simp: fc_map_ops_def fresh_write split: option.splits)


definition demo_refused :: "(int \<times> string \<times> int) list" where
  "demo_refused = [(0, ''1.2.3.4'', 0), (299, ''1.2.3.4'', 0), (299, ''5.6.7.8'', -1), (300, ''1.2.3.4'', 60)]"


text \<open>The step of the handler that sends the alarm, with this cache as the answer it takes from outside.\<close>

lemma alarm_exec:
  assumes "connect_max_alarm ops now ip (AlarmOneIPMaxThreshold (m_conf m)) c = (sent, c1)" and "i_flag i = (\<not> sent)"
  shows "exec P i (CAlarm ip p) m th =
    Some (m\<lparr>m_alarms := m_alarms m @ (if sent then [(ip, AlarmOneIPMaxThreshold (m_conf m), alarm_ttl (AlarmOneIPMaxThreshold (m_conf m)))] else [])\<rparr>,
      th\<lparr>th_proc := p\<rparr>)"
  using assms by (simp add: alarm_ttl_def Let_def)

end
