(* ===== verification/RedisClient.thy ===== *)
theory RedisClient
  imports Process
begin

text \<open>
  The shared Redis client of \<^verbatim>\<open>common/redis.go\<close> and the Lua scripts of \<^verbatim>\<open>server/lua\<close>, both behind \<^verbatim>\<open>sync.OnceValue\<close>. The packages
  \<^verbatim>\<open>go-redis\<close> and Redis itself are parameters: \<open>NewClient\<close> makes a client of type \<open>'k\<close> from its options, \<open>load\<close>
  is \<^verbatim>\<open>script.Load\<close> on a client, and the commands a script calls are the record \<open>lua_ops\<close>.
\<close>

subsection \<open>Values computed once\<close>

text \<open>
  \<^verbatim>\<open>sync.OnceValue\<close>: the first call runs the function; every later call returns the same value, or panics
  again if the first call did.
\<close>

datatype 'a once = NotCalled | Called "'a outcome"

definition OnceValue :: "'a outcome \<Rightarrow> 'a once \<Rightarrow> 'a outcome \<times> 'a once" where
  "OnceValue f st = (case st of NotCalled \<Rightarrow> (f, Called f) | Called r \<Rightarrow> (r, Called r))"

fun once_run :: "'a outcome list \<Rightarrow> 'a once \<Rightarrow> 'a outcome list" where
  "once_run [] st = []"
| "once_run (f # fs) st = (case OnceValue f st of (r, st1) \<Rightarrow> r # once_run fs st1)"

lemma once_run_called: "once_run fs (Called r) = replicate (length fs) r"
  by (induction fs) (auto simp: OnceValue_def)

lemma once_run_first: "once_run (f # fs) NotCalled = replicate (Suc (length fs)) f"
  by (simp add: OnceValue_def once_run_called)

subsection \<open>The client\<close>

record redis_config =
  Addr :: string
  Password :: string
  DB :: int
  MinIdleConns :: int
  MaxIdleConns :: int
  PoolSize :: int

text \<open>
  \<^verbatim>\<open>config.GetConf().Redis.f\<close>: a panic before the first store, or when the configuration has no section for Redis and the
  pointer is nil. \<open>Redis\<close> is the field of the configuration.
\<close>

definition redis_field :: "('c \<Rightarrow> redis_config option) \<Rightarrow> (redis_config \<Rightarrow> 'f) \<Rightarrow> 'c option \<Rightarrow> 'f outcome" where
  "redis_field Redis f p = bind_outcome (GetConf p) (\<lambda>conf. case Redis conf of None \<Rightarrow> Panic | Some rc \<Rightarrow> Ret (f rc))"

text \<open>The function given to \<^verbatim>\<open>OnceValue\<close>. The configuration is read six times, and a reload may come in between:
  \<open>p i\<close> is the pointer at the \<open>i\<close>th reading.\<close>

definition GetRedisDB_fn :: "('c \<Rightarrow> redis_config option) \<Rightarrow> (redis_config \<Rightarrow> 'k) \<Rightarrow> (nat \<Rightarrow> 'c option) \<Rightarrow> 'k outcome" where
  "GetRedisDB_fn Redis NewClient p =
     bind_outcome (redis_field Redis Addr (p 0)) (\<lambda>addr.
     bind_outcome (redis_field Redis Password (p 1)) (\<lambda>password.
     bind_outcome (redis_field Redis DB (p 2)) (\<lambda>db.
     bind_outcome (redis_field Redis MinIdleConns (p 3)) (\<lambda>minIdle.
     bind_outcome (redis_field Redis MaxIdleConns (p 4)) (\<lambda>maxIdle.
     bind_outcome (redis_field Redis PoolSize (p 5)) (\<lambda>poolSize.
       Ret (NewClient \<lparr>Addr = addr, Password = password, DB = db, MinIdleConns = minIdle, MaxIdleConns = maxIdle,
         PoolSize = poolSize\<rparr>)))))))"

definition GetRedisDB :: "('c \<Rightarrow> redis_config option) \<Rightarrow> (redis_config \<Rightarrow> 'k) \<Rightarrow> (nat \<Rightarrow> 'c option) \<Rightarrow> 'k once \<Rightarrow> 'k outcome \<times> 'k once" where
  "GetRedisDB Redis NewClient p st = OnceValue (GetRedisDB_fn Redis NewClient p) st"

lemma fn_steady: "GetRedisDB_fn Redis NewClient (\<lambda>_. Some conf) = (case Redis conf of None \<Rightarrow> Panic | Some rc \<Rightarrow> Ret (NewClient rc))"
proof (cases "Redis conf")
  case (Some rc)
  have e: "\<lparr>Addr = Addr rc, Password = Password rc, DB = DB rc, MinIdleConns = MinIdleConns rc,
      MaxIdleConns = MaxIdleConns rc, PoolSize = PoolSize rc\<rparr> = rc" by (cases rc) simp
  show ?thesis by (simp add: GetRedisDB_fn_def redis_field_def GetConf_def Some e)
qed (simp add: GetRedisDB_fn_def redis_field_def GetConf_def)

text \<open>The calls of \<^verbatim>\<open>GetRedisDB\<close> while the configuration file changes: each call with the changes made since the call before.\<close>

fun redis_calls :: "('c \<Rightarrow> redis_config option) \<Rightarrow> (redis_config \<Rightarrow> 'k) \<Rightarrow> (string option \<times> 'c) list list \<Rightarrow> 'c option \<Rightarrow> 'k once \<Rightarrow> 'k outcome list" where
  "redis_calls Redis NewClient [] p st = []"
| "redis_calls Redis NewClient (us # uss) p st =
     (let p1 = fold OnConfigChange us p in case GetRedisDB Redis NewClient (\<lambda>_. p1) st of
       (r, st1) \<Rightarrow> r # redis_calls Redis NewClient uss p1 st1)"

lemma redis_calls_called: "redis_calls Redis NewClient uss p (Called r) = replicate (length uss) r"
  by (induction uss arbitrary: p) (auto simp: GetRedisDB_def OnceValue_def Let_def)

lemma fold_changes: "fold OnConfigChange us (Some c) = Some (last (c # map snd us))"
  by (induction us arbitrary: c) (auto simp: OnConfigChange_def store_conf_def split: prod.splits)

text \<open>
  The first use of Redis decides: whatever changes the configuration file sees, every call of \<^verbatim>\<open>GetRedisDB\<close> returns the client made
  from the configuration in force at the first call; and if that configuration had no section for
  Redis, every call panics, also after the file has been put right.
\<close>

theorem redis_client_fixed:
  "redis_calls Redis NewClient (us # uss) (Some c) NotCalled =
     replicate (Suc (length uss)) (case Redis (last (c # map snd us)) of None \<Rightarrow> Panic | Some rc \<Rightarrow> Ret (NewClient rc))"
  by (simp add: GetRedisDB_def OnceValue_def fn_steady redis_calls_called fold_changes)

subsection \<open>The Lua scripts\<close>

text \<open>
  The commands of Redis that the scripts call (with the error they report), and whether Lua can unpack a table of
  so many values. \<^verbatim>\<open>redis.call\<close> raises the error of its command, which ends the script; what the commands before did
  stays. An argument that is nil is refused before the command runs.
\<close>

record 'r lua_ops =
  l_SET :: "string \<Rightarrow> string \<Rightarrow> 'r \<Rightarrow> string option \<times> 'r"
  l_DEL :: "string \<Rightarrow> 'r \<Rightarrow> string option \<times> 'r"
  l_SADD :: "string \<Rightarrow> string list \<Rightarrow> 'r \<Rightarrow> string option \<times> 'r"
  l_unpack :: "nat \<Rightarrow> bool"

type_synonym 'r script = "'r \<Rightarrow> string option \<times> 'r"

definition script_seq :: "'r script \<Rightarrow> 'r script \<Rightarrow> 'r script" where
  "script_seq a b r = (case a r of (None, r1) \<Rightarrow> b r1 | (Some e, r1) \<Rightarrow> (Some e, r1))"

definition lua_nth :: "string list \<Rightarrow> nat \<Rightarrow> string option" where
  "lua_nth xs i = (if 1 \<le> i \<and> i \<le> length xs then Some (xs ! (i - 1)) else None)"

definition nil_argument :: string where
  "nil_argument = ''Lua redis lib command arguments must be strings or integers''"

definition call_SET :: "'r lua_ops \<Rightarrow> string option \<Rightarrow> string option \<Rightarrow> 'r script" where
  "call_SET ops k v r = (case (k, v) of (Some k, Some v) \<Rightarrow> l_SET ops k v r | _ \<Rightarrow> (Some nil_argument, r))"

definition call_DEL :: "'r lua_ops \<Rightarrow> string option \<Rightarrow> 'r script" where
  "call_DEL ops k r = (case k of Some k \<Rightarrow> l_DEL ops k r | None \<Rightarrow> (Some nil_argument, r))"

definition call_SADD :: "'r lua_ops \<Rightarrow> string option \<Rightarrow> string list \<Rightarrow> 'r script" where
  "call_SADD ops k ms r = (if \<not> l_unpack ops (length ms) then (Some ''too many results to unpack'', r)
     else case k of Some k \<Rightarrow> l_SADD ops k ms r | None \<Rightarrow> (Some nil_argument, r))"

text \<open>The value that a script which is not ended by an error returns is 1.\<close>

definition AddUserDataLuaScript :: "'r lua_ops \<Rightarrow> string list \<Rightarrow> string list \<Rightarrow> 'r script" where
  "AddUserDataLuaScript ops KEYS ARGV =
     (let stringKey = lua_nth KEYS 1; setKey = lua_nth KEYS 2; stringValue = lua_nth ARGV 1; setMembers = drop 1 ARGV in
      script_seq (call_SET ops stringKey stringValue) (call_SADD ops setKey setMembers))"

definition SetUserDataLuaScript :: "'r lua_ops \<Rightarrow> string list \<Rightarrow> string list \<Rightarrow> 'r script" where
  "SetUserDataLuaScript ops KEYS ARGV =
     (let stringKey = lua_nth KEYS 1; setKey = lua_nth KEYS 2; stringValue = lua_nth ARGV 1; setMembers = drop 1 ARGV in
      script_seq (call_SET ops stringKey stringValue)
        (script_seq (call_DEL ops setKey) (call_SADD ops setKey setMembers)))"

text \<open>
  \<^verbatim>\<open>AddUserDataLuaScriptShaCode\<close> and \<^verbatim>\<open>SetUserDataLuaScriptShaCode\<close>: the script is loaded once, on the client of \<open>getRedisDB\<close>;
  a failure is logged with \<^verbatim>\<open>log.Panic\<close>.
\<close>

definition load_sha :: "('k \<Rightarrow> string + string) \<Rightarrow> 'k outcome \<Rightarrow> string outcome" where
  "load_sha load getRedisDB = bind_outcome getRedisDB (\<lambda>k. case load k of Inl err \<Rightarrow> Panic | Inr sha \<Rightarrow> Ret sha)"

definition AddUserDataLuaScriptShaCode :: "('k \<Rightarrow> string + string) \<Rightarrow> 'k outcome \<Rightarrow> string once \<Rightarrow> string outcome \<times> string once" where
  "AddUserDataLuaScriptShaCode load getRedisDB st = OnceValue (load_sha load getRedisDB) st"

definition SetUserDataLuaScriptShaCode :: "('k \<Rightarrow> string + string) \<Rightarrow> 'k outcome \<Rightarrow> string once \<Rightarrow> string outcome \<times> string once" where
  "SetUserDataLuaScriptShaCode load getRedisDB st = OnceValue (load_sha load getRedisDB) st"

text \<open>A script that could not be loaded at its first use is never loaded: each later call panics without trying again.\<close>

lemma failed_load_sticks:
  assumes "getRedisDB = Panic \<or> (\<exists>k e. getRedisDB = Ret k \<and> load k = Inl e)"
  shows "\<exists>st. AddUserDataLuaScriptShaCode load getRedisDB NotCalled = (Panic, st) \<and>
    (\<forall>load' k. AddUserDataLuaScriptShaCode load' (Ret k) st = (Panic, st))"
  using assms by (auto simp: AddUserDataLuaScriptShaCode_def OnceValue_def load_sha_def)

subsection \<open>The contract of the commands\<close>

datatype rvalue = RString string | RSet "string set"

locale redis_keyspace =
  fixes ops :: "'r lua_ops" and keys :: "'r \<Rightarrow> string \<Rightarrow> rvalue option"
  assumes set_law: "l_SET ops k v r = (e, r') \<Longrightarrow> keys r' = (if e = None then (keys r)(k \<mapsto> RString v) else keys r)"
    and del_law: "l_DEL ops k r = (e, r') \<Longrightarrow> keys r' = (if e = None then (keys r)(k := None) else keys r)"
    and sadd_law: "l_SADD ops k ms r = (e, r') \<Longrightarrow>
      (if e \<noteq> None then keys r' = keys r
       else ms \<noteq> [] \<and> (case keys r k of None \<Rightarrow> keys r' = (keys r)(k \<mapsto> RSet (set ms))
         | Some (RSet s) \<Rightarrow> keys r' = (keys r)(k \<mapsto> RSet (s \<union> set ms)) | Some (RString _) \<Rightarrow> False))"
begin

definition members :: "'r \<Rightarrow> string \<Rightarrow> string set" where
  "members r k = (case keys r k of Some (RSet s) \<Rightarrow> s | _ \<Rightarrow> {})"

lemma set_script:
  assumes "SetUserDataLuaScript ops [k, s] (v # ms) r = (e, r')"
  shows "if e = None then ms \<noteq> [] \<and> keys r' = (keys r)(k \<mapsto> RString v, s \<mapsto> RSet (set ms))
    else keys r' \<in> {keys r, (keys r)(k \<mapsto> RString v), ((keys r)(k \<mapsto> RString v))(s := None)}"
  using assms
  by (auto simp: SetUserDataLuaScript_def script_seq_def lua_nth_def call_SET_def call_DEL_def call_SADD_def Let_def
      dest!: set_law del_law sadd_law split: prod.splits option.splits if_splits)

lemma add_script:
  assumes "AddUserDataLuaScript ops [k, s] (v # ms) r = (e, r')" and "k \<noteq> s"
  shows "if e = None then ms \<noteq> [] \<and> keys r' = (keys r)(k \<mapsto> RString v, s \<mapsto> RSet (members r s \<union> set ms))
    else keys r' \<in> {keys r, (keys r)(k \<mapsto> RString v)}"
  using assms
  by (auto simp: AddUserDataLuaScript_def script_seq_def lua_nth_def call_SET_def call_SADD_def Let_def members_def
      dest!: set_law sadd_law split: prod.splits option.splits if_splits rvalue.splits)

text \<open>A user without addresses: the script fails, but its commands before the failing one have taken effect.\<close>

lemma set_script_no_members:
  assumes "SetUserDataLuaScript ops [k, s] [v] r = (e, r')" and "\<And>r. fst (l_SET ops k v r) = None" and "\<And>r. fst (l_DEL ops s r) = None"
  shows "e \<noteq> None \<and> keys r' = ((keys r)(k \<mapsto> RString v))(s := None)"
proof -
  obtain r1 where r1: "l_SET ops k v r = (None, r1)" using assms(2) [of r] by (cases "l_SET ops k v r") auto
  obtain r2 where r2: "l_DEL ops s r1 = (None, r2)" using assms(3) [of r1] by (cases "l_DEL ops s r1") auto
  have c: "call_SADD ops (Some s) [] r2 = (e, r')"
    using assms(1) r1 r2
    by (simp add: SetUserDataLuaScript_def script_seq_def lua_nth_def call_SET_def call_DEL_def Let_def)
  then have "e \<noteq> None \<and> keys r' = keys r2"
    by (auto simp: call_SADD_def dest!: sadd_law split: if_splits)
  with set_law [OF r1] del_law [OF r2] show ?thesis by simp
qed

end

subsection \<open>An instance\<close>

definition map_lua :: "(string \<Rightarrow> rvalue option) lua_ops" where
  "map_lua = \<lparr>l_SET = (\<lambda>k v r. (None, r(k \<mapsto> RString v))), l_DEL = (\<lambda>k r. (None, r(k := None))),
     l_SADD = (\<lambda>k ms r. if ms = [] then (Some ''ERR wrong number of arguments'', r) else case r k of
       None \<Rightarrow> (None, r(k \<mapsto> RSet (set ms)))
     | Some (RSet s) \<Rightarrow> (None, r(k \<mapsto> RSet (s \<union> set ms)))
     | Some (RString _) \<Rightarrow> (Some ''WRONGTYPE'', r)),
     l_unpack = (\<lambda>n. n < 8000)\<rparr>"

interpretation ml: redis_keyspace map_lua "\<lambda>r. r"
  by unfold_locales (auto simp: map_lua_def split: if_splits option.splits rvalue.splits)

text \<open>
  What the scripts leave in Redis, on the keys and arguments the consumers would pass: when \<^verbatim>\<open>SetUserDataLuaScript\<close> succeeds, the record is stored
  and the set has exactly the given members, of which there is at least one; when
  \<^verbatim>\<open>AddUserDataLuaScript\<close> succeeds, they have been added to the set; and without members the first one
  fails after it has stored the record and deleted the set, unless one of those two commands failed.
\<close>

theorem lua_scripts_spec:
  assumes "redis_keyspace ops keys" and "k \<noteq> s"
  shows "(SetUserDataLuaScript ops [k, s] (v # ms) r = (None, r1) \<longrightarrow>
      ms \<noteq> [] \<and> keys r1 = (keys r)(k \<mapsto> RString v, s \<mapsto> RSet (set ms))) \<and>
    (AddUserDataLuaScript ops [k, s] (v # ms) r = (None, r2) \<longrightarrow>
      ms \<noteq> [] \<and> keys r2 = (keys r)(k \<mapsto> RString v, s \<mapsto> RSet ((case keys r s of Some (RSet x) \<Rightarrow> x | _ \<Rightarrow> {}) \<union> set ms))) \<and>
    ((\<forall>r. fst (l_SET ops k v r) = None \<and> fst (l_DEL ops s r) = None) \<and> SetUserDataLuaScript ops [k, s] [v] r = (e, r3) \<longrightarrow>
      e \<noteq> None \<and> keys r3 = ((keys r)(k \<mapsto> RString v))(s := None))"
  using redis_keyspace.set_script [OF assms(1), of k s v ms r None r1]
    redis_keyspace.add_script [OF assms(1) _ assms(2), of v ms r None r2]
    redis_keyspace.set_script_no_members [OF assms(1), of k s v r e r3]
  unfolding redis_keyspace.members_def [OF assms(1)] by auto

theorem lua_scripts_spec_witness:
  "\<exists>r1 r2 e r3. SetUserDataLuaScript map_lua [''u'', ''ips''] [''rec'', ''1.2.3.4''] Map.empty = (None, r1) \<and>
     r1 ''ips'' = Some (RSet {''1.2.3.4''}) \<and>
     AddUserDataLuaScript map_lua [''u'', ''ips''] [''rec'', ''5.6.7.8''] r1 = (None, r2) \<and>
     r2 ''ips'' = Some (RSet {''1.2.3.4'', ''5.6.7.8''}) \<and>
     SetUserDataLuaScript map_lua [''u'', ''ips''] [''rec''] r2 = (Some e, r3) \<and> r3 ''ips'' = None"
proof -
  let ?k = "''u''" and ?s = "''ips''"
  have n: "?k \<noteq> ?s" by simp
  note spec = lua_scripts_spec [OF ml.redis_keyspace_axioms n]
  note d = SetUserDataLuaScript_def AddUserDataLuaScript_def script_seq_def lua_nth_def call_SET_def call_DEL_def call_SADD_def Let_def map_lua_def
  obtain r1 where r1: "SetUserDataLuaScript map_lua [?k, ?s] [''rec'', ''1.2.3.4''] Map.empty = (None, r1)" by (simp add: d)
  then have e1: "r1 ?s = Some (RSet {''1.2.3.4''})" using spec [of "''rec''" "[''1.2.3.4'']" Map.empty r1] by simp
  then obtain r2 where r2: "AddUserDataLuaScript map_lua [?k, ?s] [''rec'', ''5.6.7.8''] r1 = (None, r2)" by (simp add: d)
  then have e2: "r2 ?s = Some (RSet {''1.2.3.4'', ''5.6.7.8''})"
    using spec [of "''rec''" "[''5.6.7.8'']" r1 _ r2] e1 by auto
  obtain e r3 where r3: "SetUserDataLuaScript map_lua [?k, ?s] [''rec''] r2 = (e, r3)"
    by (cases "SetUserDataLuaScript map_lua [?k, ?s] [''rec''] r2")
  then have "e \<noteq> None \<and> r3 ?s = None" using spec [of "''rec''" "[]" r2 _ _ e r3] by (simp add: map_lua_def)
  with r1 e1 r2 e2 r3 show ?thesis by auto
qed

end
