(* ===== verification/Spec2Isabelle.thy ===== *)
theory Spec2Isabelle
  imports MQueue ChannelQueue ConcurrentMap FlowLimit Socks5 Manager Tracker ClientHello Sniffing Auth AuthEvents Product Handlers Server RabbitConsume TaskManager Nacos TaskRun RandString Startup QueueConsume Alarm Process NetTools SendShutdown HelloFormat SniffEnforce CleanExit FreeCache RedisClient
begin

text \<open>
  \<^bold>\<open>HeraProxy: a verification of the proxy server under \<^verbatim>\<open>src/\<close>.\<close>

  \<^bold>\<open>The program.\<close> HeraProxy is a forward proxy. \<^verbatim>\<open>server/tcp_server.go\<close> accepts connections;
  \<^verbatim>\<open>server/tcp_conn_handler.go\<close> reads the first bytes and chooses a protocol; the handlers for HTTP, SOCKS5 and
  Shadowsocks authenticate the user, check address and target against blacklists, admit the connection
  under a limit per exit address, dial the target, register the connection under the user's context and
  relay bytes through a flow limiter, while a goroutine sniffs the domain from the first bytes (TLS
  ClientHello or HTTP). What a handler acquires it releases by deferred calls. Account data live in
  Redis and are cached for thirty seconds; they change by events consumed from RabbitMQ, which also
  disconnect users and replace the domain blacklist. Access logs go through eight send queues to a
  RabbitMQ producer. Limits come from a remote configuration (Nacos) that is reloaded while the
  server runs. A task manager runs the long-lived functions and stops them.

  \<^bold>\<open>Conventions.\<close> A Go function becomes a HOL function of the same name (prefixed by its type or package
  where names clash). A panic is the value \<^term>\<open>Panic\<close> of the type \<open>outcome\<close>; an error is the left part of a
  sum or an option; a loop that may not end is a \<^verbatim>\<open>partial_function (option)\<close>. Integers keep their width as
  words where they can wrap. Goroutines become step relations, where one step is one atomic operation,
  one locked section or one channel operation, and properties hold for every interleaving. Code outside
  the repository (Redis, ttlcache, the AMQP client, Viper, cryptobyte, the codecs, the Shadowsocks
  library, the network) is a parameter: a record of operations, with what the code relies on as the laws
  of a locale or as named hypotheses.

  \<^bold>\<open>Theories, in the order of the imports, and what they show.\<close>

  \<^item> \<open>Prelude\<close>: \<open>outcome\<close>, bytes, decimal strings, splitting, counting in lists, facts on words.
  \<^item> \<open>FifoQueue\<close>, \<open>MQueue\<close>, \<open>ChannelQueue\<close>: \<^verbatim>\<open>utils/Queue/mqueue.go\<close> and \<^verbatim>\<open>utils/rabbitMQ/rabbitQueue.go\<close>, linked
    lists on a heap of nodes. Both refine a list queue (locales \<open>fifo_base\<close> and \<open>closable_fifo\<close>,
    interpreted on them); a blocked consumer is never forgotten; closing drains.
  \<^item> \<open>ConcurrentMap\<close>: \<^verbatim>\<open>utils/Map/concurrentMap/map.go\<close> refines a finite map, for any sharding function.
  \<^item> \<open>FlowLimit\<close>: \<^verbatim>\<open>server/flow_limit.go\<close>: bytes per second, transparency and progress of the limited reader.
  \<^item> \<open>NetAddr\<close>, \<open>Socks5\<close>: addresses of package \<^verbatim>\<open>net\<close>, and \<^verbatim>\<open>utils/socks5/func.go\<close>: readers agree with an encoder on
    every input; what \<^verbatim>\<open>SendReply\<close> writes is read back.
  \<^item> \<open>ClientHello\<close>, \<open>HelloFormat\<close>, \<open>Sniffing\<close>: \<^verbatim>\<open>server/sniffing\<close> and \<^verbatim>\<open>server/common.go\<close>: the parser accepts exactly
    the encodings of well-formed messages, with their meaning, and panics exactly on short records; the
    domain test equals its regular expression.
  \<^item> \<open>Manager\<close>: counters and contexts of \<^verbatim>\<open>server/manager.go\<close> over any map with the laws of its locale,
    interpreted on the sharded map: the counters equal the connections held, the limit is not exceeded.
  \<^item> \<open>TtlCache\<close>, \<open>Tracker\<close>, \<open>Auth\<close>: the cache contract, \<^verbatim>\<open>utils/tracker\<close>, and \<^verbatim>\<open>server/auth.go\<close>: an accepted login is
    backed by a record that Redis held less than thirty seconds ago.
  \<^item> \<open>AuthEvents\<close>, \<open>QueueConsume\<close>: \<^verbatim>\<open>server/rabbitmq_*consume.go\<close>: what account events do to logins, and the
    per-queue consumers (locale \<open>queue_consumer\<close>, interpreted on all seven): each message is applied
    once and settled once.
  \<^item> \<open>Product\<close>, \<open>SendPool\<close>, \<open>SendShutdown\<close>: \<^verbatim>\<open>server/rabbitmq_product.go\<close>: round robin over the send queues, the four
    workers of a queue, which hand over exactly what was accepted, in order, and the eight queues
    together, whose closing returns after finitely many steps with nothing lost.
  \<^item> \<open>Handlers\<close>, \<open>Server\<close>: the handlers as programs over the calls they make, and their interleaved execution
    on the shared state: every dial is authorised, nothing is leaked, the counters refine an abstract
    account of held slots, closing a user ends the handlers, every handler ends.
  \<^item> \<open>RabbitPool\<close>, \<open>RabbitConsume\<close>: \<^verbatim>\<open>utils/rabbitMQ/rabbitMQPool.go\<close>, \<^verbatim>\<open>common/rabbitmq.go\<close>: publishing returns and
    tells the truth, retries are counted, the supervisor reconnects; and where they do not.
  \<^item> \<open>TaskManager\<close>, \<open>TaskRun\<close>: \<^verbatim>\<open>utils/taskConsumerManager\<close> and \<^verbatim>\<open>utils/taskRunManager\<close>: bounded workers, no lost
    wake-up, exactly the results asked for.
  \<^item> \<open>Nacos\<close>: \<^verbatim>\<open>server/nacos_config.go\<close>: fallback, back-off and reload.
  \<^item> \<open>Listeners\<close>, \<open>Startup\<close>: \<^verbatim>\<open>server/tcp_server.go\<close>, and starting and stopping in \<^verbatim>\<open>server/manager.go\<close>: what a started
    server consists of, that accept loops end and close what they accepted, and when \<^verbatim>\<open>Stop\<close> finishes.
  \<^item> \<open>Log\<close>, \<open>Process\<close>: \<^verbatim>\<open>log/\<close>, \<^verbatim>\<open>http.go\<close>, \<^verbatim>\<open>main.go\<close> and \<^verbatim>\<open>config/load.go\<close>: a file per level, what stops a panic, the
    configuration file, initialisation, signals and the forced exit.
  \<^item> \<open>RandString\<close>, \<open>NetTools\<close>: the random letters and address helpers of \<^verbatim>\<open>utils/tool.go\<close>, \<^verbatim>\<open>server/func.go\<close>, and the
    deadlines of \<^verbatim>\<open>server/io.go\<close>.
  \<^item> \<open>ProxyClient\<close>, \<open>Alarm\<close>: \<^verbatim>\<open>proto/\<close> and \<^verbatim>\<open>utils/alarm.go\<close>: Base64 and query escaping are undone by their
    readers, so the server reads the credentials its client sends and the alarm service the signature.
  \<^item> \<open>RedisClient\<close>: \<^verbatim>\<open>common/redis.go\<close> and \<^verbatim>\<open>server/lua\<close> behind \<^verbatim>\<open>sync.OnceValue\<close>: the first use decides, failures included; what the
    scripts leave in Redis (locale \<open>redis_keyspace\<close>).
  \<^item> \<open>FreeCache\<close>: \<^verbatim>\<open>utils/free_cache.go\<close> and the alarms of addresses at their limit (locale \<open>free_cache\<close>): one alarm per
    address until it expires.
  \<^item> \<open>SniffEnforce\<close>: wrapper, parser, sniffing goroutine, ticker and access log together: the server name of a
    ClientHello is enforced and logged.
  \<^item> \<open>CleanExit\<close>: the process and the workers of the send queues together: they refine \<open>Process\<close>, an exit with code 0
    loses no accepted message, and it can be reached when the task functions return.

  \<^bold>\<open>Bounds and fuel.\<close> Loops over data are structural recursions. \<open>rPush\<close>, the dial loops of the pool,
  \<open>initNacosConfAsync\<close> and \<open>rand_loop\<close> are partial functions, with theorems that they return under the stated
  condition on the other side. The loops of the ClientHello parser take
  fuel, one more than the bytes they iterate over, and \<open>UnmarshalByByte_total\<close> shows that it never runs out. \<open>deliveries\<close>
  takes the number of deliveries to follow; the theorems hold for every such number. Steps of \<open>exec\<close> take
  their answers from an input, so no run is bounded in length.

  \<^bold>\<open>Not modelled.\<close> The text of the metrics page of \<^verbatim>\<open>http.go\<close>, which only prints counters of the runtime;
  the gRPC server is commented out and \<^verbatim>\<open>protobuf/\<close> is generated (its messages are records here, its codecs
  parameters); \<^verbatim>\<open>RetryTool\<close> of the pool has one empty method and no user. Evictions of a full \<^verbatim>\<open>freecache\<close> are
  excluded by its contract. The content of most log lines is left out; the copying
  goroutines of a handler appear as the event that one of them has ended.
\<close>

end
